(* ===== verification/Prelude.thy ===== *)
theory Prelude
  imports Main "HOL-Library.Word"
begin

text \<open>
  The shared vocabulary of the development: results of fallible code, the
  collections of simplification rules that the component theories extend, the
  interface of a pair of encoder and decoder, and generic facts about lists.
\<close>

named_theorems res_simps \<open>evaluation of result-valued code\<close>
named_theorems codec_simps \<open>facts about encoders: lengths, alphabets, inverses\<close>

section \<open>Results\<close>

text \<open>
  A function of the source that can raise returns a sum: \<open>Inl\<close> holds the
  exception, \<open>Inr\<close> the value. \<open>rbind\<close> is the sequential
  composition that Python's control flow gives: the first exception ends the run.
\<close>

definition rbind :: "'e + 'a \<Rightarrow> ('a \<Rightarrow> 'e + 'b) \<Rightarrow> 'e + 'b" where
  "rbind m k = (case m of Inl e \<Rightarrow> Inl e | Inr x \<Rightarrow> k x)"

definition unless_raise :: "bool \<Rightarrow> 'e \<Rightarrow> 'e + unit" where
  "unless_raise ok e = (if ok then Inr () else Inl e)"

lemma rbind_Inl [simp, res_simps]: "rbind (Inl e) k = Inl e"
  by (simp add: rbind_def)

lemma rbind_Inr [simp, res_simps]: "rbind (Inr x) k = k x"
  by (simp add: rbind_def)

lemma rbind_eq_Inr: "rbind m k = Inr y \<longleftrightarrow> (\<exists>x. m = Inr x \<and> k x = Inr y)"
  by (cases m) simp_all

lemma rbind_eq_Inl:
  "rbind m k = Inl e \<longleftrightarrow> m = Inl e \<or> (\<exists>x. m = Inr x \<and> k x = Inl e)"
  by (cases m) simp_all

lemma rbind_assoc: "rbind (rbind m k) h = rbind m (\<lambda>x. rbind (k x) h)"
  by (cases m) simp_all

lemma unless_raise_eq_Inr [simp]: "unless_raise ok e = Inr u \<longleftrightarrow> ok"
  by (simp add: unless_raise_def)

lemma unless_raise_eq_Inl [simp]: "unless_raise ok e = Inl e' \<longleftrightarrow> \<not> ok \<and> e' = e"
  by (auto simp: unless_raise_def)

lemma unless_raise_True [simp, res_simps]: "unless_raise True e = Inr ()"
  by (simp add: unless_raise_def)

lemma unless_raise_False [simp, res_simps]: "unless_raise False e = Inl e"
  by (simp add: unless_raise_def)

definition is_ok :: "'e + 'a \<Rightarrow> bool" where
  "is_ok r = (case r of Inl _ \<Rightarrow> False | Inr _ \<Rightarrow> True)"

lemma is_ok_simps [simp]: "is_ok (Inr x)" "\<not> is_ok (Inl e)"
  by (simp_all add: is_ok_def)

lemma is_ok_iff: "is_ok r \<longleftrightarrow> (\<exists>x. r = Inr x)"
  by (cases r) simp_all

section \<open>The interface of an encoder\<close>

text \<open>
  Several components of the program exchange data with a partner through a
  textual or binary form: UTF-8, percent-encoded path segments, \<open>did:key\<close>
  strings, base64url signatures. Each promises that what was encoded decodes to
  the original. The client facts are proved once here and reached through the
  interpretations in the component theories.
\<close>

locale codec =
  fixes enc :: "'a \<Rightarrow> 'e + 'b"
    and dec :: "'b \<Rightarrow> 'e + 'a"
  assumes dec_enc: "enc x = Inr y \<Longrightarrow> dec y = Inr x"
begin

lemma enc_inject: "enc x = Inr y \<Longrightarrow> enc x' = Inr y \<Longrightarrow> x = x'"
  using dec_enc [of x y] dec_enc [of x' y] by simp

lemma round_trip: "rbind (enc x) dec = (case enc x of Inl e \<Rightarrow> Inl e | Inr _ \<Rightarrow> Inr x)"
  using dec_enc by (cases "enc x") simp_all

lemma encoded_is_decodable: "enc x = Inr y \<Longrightarrow> is_ok (dec y)"
  by (simp add: dec_enc)

end

text \<open>
  A canonical encoder has only one text for each value: whatever decodes was
  produced by the encoder.
\<close>

locale canonical_codec = codec +
  assumes enc_dec: "dec y = Inr x \<Longrightarrow> enc x = Inr y"
begin

lemma dec_inject: "dec y = Inr x \<Longrightarrow> dec y' = Inr x \<Longrightarrow> y = y'"
  using enc_dec [of y x] enc_dec [of y' x] by simp

lemma enc_iff_dec: "enc x = Inr y \<longleftrightarrow> dec y = Inr x"
  using dec_enc enc_dec by blast

end

section \<open>Bytes\<close>

lemma unat_byte [simp]: "unat (b :: 8 word) < 256"
  using unsigned_less [of b] by simp

lemma unat_byte_of_nat: "n < 256 \<Longrightarrow> unat (word_of_nat n :: 8 word) = n"
  by (simp add: unat_of_nat take_bit_eq_mod)

lemma byte_of_nat_inject:
  "m < 256 \<Longrightarrow> n < 256 \<Longrightarrow> (word_of_nat m :: 8 word) = word_of_nat n \<longleftrightarrow> m = n"
  by (metis unat_byte_of_nat)

lemma map_unat_bytes: "(\<And>n. n \<in> set ns \<Longrightarrow> n < 256) \<Longrightarrow>
    map unat (map (word_of_nat :: nat \<Rightarrow> 8 word) ns) = ns"
  by (simp add: unat_byte_of_nat map_idI)

section \<open>Lists\<close>

lemma append_sep_inject:
  assumes "xs @ c # us = ys @ c # vs" and "c \<notin> set xs" and "c \<notin> set ys"
  shows "xs = ys \<and> us = vs"
  using assms
proof (induction xs arbitrary: ys)
  case Nil
  then show ?case by (cases ys) auto
next
  case (Cons x xs)
  then show ?case by (cases ys) auto
qed

lemma dropWhile_hd_stop: "xs = [] \<or> \<not> P (hd xs) \<Longrightarrow> dropWhile P xs = xs"
  by (cases xs) auto

lemma hd_dropWhile_not: "dropWhile P xs \<noteq> [] \<Longrightarrow> \<not> P (hd (dropWhile P xs))"
  by (rule hd_dropWhile)

lemma set_dropWhile_subset: "set (dropWhile P xs) \<subseteq> set xs"
  by (meson set_dropWhileD subsetI)

lemma last_dropWhile_same: "dropWhile P xs \<noteq> [] \<Longrightarrow> last (dropWhile P xs) = last xs"
  by (induction xs) auto

lemma concat_map_length_const:
  "(\<And>x. x \<in> set xs \<Longrightarrow> length (f x) = k) \<Longrightarrow> length (concat (map f xs)) = k * length xs"
  by (induction xs) auto

end
