(* ===== verification/PyStr.thy ===== *)
theory PyStr
  imports Prelude
begin

text \<open>
  What the program uses of Python's \<open>str\<close> and \<open>bytes\<close>. A \<open>str\<close> is
  the list of its Unicode code points, a \<open>bytes\<close> object a list of 8-bit
  words. Modelled here: string literals, the Unicode general categories that the
  Technocore sweep names, \<open>str.isspace\<close> and \<open>str.strip\<close>, decimal
  rendering, strict UTF-8 in both directions and hexadecimal digits. The
  character tables are those of Unicode 15.0, the database of CPython 3.12, the
  oldest interpreter \<open>pyproject.toml\<close> admits.
\<close>

type_synonym pystr = "nat list"
type_synonym byte = "8 word"
type_synonym bytes = "8 word list"

definition str_lit :: "string \<Rightarrow> pystr" where
  "str_lit s = map of_char s"

lemma str_lit_Nil [simp]: "str_lit [] = []"
  by (simp add: str_lit_def)

lemma str_lit_Cons [simp]: "str_lit (c # s) = of_char c # str_lit s"
  by (simp add: str_lit_def)

lemma length_str_lit [simp]: "length (str_lit s) = length s"
  by (simp add: str_lit_def)

section \<open>Unicode tables\<close>

text \<open>A character class is a list of closed code point intervals.\<close>

definition in_ranges :: "(nat \<times> nat) list \<Rightarrow> nat \<Rightarrow> bool" where
  "in_ranges rs c = list_ex (\<lambda>(a, b). a \<le> c \<and> c \<le> b) rs"

lemma in_ranges_Nil [simp]: "\<not> in_ranges [] c"
  by (simp add: in_ranges_def)

lemma in_ranges_Cons [simp]:
  "in_ranges ((a, b) # rs) c \<longleftrightarrow> a \<le> c \<and> c \<le> b \<or> in_ranges rs c"
  by (simp add: in_ranges_def)

datatype category = Cc | Cf | Cs | Co | Zl | Zp | OtherCategory

definition cf_ranges :: "(nat \<times> nat) list" where
  "cf_ranges =
     [(0xAD, 0xAD), (0x600, 0x605), (0x61C, 0x61C), (0x6DD, 0x6DD), (0x70F, 0x70F),
      (0x890, 0x891), (0x8E2, 0x8E2), (0x180E, 0x180E), (0x200B, 0x200F),
      (0x202A, 0x202E), (0x2060, 0x2064), (0x2066, 0x206F), (0xFEFF, 0xFEFF),
      (0xFFF9, 0xFFFB), (0x110BD, 0x110BD), (0x110CD, 0x110CD), (0x13430, 0x1343F),
      (0x1BCA0, 0x1BCA3), (0x1D173, 0x1D17A), (0xE0001, 0xE0001), (0xE0020, 0xE007F)]"

definition category :: "nat \<Rightarrow> category" where
  "category c =
     (if in_ranges [(0, 0x1F), (0x7F, 0x9F)] c then Cc
      else if in_ranges cf_ranges c then Cf
      else if in_ranges [(0xD800, 0xDFFF)] c then Cs
      else if in_ranges [(0xE000, 0xF8FF), (0xF0000, 0xFFFFD), (0x100000, 0x10FFFD)] c then Co
      else if c = 0x2028 then Zl
      else if c = 0x2029 then Zp
      else OtherCategory)"

definition isspace :: "nat \<Rightarrow> bool" where
  "isspace c = in_ranges
     [(0x9, 0xD), (0x1C, 0x20), (0x85, 0x85), (0xA0, 0xA0), (0x1680, 0x1680),
      (0x2000, 0x200A), (0x2028, 0x2029), (0x202F, 0x202F), (0x205F, 0x205F),
      (0x3000, 0x3000)] c"

definition is_surrogate :: "nat \<Rightarrow> bool" where
  "is_surrogate c \<longleftrightarrow> 0xD800 \<le> c \<and> c \<le> 0xDFFF"

text \<open>The code points of a Python string that UTF-8 can carry.\<close>

definition is_scalar :: "nat \<Rightarrow> bool" where
  "is_scalar c \<longleftrightarrow> c < 0x110000 \<and> \<not> is_surrogate c"

definition is_pystr :: "pystr \<Rightarrow> bool" where
  "is_pystr s \<longleftrightarrow> (\<forall>c \<in> set s. c < 0x110000)"

lemma category_surrogate: "is_surrogate c \<Longrightarrow> category c = Cs"
  by (auto simp: is_surrogate_def category_def cf_ranges_def)

lemma category_space: "category 32 = OtherCategory"
  by (simp add: category_def cf_ranges_def)

lemma isspace_space [simp]: "isspace 32"
  by (simp add: isspace_def)

section \<open>Stripping\<close>

definition strip :: "pystr \<Rightarrow> pystr" where
  "strip s = rev (dropWhile isspace (rev (dropWhile isspace s)))"

text \<open>Neither end is a white space character.\<close>

definition stripped :: "pystr \<Rightarrow> bool" where
  "stripped s \<longleftrightarrow> s = [] \<or> \<not> isspace (hd s) \<and> \<not> isspace (last s)"

lemma stripped_strip: "stripped (strip s)"
proof (cases "strip s = []")
  case False
  define t where "t = dropWhile isspace s"
  define u where "u = dropWhile isspace (rev t)"
  have eq: "strip s = rev u" by (simp add: strip_def t_def u_def)
  with False have u: "u \<noteq> []" by simp
  then have "\<not> isspace (hd u)" unfolding u_def by (rule hd_dropWhile)
  moreover from u have t: "t \<noteq> []" by (auto simp: u_def)
  then have "\<not> isspace (hd t)" unfolding t_def by (rule hd_dropWhile)
  moreover have "last u = hd t"
    using u t by (simp add: u_def last_dropWhile_same last_rev)
  ultimately show ?thesis
    using u by (simp add: stripped_def eq hd_rev last_rev)
qed (simp add: stripped_def)

lemma strip_stripped: "stripped s \<Longrightarrow> strip s = s"
proof (cases "s = []")
  case False
  assume "stripped s"
  with False have "\<not> isspace (hd s)" and "\<not> isspace (hd (rev s))"
    by (simp_all add: stripped_def hd_rev)
  then show ?thesis
    by (simp add: strip_def dropWhile_hd_stop)
qed (simp add: strip_def)

lemma strip_idem [simp]: "strip (strip s) = strip s"
  by (simp add: strip_stripped stripped_strip)

lemma set_strip_subset: "set (strip s) \<subseteq> set s"
proof -
  have "set (dropWhile isspace (rev (dropWhile isspace s))) \<subseteq> set (rev (dropWhile isspace s))"
    by (rule set_dropWhile_subset)
  also have "\<dots> \<subseteq> set s"
    using set_dropWhile_subset by simp
  finally show ?thesis by (simp add: strip_def)
qed

lemma length_strip_le: "length (strip s) \<le> length s"
  unfolding strip_def
  by (metis length_dropWhile_le length_rev le_trans)

section \<open>Decimal and hexadecimal digits\<close>

fun dec :: "nat \<Rightarrow> pystr" where
  "dec n = (if n < 10 then [48 + n] else dec (n div 10) @ [48 + n mod 10])"

declare dec.simps [simp del]

lemma dec_nonempty [simp]: "dec n \<noteq> []"
  by (subst dec.simps) simp

lemma set_dec: "c \<in> set (dec n) \<Longrightarrow> 48 \<le> c \<and> c \<le> 57"
proof (induction n rule: dec.induct)
  case (1 n)
  show ?case
  proof (cases "n < 10")
    case True
    with 1 show ?thesis by (simp add: dec.simps [of n])
  next
    case False
    with "1.prems" have "c \<in> set (dec (n div 10)) \<or> c = 48 + n mod 10"
      by (auto simp: dec.simps [of n])
    with "1.IH" [OF False] show ?thesis by auto
  qed
qed

definition undec :: "pystr \<Rightarrow> nat" where
  "undec s = foldl (\<lambda>a c. 10 * a + (c - 48)) 0 s"

lemma undec_snoc [simp]: "undec (s @ [c]) = 10 * undec s + (c - 48)"
  by (simp add: undec_def)

lemma undec_dec [simp]: "undec (dec n) = n"
proof (induction n rule: dec.induct)
  case (1 n)
  show ?case
  proof (cases "n < 10")
    case True
    then show ?thesis by (simp add: dec.simps [of n] undec_def)
  next
    case False
    then have "undec (dec n) = 10 * undec (dec (n div 10)) + n mod 10"
      by (subst dec.simps) simp
    with "1.IH" [OF False] show ?thesis by simp
  qed
qed

lemma dec_eq_iff [simp]: "dec m = dec n \<longleftrightarrow> m = n"
  by (metis undec_dec)

lemma length_dec_le: "length (dec n) \<le> k \<longleftrightarrow> n < 10 ^ k" if "0 < k"
  using that
proof (induction n arbitrary: k rule: dec.induct)
  case (1 n)
  show ?case
  proof (cases "n < 10")
    case True
    with "1.prems" have "(10::nat) ^ 1 \<le> 10 ^ k"
      by (intro power_increasing) auto
    with True "1.prems" show ?thesis by (simp add: dec.simps [of n])
  next
    case False
    show ?thesis
    proof (cases "k = 1")
      case True
      have "length (dec (n div 10)) > 0" by simp
      with True False show ?thesis by (simp add: dec.simps [of n])
    next
      case k: False
      with "1.prems" obtain j where j: "k = Suc j" "0 < j"
        by (cases k) auto
      have "length (dec n) \<le> k \<longleftrightarrow> length (dec (n div 10)) \<le> j"
        using False by (simp add: dec.simps [of n] j)
      also have "\<dots> \<longleftrightarrow> n div 10 < 10 ^ j"
        using "1.IH" [OF False j(2)] .
      also have "\<dots> \<longleftrightarrow> n < 10 ^ k"
        unfolding j(1) by (simp add: div_less_iff_less_mult mult.commute)
      finally show ?thesis .
    qed
  qed
qed

definition hexdigit :: "nat \<Rightarrow> nat" where
  "hexdigit d = (if d < 10 then 48 + d else 87 + d)"

definition hexdigit_upper :: "nat \<Rightarrow> nat" where
  "hexdigit_upper d = (if d < 10 then 48 + d else 55 + d)"

text \<open>\<open>bytes.hex()\<close>: two lowercase digits per byte.\<close>

definition hex_bytes :: "bytes \<Rightarrow> pystr" where
  "hex_bytes bs = concat (map (\<lambda>b. [hexdigit (unat b div 16), hexdigit (unat b mod 16)]) bs)"

lemma length_hex_bytes [simp]: "length (hex_bytes bs) = 2 * length bs"
  by (simp add: hex_bytes_def concat_map_length_const [where k = 2])

lemma hexdigit_inject: "hexdigit a = hexdigit b \<longleftrightarrow> a = b" if "a < 16" "b < 16"
  using that by (auto simp: hexdigit_def)

lemma hex_bytes_inject: "hex_bytes xs = hex_bytes ys \<longleftrightarrow> xs = ys"
proof (induction xs arbitrary: ys)
  case Nil
  then show ?case by (cases ys) (simp_all add: hex_bytes_def)
next
  case (Cons x xs)
  show ?case
  proof (cases ys)
    case Nil
    then show ?thesis by (simp add: hex_bytes_def)
  next
    case (Cons y ys')
    have lt: "unat a div 16 < 16" for a :: byte
      using unat_byte [of a] by (simp add: div_less_iff_less_mult)
    have "unat x div 16 = unat y div 16 \<and> unat x mod 16 = unat y mod 16 \<longleftrightarrow> x = y"
      by (metis div_mult_mod_eq word_unat_eq_iff)
    then show ?thesis
      using Cons.IH [of ys'] lt
      by (auto simp: Cons hex_bytes_def hexdigit_inject)
  qed
qed

section \<open>UTF-8\<close>

text \<open>
  \<open>utf8_char\<close> gives the bytes of one code point as numbers below 256;
  surrogates have none, which is Python's \<open>UnicodeEncodeError\<close>.
\<close>

definition utf8_char :: "nat \<Rightarrow> nat list option" where
  "utf8_char c =
     (if c < 0x80 then Some [c]
      else if c < 0x800 then Some [0xC0 + c div 64, 0x80 + c mod 64]
      else if is_surrogate c then None
      else if c < 0x10000 then
        Some [0xE0 + c div 4096, 0x80 + c div 64 mod 64, 0x80 + c mod 64]
      else if c < 0x110000 then
        Some [0xF0 + c div 262144, 0x80 + c div 4096 mod 64,
              0x80 + c div 64 mod 64, 0x80 + c mod 64]
      else None)"

fun utf8_nats :: "pystr \<Rightarrow> nat list option" where
  "utf8_nats [] = Some []"
| "utf8_nats (c # cs) =
     (case utf8_char c of
        None \<Rightarrow> None
      | Some bs \<Rightarrow> map_option (\<lambda>r. bs @ r) (utf8_nats cs))"

definition is_cont :: "nat \<Rightarrow> bool" where
  "is_cont b \<longleftrightarrow> 0x80 \<le> b \<and> b \<le> 0xBF"

text \<open>
  The strict decoder: overlong forms, surrogates, values beyond U+10FFFF and
  truncated sequences are refused.
\<close>

fun utf8_unnats :: "nat list \<Rightarrow> pystr option" where
  "utf8_unnats [] = Some []"
| "utf8_unnats (b # bs) =
     (if b < 0x80 then map_option (\<lambda>r. b # r) (utf8_unnats bs)
      else case bs of
        [] \<Rightarrow> None
      | b1 # bs1 \<Rightarrow>
          if \<not> is_cont b1 then None
          else if 0xC2 \<le> b \<and> b \<le> 0xDF then
            map_option (\<lambda>r. ((b - 0xC0) * 64 + (b1 - 0x80)) # r) (utf8_unnats bs1)
          else case bs1 of
            [] \<Rightarrow> None
          | b2 # bs2 \<Rightarrow>
              if \<not> is_cont b2 then None
              else if 0xE0 \<le> b \<and> b \<le> 0xEF then
                (let c = (b - 0xE0) * 4096 + (b1 - 0x80) * 64 + (b2 - 0x80)
                 in if c < 0x800 \<or> is_surrogate c then None
                    else map_option (\<lambda>r. c # r) (utf8_unnats bs2))
              else case bs2 of
                [] \<Rightarrow> None
              | b3 # bs3 \<Rightarrow>
                  if \<not> is_cont b3 then None
                  else if 0xF0 \<le> b \<and> b \<le> 0xF4 then
                    (let c = (b - 0xF0) * 262144 + (b1 - 0x80) * 4096
                             + (b2 - 0x80) * 64 + (b3 - 0x80)
                     in if c < 0x10000 \<or> 0x110000 \<le> c then None
                        else map_option (\<lambda>r. c # r) (utf8_unnats bs3))
                  else None)"

lemma utf8_char_bytes: "utf8_char c = Some bs \<Longrightarrow> b \<in> set bs \<Longrightarrow> b < 256"
  by (auto simp: utf8_char_def split: if_splits)

lemma utf8_nats_bytes: "utf8_nats s = Some bs \<Longrightarrow> b \<in> set bs \<Longrightarrow> b < 256"
  by (induction s arbitrary: bs) (auto dest: utf8_char_bytes split: option.splits)

lemma utf8_char_Some_iff: "(\<exists>bs. utf8_char c = Some bs) \<longleftrightarrow> is_scalar c"
  by (auto simp: utf8_char_def is_scalar_def is_surrogate_def)

lemma utf8_nats_Some_iff: "(\<exists>bs. utf8_nats s = Some bs) \<longleftrightarrow> (\<forall>c \<in> set s. is_scalar c)"
proof (induction s)
  case (Cons c s)
  then show ?case
    using utf8_char_Some_iff [of c] by (auto split: option.splits)
qed simp

lemma split64_3: "(c::nat) div 4096 * 4096 + c div 64 mod 64 * 64 + c mod 64 = c"
proof -
  have "c div 64 div 64 = c div 4096" by (simp add: div_mult2_eq [symmetric])
  then have "c div 4096 * 64 + c div 64 mod 64 = c div 64"
    using div_mult_mod_eq [of "c div 64" 64] by simp
  then show ?thesis
    using div_mult_mod_eq [of c 64] by linarith
qed

lemma split64_4:
  "(c::nat) div 262144 * 262144 + c div 4096 mod 64 * 4096 + c div 64 mod 64 * 64 + c mod 64 = c"
proof -
  have "c div 4096 div 64 = c div 262144" by (simp add: div_mult2_eq [symmetric])
  then have "c div 262144 * 64 + c div 4096 mod 64 = c div 4096"
    using div_mult_mod_eq [of "c div 4096" 64] by simp
  then show ?thesis
    using split64_3 [of c] by linarith
qed

lemma utf8_unnats_char:
  assumes "utf8_char c = Some bs"
  shows "utf8_unnats (bs @ r) = map_option (\<lambda>s. c # s) (utf8_unnats r)"
proof -
  consider "c < 0x80" | "0x80 \<le> c" "c < 0x800"
    | "0x800 \<le> c" "c < 0x10000" "\<not> is_surrogate c" | "0x10000 \<le> c" "c < 0x110000"
    using assms by (auto simp: utf8_char_def split: if_splits)
  then show ?thesis
  proof cases
    case 1
    with assms show ?thesis by (auto simp: utf8_char_def)
  next
    case 2
    have "c div 64 * 64 + c mod 64 = c" by simp
    moreover from 2 have "2 \<le> c div 64" and "c div 64 < 32" by auto
    moreover have "c mod 64 < 64" by simp
    ultimately show ?thesis
      using assms 2 by (auto simp: utf8_char_def is_cont_def)
  next
    case 3
    have "c div 4096 * 4096 + c div 64 mod 64 * 64 + c mod 64 = c"
      by (rule split64_3)
    moreover from 3 have "c div 4096 < 16" by auto
    moreover have "c mod 64 < 64" and "c div 64 mod 64 < 64" by simp_all
    ultimately show ?thesis
      using assms 3 by (auto simp: utf8_char_def is_cont_def Let_def)
  next
    case 4
    have "c div 262144 * 262144 + c div 4096 mod 64 * 4096 + c div 64 mod 64 * 64 + c mod 64 = c"
      by (rule split64_4)
    moreover from 4 have "c div 262144 < 5" by auto
    moreover have "c mod 64 < 64" and "c div 64 mod 64 < 64" and "c div 4096 mod 64 < 64"
      by simp_all
    moreover from 4 have "\<not> is_surrogate c" by (simp add: is_surrogate_def)
    ultimately show ?thesis
      using assms 4 by (auto simp: utf8_char_def is_cont_def Let_def)
  qed
qed

lemma utf8_unnats_nats: "utf8_nats s = Some bs \<Longrightarrow> utf8_unnats bs = Some s"
  by (induction s arbitrary: bs) (auto simp: utf8_unnats_char split: option.splits)

end
