(* ===== verification/Errors.thy ===== *)
theory Errors
  imports PyStr
begin

text \<open>
  The exceptions of the program and the dynamic values its guards inspect. Every
  \<open>raise\<close> of the modelled code is a constructor here; where one class is raised
  at several places a reason tells them apart, in the order of the source. The
  message text is kept only for \<open>TechnocoreError\<close> and
  \<open>PublicWriteRefused\<close>, whose text the program writes into the ledger.
\<close>

datatype canon_reason =
    TextNotStr | NothingVisible | NameNotStr | BadName
  | RoomNotStr | RoomEmpty | RoomTooLong | RoomInvisible | RoomSeparator | RoomUrlChar
  | NonceNotInt | NonceNegative | NonceTooLong
  | MessageTooLong | ValueNotStr | NoteTooLong | SegmentNotStr

datatype did_reason =
    KeyNotBytes | KeyWrongLength | DidNotStr | DidPrefixMissing | NotBase58Multibase
  | EmptyBase58 | BadBase58Char | NotEd25519Codec | DecodedKeyWrongLength

datatype sig_reason =
    SigNotRaw64 | SigEncodedLength | SigNotStr | SigLength | SigPadded
  | SigBadBase64 | SigDecodedLength | SignNotBytes | HandleFailed | NullSignerRefuses

datatype keystore_reason =
    HandleNotEd25519 | SignPayloadNotBytes | NotSerialisable | NotCopyable
  | EphemeralInProd | InsideRepo | IsSymlink | NotFound | NotRegularFile
  | PassphraseType | PassphraseShort | NotEncrypted | CannotDecrypt | NoEd25519Inside
  | PassphraseMissing

datatype wiring_reason = SaveNotImplemented | NoRawSigner | ReviewGate | RootDisabled

datatype nonce_reason = DidEmpty | ScopeEmpty | FloorNegative | NonceExhausted

datatype ledger_reason =
    AgentDidRequired | UnknownActivityType | BadCostUnit | CostUnitRequired
  | CostNotDecimalString | RefMissing

datatype sql_reason =
    UniqueViolation | ForeignKeyViolation | CheckViolation | AppendOnlyTrigger | DatabaseLocked

datatype announce_reason =
    AnnounceNonceBelowOne | AnnounceNonceNotGreater | AnnounceNonceRaced
  | NotCapabilitySigner | CanonicalizationMismatch | LocalVerificationRequired
  | ConfirmationRequired | RoomNotPrepared | HashNotPrepared | CanonicalHashMismatch
  | ProofVerificationFailed | WriteVerificationFailed | PublishNotClean | UnexpectedResponse

datatype capability_reason = NotesNotGranted | RawBytesRefused | ArgumentNotStr | CapabilityLeak

datatype config_reason = SecretEnvironment | OverrideInvalid | KeystoreInRepo | KeystoreUnset

datatype exn =
    CanonicalisationError canon_reason
  | UntrustedInputError
  | DidKeyError did_reason
  | SignatureError sig_reason
  | KeystoreError keystore_reason
  | KeyNotWiredError wiring_reason
  | KeystorePermissionError
  | DidMismatchError
  | CapabilityError capability_reason
  | NonceError nonce_reason
  | LedgerError ledger_reason
  | SecretMaterialRefused
  | AnnouncementPreparationError announce_reason
  | ConfigError config_reason
  | TechnocoreError pystr
  | PublicWriteRefused pystr
  | RateLimitExceeded
  | IntegrityError sql_reason
  | OperationalError sql_reason
  | FileNotFoundError
  | OSError
  | RuntimeError
  | OverflowError
  | UnicodeEncodeError
  | UnicodeDecodeError
  | ValueError
  | AttributeError
  | TypeError
  | InvalidSignature
  | BackendError

text \<open>\<open>except ValueError\<close> catches the subclasses of \<open>ValueError\<close> too.\<close>

fun is_ValueError :: "exn \<Rightarrow> bool" where
  "is_ValueError (CanonicalisationError _) = True"
| "is_ValueError UntrustedInputError = True"
| "is_ValueError (DidKeyError _) = True"
| "is_ValueError UnicodeEncodeError = True"
| "is_ValueError UnicodeDecodeError = True"
| "is_ValueError ValueError = True"
| "is_ValueError _ = False"

fun is_DidKeyError :: "exn \<Rightarrow> bool" where
  "is_DidKeyError (DidKeyError _) = True"
| "is_DidKeyError _ = False"

fun is_SignatureError :: "exn \<Rightarrow> bool" where
  "is_SignatureError (SignatureError _) = True"
| "is_SignatureError _ = False"

fun is_TechnocoreError :: "exn \<Rightarrow> bool" where
  "is_TechnocoreError (TechnocoreError _) = True"
| "is_TechnocoreError (PublicWriteRefused _) = True"
| "is_TechnocoreError _ = False"

fun is_KeystoreError :: "exn \<Rightarrow> bool" where
  "is_KeystoreError (KeystoreError _) = True"
| "is_KeystoreError (KeyNotWiredError _) = True"
| "is_KeystoreError KeystorePermissionError = True"
| "is_KeystoreError DidMismatchError = True"
| "is_KeystoreError _ = False"

section \<open>Dynamic values\<close>

text \<open>
  An argument before its \<open>isinstance\<close> checks. \<open>VUntrusted\<close> is any
  object that carries the marker \<open>__flopoffice_untrusted__\<close>; its payload is
  the text it wraps.
\<close>

datatype pyval =
    VStr pystr | VUntrusted pystr | VBytes bytes | VByteArray bytes | VMemoryView bytes
  | VInt int | VBool bool | VNone | VOther

fun is_untrusted :: "pyval \<Rightarrow> bool" where
  "is_untrusted (VUntrusted _) = True"
| "is_untrusted _ = False"

section \<open>Integers as text\<close>

text \<open>
  \<open>str(n)\<close> for a non-negative \<open>int\<close>: CPython refuses to render more than 4300 digits.
\<close>

definition MAX_STR_DIGITS :: nat where "MAX_STR_DIGITS = 4300"

definition py_str_nat :: "nat \<Rightarrow> exn + pystr" where
  "py_str_nat n =
     (let digits = dec n in
      if length digits \<le> MAX_STR_DIGITS then Inr digits else Inl ValueError)"

lemma py_str_nat_Inr: "py_str_nat n = Inr s \<longleftrightarrow> s = dec n \<and> length (dec n) \<le> MAX_STR_DIGITS"
  by (auto simp: py_str_nat_def Let_def)

section \<open>UTF-8 as methods of str and bytes\<close>

definition utf8_encode :: "pystr \<Rightarrow> exn + bytes" where
  "utf8_encode s =
     (case utf8_nats s of None \<Rightarrow> Inl UnicodeEncodeError | Some ns \<Rightarrow> Inr (map word_of_nat ns))"

definition utf8_decode :: "bytes \<Rightarrow> exn + pystr" where
  "utf8_decode bs =
     (case utf8_unnats (map unat bs) of None \<Rightarrow> Inl UnicodeDecodeError | Some s \<Rightarrow> Inr s)"

lemma utf8_decode_encode: "utf8_encode s = Inr bs \<Longrightarrow> utf8_decode bs = Inr s"
proof -
  assume "utf8_encode s = Inr bs"
  then obtain ns where ns: "utf8_nats s = Some ns" "bs = map word_of_nat ns"
    by (auto simp: utf8_encode_def split: option.splits)
  have "map unat bs = ns"
    unfolding ns(2) by (rule map_unat_bytes) (rule utf8_nats_bytes [OF ns(1)])
  then show ?thesis by (simp add: utf8_decode_def utf8_unnats_nats [OF ns(1)])
qed

interpretation utf8: codec utf8_encode utf8_decode
  by unfold_locales (rule utf8_decode_encode)

lemma utf8_encode_ok_iff: "is_ok (utf8_encode s) \<longleftrightarrow> (\<forall>c \<in> set s. is_scalar c)"
  by (auto simp: utf8_encode_def utf8_nats_Some_iff [symmetric] split: option.splits)

lemma utf8_encode_Inr: "\<forall>c \<in> set s. is_scalar c \<Longrightarrow> \<exists>bs. utf8_encode s = Inr bs"
  using utf8_encode_ok_iff [of s] by (simp add: is_ok_iff)

lemma utf8_encode_Inl: "utf8_encode s = Inl e \<Longrightarrow> e = UnicodeEncodeError"
  by (auto simp: utf8_encode_def split: option.splits)

end
