(* ===== verification/PyUrl.thy ===== *)
theory PyUrl
  imports Errors
begin

text \<open>
  \<open>urllib.parse.quote\<close> with an empty safe set and \<open>urllib.parse.unquote\<close> with
  strict errors, the two library calls behind the path segments of the client.
\<close>

definition always_safe :: "nat \<Rightarrow> bool" where
  "always_safe c \<longleftrightarrow> in_ranges [(48, 57), (65, 90), (97, 122)] c \<or> c \<in> {45, 46, 95, 126}"

definition quote_byte :: "nat \<Rightarrow> nat list" where
  "quote_byte b =
     (if always_safe b then [b] else [37, hexdigit_upper (b div 16), hexdigit_upper (b mod 16)])"

definition quote :: "pystr \<Rightarrow> exn + pystr" where
  "quote s = rbind (utf8_encode s) (\<lambda>bs. Inr (concat (map (\<lambda>b. quote_byte (unat b)) bs)))"

definition unhex :: "nat \<Rightarrow> nat option" where
  "unhex c =
     (if 48 \<le> c \<and> c \<le> 57 then Some (c - 48)
      else if 65 \<le> c \<and> c \<le> 70 then Some (c - 55)
      else if 97 \<le> c \<and> c \<le> 102 then Some (c - 87)
      else None)"

fun unquote_to_nats :: "nat list \<Rightarrow> nat list" where
  "unquote_to_nats [] = []"
| "unquote_to_nats (c # cs) =
     (if c = 37 then
        (case cs of
           h # l # r \<Rightarrow>
             (case (unhex h, unhex l) of
                (Some a, Some b) \<Rightarrow> (16 * a + b) # unquote_to_nats r
              | _ \<Rightarrow> 37 # unquote_to_nats cs)
         | _ \<Rightarrow> 37 # unquote_to_nats cs)
      else c # unquote_to_nats cs)"

definition is_ascii :: "nat \<Rightarrow> bool" where
  "is_ascii c \<longleftrightarrow> c < 128"

text \<open>
  Each maximal run of ASCII characters is percent-decoded and then decoded as
  UTF-8; the characters between the runs are copied.
\<close>

function unquote :: "pystr \<Rightarrow> exn + pystr" where
  "unquote s =
     (if s = [] then Inr []
      else rbind (utf8_decode (map word_of_nat (unquote_to_nats (takeWhile is_ascii s)))) (\<lambda>a.
        let r = dropWhile is_ascii s
        in rbind (unquote (dropWhile (\<lambda>c. \<not> is_ascii c) r)) (\<lambda>b.
             Inr (a @ takeWhile (\<lambda>c. \<not> is_ascii c) r @ b))))"
  by pat_completeness auto
termination
proof (relation "measure length")
  fix s :: pystr and x xa
  assume "s \<noteq> []" and "xa = dropWhile is_ascii s"
  moreover have "length (dropWhile (\<lambda>c. \<not> is_ascii c) (dropWhile is_ascii s)) < length s"
    if "s \<noteq> []"
  proof (cases "is_ascii (hd s)")
    case True
    with that have "length (dropWhile is_ascii s) < length s"
      by (cases s) (simp_all add: le_imp_less_Suc length_dropWhile_le)
    then show ?thesis
      using length_dropWhile_le le_less_trans by blast
  next
    case False
    with that have "dropWhile is_ascii s = s" by (cases s) simp_all
    with that False show ?thesis
      by (cases s) (simp_all add: le_imp_less_Suc length_dropWhile_le)
  qed
  ultimately show "(dropWhile (\<lambda>c. \<not> is_ascii c) xa, s) \<in> measure length" by simp
qed simp

declare unquote.simps [simp del]

lemma hexdigit_upper_safe: "d < 16 \<Longrightarrow> always_safe (hexdigit_upper d)"
  by (simp add: always_safe_def hexdigit_upper_def)

lemma quote_byte_alphabet: "b < 256 \<Longrightarrow> c \<in> set (quote_byte b) \<Longrightarrow> always_safe c \<or> c = 37"
  using hexdigit_upper_safe [of "b div 16"] hexdigit_upper_safe [of "b mod 16"]
  by (auto simp: quote_byte_def div_less_iff_less_mult split: if_splits)

lemma always_safe_ascii: "always_safe c \<Longrightarrow> is_ascii c"
  by (auto simp: always_safe_def is_ascii_def)

lemma quote_byte_ascii: "b < 256 \<Longrightarrow> c \<in> set (quote_byte b) \<Longrightarrow> is_ascii c"
  using quote_byte_alphabet [of b c] always_safe_ascii [of c] by (auto simp: is_ascii_def)

lemma unhex_hexdigit_upper: "d < 16 \<Longrightarrow> unhex (hexdigit_upper d) = Some d"
  by (auto simp: unhex_def hexdigit_upper_def)

lemma unquote_quote_byte:
  assumes "b < 256"
  shows "unquote_to_nats (quote_byte b @ r) = b # unquote_to_nats r"
proof (cases "always_safe b")
  case True
  then have "b \<noteq> 37" by (auto simp: always_safe_def)
  with True show ?thesis by (simp add: quote_byte_def)
next
  case False
  from assms have "b div 16 < 16" by (simp add: div_less_iff_less_mult)
  with False show ?thesis
    by (simp add: quote_byte_def unhex_hexdigit_upper)
qed

lemma unquote_quote_nats:
  "(\<And>b. b \<in> set ns \<Longrightarrow> b < 256) \<Longrightarrow> unquote_to_nats (concat (map quote_byte ns)) = ns"
  by (induction ns) (simp_all add: unquote_quote_byte)

lemma unquote_ascii:
  assumes "\<forall>c \<in> set s. is_ascii c"
  shows "unquote s = utf8_decode (map word_of_nat (unquote_to_nats s))"
proof -
  have run: "takeWhile is_ascii s = s" "dropWhile is_ascii s = []"
    using assms by (simp_all add: takeWhile_eq_all_conv dropWhile_eq_Nil_conv)
  have empty: "unquote [] = Inr []" by (simp add: unquote.simps)
  show ?thesis
  proof (cases "s = []")
    case True
    then show ?thesis by (simp add: empty utf8_decode_def)
  next
    case False
    then show ?thesis
      by (cases "utf8_decode (map word_of_nat (unquote_to_nats s))")
        (simp_all only: unquote.simps [of s] run if_False rbind_Inl rbind_Inr Let_def
          dropWhile.simps takeWhile.simps empty append_Nil2)
  qed
qed

lemma quote_form:
  assumes "quote s = Inr q"
  obtains bs where "utf8_encode s = Inr bs" and "q = concat (map quote_byte (map unat bs))"
  using assms by (auto simp: quote_def rbind_eq_Inr comp_def)

lemma quote_ascii: "quote s = Inr q \<Longrightarrow> c \<in> set q \<Longrightarrow> is_ascii c"
  by (erule quote_form) (auto intro: quote_byte_ascii [OF unat_byte])

lemma unquote_quote: "quote s = Inr q \<Longrightarrow> unquote q = Inr s"
proof -
  assume q: "quote s = Inr q"
  then obtain bs
    where bs: "utf8_encode s = Inr bs" "q = concat (map quote_byte (map unat bs))"
    by (rule quote_form)
  have "unquote_to_nats q = map unat bs"
    unfolding bs(2) by (rule unquote_quote_nats) auto
  moreover have "map word_of_nat (map unat bs) = bs"
    by (simp add: map_idI)
  ultimately have "unquote q = utf8_decode bs"
    using quote_ascii [OF q] by (subst unquote_ascii) auto
  with bs(1) show ?thesis by (simp add: utf8.dec_enc)
qed

text \<open>No character of a quoted segment has a meaning in a URL path.\<close>

definition url_structural :: "nat \<Rightarrow> bool" where
  "url_structural c \<longleftrightarrow> c \<in> {35, 47, 63, 38, 59, 58, 64, 32, 10, 13}"

lemma always_safe_not_structural: "url_structural c \<Longrightarrow> \<not> always_safe c \<and> c \<noteq> 37"
  by (auto simp: url_structural_def always_safe_def)

lemma quote_not_structural:
  assumes q: "quote s = Inr q" and c: "c \<in> set q"
  shows "\<not> url_structural c"
proof -
  from q obtain bs :: bytes where "q = concat (map quote_byte (map unat bs))" by (rule quote_form)
  with c obtain x :: byte where "c \<in> set (quote_byte (unat x))" by auto
  with quote_byte_alphabet [of "unat x" c] have "always_safe c \<or> c = 37" by simp
  with always_safe_not_structural [of c] show ?thesis by blast
qed

end
