(* ===== verification/Canonical.thy ===== *)
theory Canonical
  imports PyUrl
begin

text \<open>
  \<open>identity/canonical.py\<close>: the single-line sweep, the validators and the exact
  bytes that a Technocore signature covers. Arguments whose type the code checks
  at run time are \<open>pyval\<close>; what a validator returns has the checked type.
\<close>

definition MAX_MESSAGE_CHARS :: nat where "MAX_MESSAGE_CHARS = 4096"
definition MAX_NOTE_BYTES :: nat where "MAX_NOTE_BYTES = 8 * 1024"
definition MAX_NONCE_DIGITS :: nat where "MAX_NONCE_DIGITS = 19"

lemmas canonical_limits = MAX_MESSAGE_CHARS_def MAX_NOTE_BYTES_def MAX_NONCE_DIGITS_def

section \<open>The sweep\<close>

definition in_sweep_categories :: "nat \<Rightarrow> bool" where
  "in_sweep_categories c \<longleftrightarrow> category c \<in> {Cc, Cf, Cs, Co, Zl, Zp}"

record sweep_policy =
  replace_with_space :: bool
  trim_ends :: bool
  collapse_runs :: bool

definition DEFAULT_SWEEP :: sweep_policy where
  "DEFAULT_SWEEP = \<lparr>replace_with_space = True, trim_ends = True, collapse_runs = False\<rparr>"

lemma DEFAULT_SWEEP_fields [simp]:
  "replace_with_space DEFAULT_SWEEP" "trim_ends DEFAULT_SWEEP" "\<not> collapse_runs DEFAULT_SWEEP"
  by (simp_all add: DEFAULT_SWEEP_def)

text \<open>\<open>str.split(sep)\<close> and \<open>sep.join(parts)\<close> for a one-character separator.\<close>

fun split_on :: "nat \<Rightarrow> pystr \<Rightarrow> pystr list" where
  "split_on sep [] = [[]]"
| "split_on sep (c # cs) =
     (if c = sep then [] # split_on sep cs
      else case split_on sep cs of [] \<Rightarrow> [[c]] | p # ps \<Rightarrow> (c # p) # ps)"

fun join_with :: "nat \<Rightarrow> pystr list \<Rightarrow> pystr" where
  "join_with sep [] = []"
| "join_with sep [p] = p"
| "join_with sep (p # q # ps) = p @ sep # join_with sep (q # ps)"

fun sweep_chars :: "bool \<Rightarrow> pystr \<Rightarrow> pystr" where
  "sweep_chars replace [] = []"
| "sweep_chars replace (c # cs) =
     (if in_sweep_categories c
      then (if replace then 32 # sweep_chars replace cs else sweep_chars replace cs)
      else c # sweep_chars replace cs)"

definition sweep_text :: "sweep_policy \<Rightarrow> pystr \<Rightarrow> pystr" where
  "sweep_text policy text =
     (let swept = sweep_chars (replace_with_space policy) text;
          collapsed = (if collapse_runs policy
                       then join_with 32 (filter (\<lambda>p. p \<noteq> []) (split_on 32 swept))
                       else swept)
      in if trim_ends policy then strip collapsed else collapsed)"

definition reject_untrusted :: "pyval \<Rightarrow> exn + unit" where
  "reject_untrusted v = unless_raise (\<not> is_untrusted v) UntrustedInputError"

definition single_line_sweep :: "pyval \<Rightarrow> sweep_policy option \<Rightarrow> exn + pystr" where
  "single_line_sweep text policy =
     (let pol = (case policy of None \<Rightarrow> DEFAULT_SWEEP | Some p \<Rightarrow> p)
      in rbind (reject_untrusted text) (\<lambda>_.
           case text of
             VStr s \<Rightarrow> Inr (sweep_text pol s)
           | _ \<Rightarrow> Inl (CanonicalisationError TextNotStr)))"

definition require_non_empty :: "pystr \<Rightarrow> exn + pystr" where
  "require_non_empty swept =
     (if swept = [] then Inl (CanonicalisationError NothingVisible) else Inr swept)"

section \<open>Validators\<close>

definition name_start :: "nat \<Rightarrow> bool" where
  "name_start c \<longleftrightarrow> in_ranges [(48, 57), (97, 122)] c"

definition name_char :: "nat \<Rightarrow> bool" where
  "name_char c \<longleftrightarrow> name_start c \<or> c = 45 \<or> c = 95"

text \<open>The language of \<open>[a-z0-9][a-z0-9_-]{0,47}\<close>.\<close>

definition technocore_name :: "pystr \<Rightarrow> bool" where
  "technocore_name s \<longleftrightarrow>
     s \<noteq> [] \<and> length s \<le> 48 \<and> name_start (hd s) \<and> list_all name_char (tl s)"

text \<open>
  \<open>NAME_RE.match(s)\<close>. In Python's \<open>re\<close> the anchor \<open>$\<close> without
  \<open>MULTILINE\<close> matches at the end and also just before a final newline.
\<close>

definition NAME_RE_match :: "pystr \<Rightarrow> bool" where
  "NAME_RE_match s \<longleftrightarrow>
     technocore_name s \<or> s \<noteq> [] \<and> last s = 10 \<and> technocore_name (butlast s)"

definition validate_name :: "pyval \<Rightarrow> exn + pystr" where
  "validate_name v =
     rbind (reject_untrusted v) (\<lambda>_.
       case v of
         VStr s \<Rightarrow> if NAME_RE_match s then Inr s else Inl (CanonicalisationError BadName)
       | _ \<Rightarrow> Inl (CanonicalisationError NameNotStr))"

definition validate_room :: "pyval \<Rightarrow> exn + pystr" where
  "validate_room v =
     rbind (reject_untrusted v) (\<lambda>_.
       case v of
         VStr room \<Rightarrow>
           if room = [] then Inl (CanonicalisationError RoomEmpty)
           else if length room > 128 then Inl (CanonicalisationError RoomTooLong)
           else rbind (single_line_sweep (VStr room) None) (\<lambda>swept.
             if room \<noteq> swept then Inl (CanonicalisationError RoomInvisible)
             else if 124 \<in> set room then Inl (CanonicalisationError RoomSeparator)
             else if 47 \<in> set room \<or> 63 \<in> set room \<or> 35 \<in> set room
             then Inl (CanonicalisationError RoomUrlChar)
             else Inr room)
       | _ \<Rightarrow> Inl (CanonicalisationError RoomNotStr))"

definition validate_nonce :: "pyval \<Rightarrow> exn + int" where
  "validate_nonce v =
     (case v of
        VInt n \<Rightarrow>
          if n < 0 then Inl (CanonicalisationError NonceNegative)
          else rbind (py_str_nat (nat n)) (\<lambda>digits.
            if length digits > MAX_NONCE_DIGITS
            then Inl (CanonicalisationError NonceTooLong) else Inr n)
      | _ \<Rightarrow> Inl (CanonicalisationError NonceNotInt))"

section \<open>Payloads\<close>

definition as_str :: "pyval \<Rightarrow> canon_reason \<Rightarrow> exn + pystr" where
  "as_str v why = (case v of VStr s \<Rightarrow> Inr s | _ \<Rightarrow> Inl (CanonicalisationError why))"

definition message_payload ::
  "pyval \<Rightarrow> pyval \<Rightarrow> pyval \<Rightarrow> sweep_policy \<Rightarrow> bool \<Rightarrow> exn + bytes" where
  "message_payload room nonce text policy already_swept =
     rbind (reject_untrusted text) (\<lambda>_.
     rbind (validate_room room) (\<lambda>r.
     rbind (validate_nonce nonce) (\<lambda>n.
     rbind (as_str text TextNotStr) (\<lambda>t.
     rbind (if already_swept then Inr t else single_line_sweep text (Some policy)) (\<lambda>s.
     rbind (require_non_empty s) (\<lambda>swept.
       if length swept > MAX_MESSAGE_CHARS then Inl (CanonicalisationError MessageTooLong)
       else utf8_encode (r @ 124 # dec (nat n) @ 124 # swept)))))))"

definition note_payload ::
  "pyval \<Rightarrow> pyval \<Rightarrow> pyval \<Rightarrow> pyval \<Rightarrow> sweep_policy \<Rightarrow> bool \<Rightarrow> exn + bytes" where
  "note_payload namespace key nonce value policy already_swept =
     rbind (reject_untrusted value) (\<lambda>_.
     rbind (as_str value ValueNotStr) (\<lambda>v.
     rbind (validate_name namespace) (\<lambda>ns.
     rbind (validate_name key) (\<lambda>k.
     rbind (validate_nonce nonce) (\<lambda>n.
     rbind (if already_swept then Inr v else single_line_sweep value (Some policy)) (\<lambda>s.
     rbind (require_non_empty s) (\<lambda>swept.
     rbind (utf8_encode (ns @ 124 # k @ 124 # dec (nat n) @ 124 # swept)) (\<lambda>encoded.
     rbind (utf8_encode swept) (\<lambda>raw.
       if length raw > MAX_NOTE_BYTES then Inl (CanonicalisationError NoteTooLong)
       else Inr encoded)))))))))"

section \<open>Path segments\<close>

definition encode_path_segment :: "pyval \<Rightarrow> exn + pystr" where
  "encode_path_segment v =
     rbind (reject_untrusted v) (\<lambda>_. rbind (as_str v SegmentNotStr) quote)"

definition decode_path_segment :: "pyval \<Rightarrow> exn + pystr" where
  "decode_path_segment v = rbind (as_str v SegmentNotStr) unquote"

section \<open>Facts about the sweep\<close>

lemma not_swept_space [simp]: "\<not> in_sweep_categories 32"
  by (simp add: in_sweep_categories_def category_space)

lemma set_sweep_chars: "c \<in> set (sweep_chars r s) \<Longrightarrow> \<not> in_sweep_categories c"
  by (induction s) (auto split: if_splits)

lemma sweep_chars_clean: "\<forall>c \<in> set s. \<not> in_sweep_categories c \<Longrightarrow> sweep_chars r s = s"
  by (induction s) auto

lemma sweep_chars_subset: "set (sweep_chars r s) \<subseteq> insert 32 (set s)"
  by (induction s) (auto split: if_splits)

lemma length_sweep_chars_le: "length (sweep_chars r s) \<le> length s"
  by (induction s) auto

lemma set_split_on: "p \<in> set (split_on sep s) \<Longrightarrow> set p \<subseteq> set s"
  by (induction s arbitrary: p) (fastforce split: if_splits list.splits)+

lemma set_join_with: "set (join_with sep ps) \<subseteq> insert sep (\<Union> (set ` set ps))"
  by (induction sep ps rule: join_with.induct) auto

text \<open>Nothing the sweep replaces survives it, whatever the policy.\<close>

lemma set_sweep_text: "c \<in> set (sweep_text pol s) \<Longrightarrow> \<not> in_sweep_categories c"
proof -
  define swept where "swept = sweep_chars (replace_with_space pol) s"
  define coll where "coll = (if collapse_runs pol
    then join_with 32 (filter (\<lambda>p. p \<noteq> []) (split_on 32 swept)) else swept)"
  have "set (join_with 32 (filter (\<lambda>p. p \<noteq> []) (split_on 32 swept))) \<subseteq> insert 32 (set swept)"
    using set_join_with [of 32 "filter (\<lambda>p. p \<noteq> []) (split_on 32 swept)"] set_split_on by fastforce
  then have "set coll \<subseteq> insert 32 (set swept)" by (auto simp: coll_def)
  moreover assume "c \<in> set (sweep_text pol s)"
  then have "c \<in> set coll"
    using set_strip_subset by (auto simp: sweep_text_def swept_def coll_def Let_def split: if_splits)
  ultimately show ?thesis
    using set_sweep_chars by (fastforce simp: swept_def)
qed

lemma stripped_sweep_text: "trim_ends pol \<Longrightarrow> stripped (sweep_text pol s)"
  by (simp add: sweep_text_def Let_def stripped_strip)

lemma sweep_text_fixed:
  assumes "\<not> collapse_runs pol" and "\<forall>c \<in> set s. \<not> in_sweep_categories c" and "stripped s"
  shows "sweep_text pol s = s"
  using assms by (simp add: sweep_text_def sweep_chars_clean strip_stripped)

lemma sweep_text_clean:
  assumes "\<not> collapse_runs pol" and "\<forall>c \<in> set s. \<not> in_sweep_categories c"
  shows "sweep_text pol s = (if trim_ends pol then strip s else s)"
  using assms by (simp add: sweep_text_def sweep_chars_clean)

lemma sweep_text_idem:
  assumes "\<not> collapse_runs pol"
  shows "sweep_text pol (sweep_text pol s) = sweep_text pol s"
proof -
  have "\<forall>c \<in> set (sweep_text pol s). \<not> in_sweep_categories c"
    using set_sweep_text by blast
  from sweep_text_clean [OF assms this] show ?thesis
    by (simp add: strip_stripped stripped_sweep_text)
qed

lemma sweep_text_scalar:
  assumes "\<forall>c \<in> set s. c < 0x110000" and "\<not> collapse_runs pol"
  shows "\<forall>c \<in> set (sweep_text pol s). is_scalar c"
proof
  fix c assume c: "c \<in> set (sweep_text pol s)"
  then have "c \<in> set (sweep_chars (replace_with_space pol) s)"
    using assms(2) set_strip_subset by (auto simp: sweep_text_def Let_def split: if_splits)
  then have "c < 0x110000"
    using sweep_chars_subset assms(1) by fastforce
  moreover have "\<not> is_surrogate c"
    using set_sweep_text [OF c] category_surrogate by (auto simp: in_sweep_categories_def)
  ultimately show "is_scalar c" by (simp add: is_scalar_def)
qed

lemma single_line_sweep_Inr:
  "single_line_sweep v p = Inr s \<longleftrightarrow>
     (\<exists>t. v = VStr t \<and> s = sweep_text (case p of None \<Rightarrow> DEFAULT_SWEEP | Some q \<Rightarrow> q) t)"
  by (cases v) (auto simp: single_line_sweep_def reject_untrusted_def Let_def)

lemma single_line_sweep_VStr [simp]:
  "single_line_sweep (VStr t) p = Inr (sweep_text (case p of None \<Rightarrow> DEFAULT_SWEEP | Some q \<Rightarrow> q) t)"
  by (simp add: single_line_sweep_Inr)

section \<open>What the validators accept\<close>

definition clean_text :: "pystr \<Rightarrow> bool" where
  "clean_text s \<longleftrightarrow> stripped s \<and> list_all (\<lambda>c. \<not> in_sweep_categories c) s"

definition valid_room :: "pystr \<Rightarrow> bool" where
  "valid_room r \<longleftrightarrow> r \<noteq> [] \<and> length r \<le> 128 \<and> clean_text r \<and>
     124 \<notin> set r \<and> 47 \<notin> set r \<and> 63 \<notin> set r \<and> 35 \<notin> set r"

definition valid_nonce :: "int \<Rightarrow> bool" where
  "valid_nonce n \<longleftrightarrow> 0 \<le> n \<and> n < 10 ^ 19"

lemma sweep_fixpoint_iff: "sweep_text DEFAULT_SWEEP s = s \<longleftrightarrow> clean_text s"
proof
  assume "sweep_text DEFAULT_SWEEP s = s"
  then show "clean_text s"
    using set_sweep_text [of _ DEFAULT_SWEEP s] stripped_sweep_text [of DEFAULT_SWEEP s]
    by (auto simp: clean_text_def list_all_iff)
qed (simp add: clean_text_def sweep_text_fixed list_all_iff)

lemma clean_sweep_text [simp]: "clean_text (sweep_text DEFAULT_SWEEP s)"
  by (simp add: sweep_text_idem flip: sweep_fixpoint_iff)

lemma validate_room_Inr: "validate_room v = Inr r \<longleftrightarrow> v = VStr r \<and> valid_room r"
proof (cases v)
  case (VStr s)
  have "s = sweep_text DEFAULT_SWEEP s \<longleftrightarrow> clean_text s"
    using sweep_fixpoint_iff [of s] by auto
  then have "validate_room v = Inr r \<longleftrightarrow> s \<noteq> [] \<and> length s \<le> 128 \<and> clean_text s \<and>
      124 \<notin> set s \<and> 47 \<notin> set s \<and> 63 \<notin> set s \<and> 35 \<notin> set s \<and> r = s"
    by (simp add: VStr validate_room_def reject_untrusted_def eq_commute [of s r] not_less
        del: sweep_fixpoint_iff)
  then show ?thesis
    by (auto simp: VStr valid_room_def)
qed (auto simp: validate_room_def reject_untrusted_def)

lemma validate_nonce_Inr: "validate_nonce v = Inr n \<longleftrightarrow> v = VInt n \<and> valid_nonce n"
proof (cases v)
  case (VInt m)
  show ?thesis
  proof (cases "m < 0")
    case False
    have "length (dec (nat m)) \<le> MAX_NONCE_DIGITS \<longleftrightarrow> nat m < 10 ^ 19"
      using length_dec_le [of 19 "nat m"] by (simp add: MAX_NONCE_DIGITS_def)
    also have "\<dots> \<longleftrightarrow> m < 10 ^ 19"
      using False by (simp add: nat_less_iff)
    finally show ?thesis
      using False
      by (auto simp: VInt validate_nonce_def py_str_nat_Inr valid_nonce_def rbind_eq_Inr not_less
          MAX_STR_DIGITS_def MAX_NONCE_DIGITS_def split: if_splits)
  qed (simp add: VInt validate_nonce_def valid_nonce_def)
qed (simp_all add: validate_nonce_def)

lemma validate_name_Inr: "validate_name v = Inr s \<longleftrightarrow> v = VStr s \<and> NAME_RE_match s"
  by (cases v) (auto simp: validate_name_def reject_untrusted_def)

lemma require_non_empty_Inr [simp]: "require_non_empty s = Inr t \<longleftrightarrow> s \<noteq> [] \<and> t = s"
  by (auto simp: require_non_empty_def)

lemma as_str_Inr [simp]: "as_str v why = Inr s \<longleftrightarrow> v = VStr s"
  by (cases v) (auto simp: as_str_def)

lemma reject_untrusted_Inr [simp]: "reject_untrusted v = Inr u \<longleftrightarrow> \<not> is_untrusted v"
  by (simp add: reject_untrusted_def)

lemmas validator_simps = validate_room_Inr validate_nonce_Inr validate_name_Inr

section \<open>What the payload builders return\<close>

definition message_text :: "pystr \<Rightarrow> int \<Rightarrow> pystr \<Rightarrow> pystr" where
  "message_text r n s = r @ 124 # dec (nat n) @ 124 # s"

definition note_text :: "pystr \<Rightarrow> pystr \<Rightarrow> int \<Rightarrow> pystr \<Rightarrow> pystr" where
  "note_text ns k n s = ns @ 124 # k @ 124 # dec (nat n) @ 124 # s"

definition final_text :: "sweep_policy \<Rightarrow> bool \<Rightarrow> pystr \<Rightarrow> pystr" where
  "final_text pol already t = (if already then t else sweep_text pol t)"

lemma message_payload_Inr:
  "message_payload room nonce text pol already = Inr p \<longleftrightarrow>
     (\<exists>r n t. room = VStr r \<and> nonce = VInt n \<and> text = VStr t \<and> valid_room r \<and> valid_nonce n \<and>
        final_text pol already t \<noteq> [] \<and> length (final_text pol already t) \<le> MAX_MESSAGE_CHARS \<and>
        utf8_encode (message_text r n (final_text pol already t)) = Inr p)"
  by (cases "text"; cases already)
    (auto simp: message_payload_def rbind_eq_Inr validator_simps final_text_def message_text_def
      not_less split: if_splits)

lemma note_payload_Inr:
  "note_payload namespace key nonce value pol already = Inr p \<longleftrightarrow>
     (\<exists>ns k n v raw. namespace = VStr ns \<and> key = VStr k \<and> nonce = VInt n \<and> value = VStr v \<and>
        NAME_RE_match ns \<and> NAME_RE_match k \<and> valid_nonce n \<and>
        final_text pol already v \<noteq> [] \<and> utf8_encode (final_text pol already v) = Inr raw \<and>
        length raw \<le> MAX_NOTE_BYTES \<and>
        utf8_encode (note_text ns k n (final_text pol already v)) = Inr p)"
  by (cases "value"; cases already)
    (auto simp: note_payload_def rbind_eq_Inr validator_simps final_text_def note_text_def
      not_less split: if_splits)

lemma dec_no_bar: "124 \<notin> set (dec n)"
  using set_dec by fastforce

lemma message_text_inject:
  assumes "message_text r n s = message_text r' n' s'"
    and "124 \<notin> set r" "124 \<notin> set r'" "0 \<le> n" "0 \<le> n'"
  shows "r = r' \<and> n = n' \<and> s = s'"
proof -
  from append_sep_inject [OF assms(1) [unfolded message_text_def] assms(2,3)]
  have r: "r = r'" and rest: "dec (nat n) @ 124 # s = dec (nat n') @ 124 # s'" by auto
  from append_sep_inject [OF rest dec_no_bar dec_no_bar] have "nat n = nat n' \<and> s = s'" by simp
  then show ?thesis using r assms(4,5) by (auto simp: eq_nat_nat_iff)
qed

lemma technocore_name_chars: "technocore_name s \<Longrightarrow> c \<in> set s \<Longrightarrow> name_char c"
  by (cases s) (auto simp: technocore_name_def name_char_def list_all_iff)

lemma NAME_RE_match_no_bar: "NAME_RE_match s \<Longrightarrow> 124 \<notin> set s"
proof -
  have name: "technocore_name t \<Longrightarrow> 124 \<notin> set t" for t
    using technocore_name_chars [of t 124] by (auto simp: name_char_def name_start_def)
  assume "NAME_RE_match s"
  then consider "technocore_name s" | "s \<noteq> []" "last s = 10" "technocore_name (butlast s)"
    by (auto simp: NAME_RE_match_def)
  then show ?thesis
  proof cases
    case 2
    then have "s = butlast s @ [10]" by (metis append_butlast_last_id)
    then have "set s = set (butlast s) \<union> {10}" by (metis set_append list.set(1) list.set(2))
    with name [OF 2(3)] show ?thesis by simp
  qed (rule name)
qed

lemma note_text_inject:
  assumes "note_text ns k n s = note_text ns' k' n' s'"
    and "124 \<notin> set ns" "124 \<notin> set ns'" "124 \<notin> set k" "124 \<notin> set k'" "0 \<le> n" "0 \<le> n'"
  shows "ns = ns' \<and> k = k' \<and> n = n' \<and> s = s'"
proof -
  from append_sep_inject [OF assms(1) [unfolded note_text_def] assms(2,3)]
  have ns: "ns = ns'" and rest: "message_text k n s = message_text k' n' s'"
    by (auto simp: message_text_def)
  from message_text_inject [OF rest assms(4-7)] show ?thesis using ns by simp
qed

section \<open>Properties\<close>

text \<open>
  C10. The bytes a message signature covers determine the room, the nonce and the
  text: two accepted messages with the same payload agree on all three (the text
  up to the sweep). A signature can therefore not be moved to another room, nonce
  or text.
\<close>

theorem message_payload_binds_every_field:
  assumes "message_payload (VStr r) (VInt n) (VStr t) pol already = Inr p"
    and "message_payload (VStr r') (VInt n') (VStr t') pol' already' = Inr p"
  shows "r = r' \<and> n = n' \<and> final_text pol already t = final_text pol' already' t'"
proof -
  from assms have enc: "utf8_encode (message_text r n (final_text pol already t)) = Inr p"
      "utf8_encode (message_text r' n' (final_text pol' already' t')) = Inr p"
    and valid: "valid_room r" "valid_room r'" "valid_nonce n" "valid_nonce n'"
    by (auto simp: message_payload_Inr)
  from utf8.enc_inject [OF enc] valid show ?thesis
    by (intro message_text_inject) (auto simp: valid_room_def valid_nonce_def)
qed

text \<open>Rules and a rewrite set to evaluate the builders on concrete input.\<close>

lemma message_payloadI:
  assumes "valid_room r" and "valid_nonce n" and "final_text pol already t = s" and "s \<noteq> []"
    and "length s \<le> MAX_MESSAGE_CHARS" and "utf8_encode (message_text r n s) = Inr p"
  shows "message_payload (VStr r) (VInt n) (VStr t) pol already = Inr p"
  using assms by (simp add: message_payload_Inr)

lemma note_payloadI:
  assumes "NAME_RE_match ns" and "NAME_RE_match k" and "valid_nonce n"
    and "final_text pol already v = s" and "s \<noteq> []" and "utf8_encode s = Inr raw"
    and "length raw \<le> MAX_NOTE_BYTES" and "utf8_encode (note_text ns k n s) = Inr p"
  shows "note_payload (VStr ns) (VStr k) (VInt n) (VStr v) pol already = Inr p"
  using assms by (simp add: note_payload_Inr)

lemma eval_sweep_text:
  assumes "list_all (\<lambda>c. \<not> in_sweep_categories c) s" and "stripped s"
  shows "sweep_text DEFAULT_SWEEP s = s"
  using assms by (simp add: sweep_fixpoint_iff clean_text_def)

lemmas eval_canonical =
  final_text_def message_text_def note_text_def valid_room_def valid_nonce_def clean_text_def
  stripped_def eval_sweep_text in_sweep_categories_def category_def cf_ranges_def isspace_def
  utf8_encode_def utf8_char_def dec.simps canonical_limits NAME_RE_match_def technocore_name_def
  name_char_def name_start_def

lemma message_example:
  "message_payload (VStr (str_lit ''lobby'')) (VInt 1) (VStr (str_lit ''hi'')) DEFAULT_SWEEP False =
     Inr (map word_of_nat (str_lit ''lobby|1|hi''))"
  by (rule message_payloadI [where s = "str_lit ''hi''"]) (simp_all add: eval_canonical)

theorem message_payload_binds_every_field_witness:
  "message_payload (VStr (str_lit ''lobby'')) (VInt 1) (VStr (str_lit ''hi'')) DEFAULT_SWEEP False =
     Inr (map word_of_nat (str_lit ''lobby|1|hi'')) \<and>
   final_text DEFAULT_SWEEP False (str_lit ''hi'') = final_text DEFAULT_SWEEP False (str_lit ''hi'')"
  using message_payload_binds_every_field [OF message_example message_example] message_example by simp

text \<open>
  A note signature binds its namespace, key, nonce and value in the same way,
  although the namespace and key may each carry the trailing newline that
  \<open>NAME_RE\<close> lets through.
\<close>

theorem note_payload_binds_every_field:
  assumes "note_payload (VStr ns) (VStr k) (VInt n) (VStr v) pol already = Inr p"
    and "note_payload (VStr ns') (VStr k') (VInt n') (VStr v') pol' already' = Inr p"
  shows "ns = ns' \<and> k = k' \<and> n = n' \<and> final_text pol already v = final_text pol' already' v'"
proof -
  from assms have enc: "utf8_encode (note_text ns k n (final_text pol already v)) = Inr p"
      "utf8_encode (note_text ns' k' n' (final_text pol' already' v')) = Inr p"
    and names: "NAME_RE_match ns" "NAME_RE_match ns'" "NAME_RE_match k" "NAME_RE_match k'"
    and nonces: "valid_nonce n" "valid_nonce n'"
    by (auto simp: note_payload_Inr)
  from utf8.enc_inject [OF enc] names nonces show ?thesis
    by (intro note_text_inject) (auto simp: NAME_RE_match_no_bar valid_nonce_def)
qed

lemma note_example:
  "note_payload (VStr (str_lit ''room'')) (VStr (str_lit ''k'')) (VInt 7) (VStr (str_lit ''v''))
     DEFAULT_SWEEP False = Inr (map word_of_nat (str_lit ''room|k|7|v''))"
  by (rule note_payloadI [where s = "str_lit ''v''" and raw = "map word_of_nat (str_lit ''v'')"])
    (simp_all add: eval_canonical)

theorem note_payload_binds_every_field_witness:
  "note_payload (VStr (str_lit ''room'')) (VStr (str_lit ''k'')) (VInt 7) (VStr (str_lit ''v''))
     DEFAULT_SWEEP False = Inr (map word_of_nat (str_lit ''room|k|7|v'')) \<and>
   final_text DEFAULT_SWEEP False (str_lit ''v'') = final_text DEFAULT_SWEEP False (str_lit ''v'')"
  using note_payload_binds_every_field [OF note_example note_example] note_example by simp

lemma message_text_encodes:
  assumes "is_pystr r" and "is_pystr t" and "valid_room r"
  shows "is_ok (utf8_encode (message_text r n (sweep_text DEFAULT_SWEEP t)))"
  unfolding utf8_encode_ok_iff
proof
  fix c assume "c \<in> set (message_text r n (sweep_text DEFAULT_SWEEP t))"
  then consider "c \<in> set r" | "c = 124" | "c \<in> set (dec (nat n))"
    | "c \<in> set (sweep_text DEFAULT_SWEEP t)"
    by (auto simp: message_text_def)
  then show "is_scalar c"
  proof cases
    case 1
    from assms(3) have "sweep_text DEFAULT_SWEEP r = r"
      by (simp add: sweep_fixpoint_iff valid_room_def)
    with sweep_text_scalar [of r DEFAULT_SWEEP] 1 assms(1) show ?thesis
      by (simp add: is_pystr_def)
  next
    case 2
    then show ?thesis by (simp add: is_scalar_def is_surrogate_def)
  next
    case 3
    then show ?thesis using set_dec [of c "nat n"] by (simp add: is_scalar_def is_surrogate_def)
  next
    case 4
    with sweep_text_scalar [of t DEFAULT_SWEEP] assms(2) show ?thesis by (simp add: is_pystr_def)
  qed
qed

text \<open>
  C36. The builder accepts exactly the messages the protocol allows and returns
  exactly \<open>room|nonce|text\<close> in UTF-8: the room is valid, the nonce has at most 19
  digits, and the swept text has between 1 and 4096 characters. For such input no
  encoding error is possible, whatever code points the text holds.
\<close>

theorem message_payload_functional:
  assumes "is_pystr r" and "is_pystr t"
  shows "(is_ok (message_payload (VStr r) (VInt n) (VStr t) DEFAULT_SWEEP False) \<longleftrightarrow>
        valid_room r \<and> valid_nonce n \<and> sweep_text DEFAULT_SWEEP t \<noteq> [] \<and>
        length (sweep_text DEFAULT_SWEEP t) \<le> MAX_MESSAGE_CHARS) \<and>
      (is_ok (message_payload (VStr r) (VInt n) (VStr t) DEFAULT_SWEEP False) \<longrightarrow>
        message_payload (VStr r) (VInt n) (VStr t) DEFAULT_SWEEP False =
          utf8_encode (message_text r n (sweep_text DEFAULT_SWEEP t)))"
  using message_text_encodes [OF assms, of n]
  by (auto simp: is_ok_iff message_payload_Inr final_text_def)

theorem message_payload_functional_witness:
  "message_payload (VStr (str_lit ''lobby'')) (VInt 1) (VStr (str_lit ''hi'')) DEFAULT_SWEEP False =
     utf8_encode (message_text (str_lit ''lobby'') 1 (sweep_text DEFAULT_SWEEP (str_lit ''hi'')))"
  using message_payload_functional [of "str_lit ''lobby''" "str_lit ''hi''" 1] message_example
  by (simp add: is_pystr_def)

text \<open>
  The form that is signed and transmitted is a fixed point of the sweep, so the
  server's own sweep of the received text changes nothing; it holds no character of
  the swept categories and no white space at either end.
\<close>

theorem sweep_is_a_fixed_point:
  "single_line_sweep (VStr t) None = Inr (sweep_text DEFAULT_SWEEP t) \<and>
   single_line_sweep (VStr (sweep_text DEFAULT_SWEEP t)) None = Inr (sweep_text DEFAULT_SWEEP t) \<and>
   clean_text (sweep_text DEFAULT_SWEEP t) \<and>
   length (sweep_text DEFAULT_SWEEP t) \<le> length t"
proof -
  have "length (strip (sweep_chars True t)) \<le> length t"
    using length_strip_le [of "sweep_chars True t"] length_sweep_chars_le [of True t] by linarith
  then have "length (sweep_text DEFAULT_SWEEP t) \<le> length t" by (simp add: sweep_text_def)
  then show ?thesis by (simp add: sweep_text_idem)
qed

lemma graphic_ascii_clean:
  assumes "33 \<le> c" and "c \<le> 126"
  shows "\<not> isspace c" and "\<not> in_sweep_categories c"
  using assms by (simp_all add: isspace_def in_sweep_categories_def category_def cf_ranges_def)

lemma clean_text_graphic: "\<forall>c \<in> set s. 33 \<le> c \<and> c \<le> 126 \<Longrightarrow> clean_text s"
  by (cases "s = []") (simp_all add: clean_text_def stripped_def list_all_iff graphic_ascii_clean)

lemma name_char_graphic: "name_char c \<Longrightarrow> 33 \<le> c \<and> c \<le> 126 \<and> c \<notin> {124, 47, 63, 35}"
  by (auto simp: name_char_def name_start_def)

lemma technocore_name_valid_room: "technocore_name s \<Longrightarrow> valid_room s"
proof -
  assume s: "technocore_name s"
  then have *: "c \<in> set s \<Longrightarrow> 33 \<le> c \<and> c \<le> 126 \<and> c \<notin> {124, 47, 63, 35}" for c
    using technocore_name_chars name_char_graphic by blast
  then have "clean_text s" by (simp add: clean_text_graphic)
  moreover have "124 \<notin> set s" "47 \<notin> set s" "63 \<notin> set s" "35 \<notin> set s" using * by auto
  ultimately show ?thesis using s by (simp add: valid_room_def technocore_name_def)
qed

lemma clean_text_dec_bar:
  assumes "clean_text s" and "s \<noteq> []"
  shows "clean_text (dec n @ 124 # s)"
proof -
  have dec: "\<forall>c \<in> set (dec n). 33 \<le> c \<and> c \<le> 126" using set_dec by fastforce
  then have "\<not> isspace (hd (dec n))" by (simp add: graphic_ascii_clean)
  with assms dec show ?thesis
    by (auto simp: clean_text_def stripped_def list_all_iff graphic_ascii_clean)
qed

lemma length_dec_nonce: "valid_nonce n \<Longrightarrow> length (dec (nat n)) \<le> 19"
  using length_dec_le [of 19 "nat n"] by (simp add: valid_nonce_def nat_less_iff)

text \<open>
  The two payload formats overlap. A room message whose text has the form
  \<open>nonce|value\<close> is, byte for byte, the payload of the note with that value under
  the key that spells the message's nonce. A capability that may only sign
  messages can thus be led to produce a signature that is valid for a note.
\<close>

theorem message_payload_is_a_note_payload:
  assumes "note_payload (VStr ns) (VStr (dec (nat n))) (VInt m) (VStr v) DEFAULT_SWEEP False = Inr p"
    and "technocore_name ns" and "valid_nonce n" and "length (sweep_text DEFAULT_SWEEP v) \<le> 4000"
  shows "message_payload (VStr ns) (VInt n) (VStr (dec (nat m) @ 124 # sweep_text DEFAULT_SWEEP v))
      DEFAULT_SWEEP False = Inr p"
proof -
  let ?v = "sweep_text DEFAULT_SWEEP v"
  let ?t = "dec (nat m) @ 124 # ?v"
  from assms(1) have m: "valid_nonce m" and v: "?v \<noteq> []"
    and enc: "utf8_encode (note_text ns (dec (nat n)) m ?v) = Inr p"
    by (auto simp: note_payload_Inr final_text_def)
  have sweep: "sweep_text DEFAULT_SWEEP ?t = ?t"
    by (simp add: sweep_fixpoint_iff clean_text_dec_bar v)
  have len: "length ?t \<le> MAX_MESSAGE_CHARS"
    using assms(4) length_dec_nonce [OF m] by (simp add: MAX_MESSAGE_CHARS_def)
  show ?thesis
    using enc technocore_name_valid_room [OF assms(2)]
    by (intro message_payloadI [OF _ assms(3) _ _ len])
      (simp_all add: final_text_def sweep note_text_def message_text_def)
qed

lemma overlap_example:
  "note_payload (VStr (str_lit ''room'')) (VStr (dec (nat 5))) (VInt 7) (VStr (str_lit ''v''))
     DEFAULT_SWEEP False = Inr (map word_of_nat (str_lit ''room|5|7|v''))"
  by (rule note_payloadI [where s = "str_lit ''v''" and raw = "map word_of_nat (str_lit ''v'')"])
    (simp_all add: eval_canonical)

theorem message_payload_is_a_note_payload_witness:
  "message_payload (VStr (str_lit ''room'')) (VInt 5) (VStr (str_lit ''7|v'')) DEFAULT_SWEEP False =
     Inr (map word_of_nat (str_lit ''room|5|7|v''))"
proof -
  have "technocore_name (str_lit ''room'')" and "valid_nonce 5"
    and "length (sweep_text DEFAULT_SWEEP (str_lit ''v'')) \<le> 4000"
    by (simp_all add: eval_canonical)
  from message_payload_is_a_note_payload [OF overlap_example this] show ?thesis
    by (simp add: eval_canonical)
qed

text \<open>
  \<open>NAME_RE\<close> is stated to be the server's charset, yet \<open>validate_name\<close>
  accepts every valid name followed by one newline, because \<open>$\<close> also matches
  before a final newline. It accepts nothing else beyond the charset.
\<close>

theorem validate_name_accepts_trailing_newline:
  "is_ok (validate_name (VStr s)) \<longleftrightarrow>
     technocore_name s \<or> (\<exists>name. technocore_name name \<and> s = name @ [10])"
proof -
  have "s \<noteq> [] \<and> last s = 10 \<and> technocore_name (butlast s) \<longleftrightarrow>
      (\<exists>name. technocore_name name \<and> s = name @ [10])"
    by (metis append_butlast_last_id butlast_snoc last_snoc snoc_eq_iff_butlast)
  then show ?thesis by (auto simp: is_ok_iff validate_name_Inr NAME_RE_match_def)
qed

text \<open>
  A percent-encoded path segment decodes to the original text, and holds only
  unreserved ASCII characters and percent escapes: no character of it can change
  the structure of the request path.
\<close>

theorem path_segment_round_trip:
  assumes "encode_path_segment v = Inr q"
  shows "\<exists>s. v = VStr s \<and> decode_path_segment (VStr q) = Inr s \<and>
      (\<forall>c \<in> set q. is_ascii c \<and> \<not> url_structural c)"
proof -
  from assms obtain s where "v = VStr s" and q: "quote s = Inr q"
    by (auto simp: encode_path_segment_def rbind_eq_Inr)
  then show ?thesis
    using unquote_quote [OF q] quote_ascii [OF q] quote_not_structural [OF q]
    by (auto simp: decode_path_segment_def rbind_eq_Inr)
qed

theorem path_segment_round_trip_witness:
  "encode_path_segment (VStr (str_lit ''a/b'')) = Inr (str_lit ''a%2Fb'') \<and>
   decode_path_segment (VStr (str_lit ''a%2Fb'')) = Inr (str_lit ''a/b'')"
proof -
  have e: "encode_path_segment (VStr (str_lit ''a/b'')) = Inr (str_lit ''a%2Fb'')"
    by (simp add: encode_path_segment_def as_str_def quote_def utf8_encode_def utf8_char_def
        quote_byte_def always_safe_def hexdigit_upper_def reject_untrusted_def)
  from path_segment_round_trip [OF e] e show ?thesis by auto
qed

end
