(* ===== verification/Positional.thy ===== *)
theory Positional
  imports Prelude
begin

text \<open>
  Positional numerals in any base, most significant digit first: the arithmetic
  behind \<open>int.from_bytes\<close>, \<open>int.to_bytes\<close> and base58.
\<close>

definition be_value :: "nat \<Rightarrow> nat list \<Rightarrow> nat" where
  "be_value b ds = foldl (\<lambda>a d. a * b + d) 0 ds"

function be_digits :: "nat \<Rightarrow> nat \<Rightarrow> nat list" where
  "be_digits b n = (if n = 0 \<or> b < 2 then [] else be_digits b (n div b) @ [n mod b])"
  by pat_completeness auto
termination
  by (relation "measure snd") (auto simp: div_less_dividend)

declare be_digits.simps [simp del]

lemma be_digits_0 [simp]: "be_digits b 0 = []"
  by (simp add: be_digits.simps)

lemma be_value_Nil [simp]: "be_value b [] = 0"
  by (simp add: be_value_def)

lemma be_value_snoc [simp]: "be_value b (ds @ [d]) = be_value b ds * b + d"
  by (simp add: be_value_def)

lemma foldl_be_value: "foldl (\<lambda>a d. a * b + d) a ds = a * b ^ length ds + be_value b ds"
  by (induction ds rule: rev_induct) (simp_all add: be_value_def algebra_simps)

lemma be_value_Cons: "be_value b (d # ds) = d * b ^ length ds + be_value b ds"
  using foldl_be_value [of b d ds] by (simp add: be_value_def)

lemma be_value_zeros: "be_value b (replicate k 0 @ ds) = be_value b ds"
  by (induction k) (simp_all add: be_value_Cons)

lemma be_value_digits: "2 \<le> b \<Longrightarrow> be_value b (be_digits b n) = n"
proof (induction b n rule: be_digits.induct)
  case (1 b n)
  then show ?case
    by (cases "n = 0") (simp_all add: be_digits.simps [of b n])
qed

lemma be_digits_lt: "d \<in> set (be_digits b n) \<Longrightarrow> d < b"
proof (induction b n rule: be_digits.induct)
  case (1 b n)
  show ?case
  proof (cases "n = 0 \<or> b < 2")
    case False
    with "1.prems" have "d \<in> set (be_digits b (n div b)) \<or> d = n mod b"
      by (auto simp: be_digits.simps [of b n])
    with "1.IH" [OF False] False show ?thesis by auto
  qed (use "1.prems" in \<open>simp add: be_digits.simps [of b n]\<close>)
qed

lemma hd_be_digits: "2 \<le> b \<Longrightarrow> n \<noteq> 0 \<Longrightarrow> be_digits b n \<noteq> [] \<and> hd (be_digits b n) \<noteq> 0"
proof (induction b n rule: be_digits.induct)
  case (1 b n)
  then have step: "be_digits b n = be_digits b (n div b) @ [n mod b]"
    by (subst be_digits.simps) simp
  show ?case
  proof (cases "n div b = 0")
    case True
    then have "n mod b = n" using "1.prems" by (simp add: div_eq_0_iff)
    with step True "1.prems" show ?thesis by simp
  next
    case False
    with 1 step show ?thesis by auto
  qed
qed

definition strip_zeros :: "nat list \<Rightarrow> nat list" where
  "strip_zeros ds = dropWhile (\<lambda>d. d = 0) ds"

definition leading_zeros :: "nat list \<Rightarrow> nat" where
  "leading_zeros ds = length (takeWhile (\<lambda>d. d = 0) ds)"

lemma zeros_split: "replicate (leading_zeros ds) 0 @ strip_zeros ds = ds"
  by (induction ds) (simp_all add: leading_zeros_def strip_zeros_def)

text \<open>The value of a digit string determines it up to leading zeros.\<close>

lemma be_digits_value:
  assumes "2 \<le> b" and "\<And>d. d \<in> set ds \<Longrightarrow> d < b"
  shows "be_digits b (be_value b ds) = strip_zeros ds"
  using assms(2)
proof (induction ds rule: rev_induct)
  case (snoc d ds)
  then have d: "d < b" and IH: "be_digits b (be_value b ds) = strip_zeros ds" by auto
  let ?n = "be_value b ds * b + d"
  have dv: "?n div b = be_value b ds" "?n mod b = d" using d by simp_all
  show ?case
  proof (cases "?n = 0")
    case True
    then have zero: "be_value b ds = 0" "d = 0" using assms(1) by auto
    with IH have "strip_zeros ds = []" by simp
    with zero show ?thesis
      by (simp add: strip_zeros_def dropWhile_eq_Nil_conv dropWhile_append)
  next
    case False
    then have "be_digits b ?n = strip_zeros ds @ [d]"
      using assms(1) dv IH by (subst be_digits.simps) simp
    moreover have "strip_zeros (ds @ [d]) = strip_zeros ds @ [d]"
    proof (cases "strip_zeros ds = []")
      case True
      with IH have "be_value b ds = 0" using be_value_digits [OF assms(1), of "be_value b ds"] by simp
      with False have "d \<noteq> 0" by auto
      with True show ?thesis by (simp add: strip_zeros_def dropWhile_append dropWhile_eq_Nil_conv)
    next
      case nonempty: False
      then obtain x where "x \<in> set ds" "x \<noteq> 0"
        by (auto simp: strip_zeros_def dropWhile_eq_Nil_conv)
      then show ?thesis by (simp add: strip_zeros_def dropWhile_append1)
    qed
    ultimately show ?thesis by simp
  qed
qed (simp add: strip_zeros_def)

lemma strip_zeros_digits: "2 \<le> b \<Longrightarrow> strip_zeros (be_digits b n) = be_digits b n"
  using hd_be_digits [of b n]
  by (cases "n = 0") (simp_all add: strip_zeros_def dropWhile_hd_stop)

lemma strip_zeros_pad: "2 \<le> b \<Longrightarrow> strip_zeros (replicate k 0 @ be_digits b n) = be_digits b n"
proof -
  assume "2 \<le> b"
  have "strip_zeros (replicate k 0 @ ds) = strip_zeros ds" for ds :: "nat list"
    by (induction k) (simp_all add: strip_zeros_def)
  then show ?thesis using strip_zeros_digits [OF \<open>2 \<le> b\<close>] by simp
qed

lemma leading_zeros_pad: "2 \<le> b \<Longrightarrow> leading_zeros (replicate k 0 @ be_digits b n) = k"
proof -
  assume "2 \<le> b"
  have "takeWhile (\<lambda>d. d = 0) (be_digits b n) = []"
    using hd_be_digits [OF \<open>2 \<le> b\<close>, of n]
    by (cases "n = 0"; cases "be_digits b n") simp_all
  then show ?thesis
    by (induction k) (simp_all add: leading_zeros_def)
qed

end
