(* ===== verification/Did.thy ===== *)
theory Did
  imports Errors Positional
begin

text \<open>
  \<open>identity/did.py\<close>: base58btc and the Ed25519 \<open>did:key\<close> form. A
  \<open>did:key\<close> is self-describing: resolving it is decoding it.
\<close>

definition ED25519_MULTICODEC :: bytes where "ED25519_MULTICODEC = [0xED, 0x01]"

definition B58_ALPHABET :: "nat list" where
  "B58_ALPHABET = str_lit ''123456789ABCDEFGHJKLMNPQRSTUVWXYZabcdefghijkmnopqrstuvwxyz''"

definition DID_PREFIX :: pystr where "DID_PREFIX = str_lit ''did:key:''"
definition MULTIBASE_BASE58BTC :: pystr where "MULTIBASE_BASE58BTC = str_lit ''z''"
definition ED25519_PUBLIC_KEY_LENGTH :: nat where "ED25519_PUBLIC_KEY_LENGTH = 32"

fun index_of :: "nat \<Rightarrow> nat list \<Rightarrow> nat option" where
  "index_of c [] = None"
| "index_of c (x # xs) = (if x = c then Some 0 else map_option Suc (index_of c xs))"

definition b58_index :: "nat \<Rightarrow> nat option" where
  "b58_index c = index_of c B58_ALPHABET"

definition int_from_bytes :: "bytes \<Rightarrow> nat" where
  "int_from_bytes data = be_value 256 (map unat data)"

text \<open>\<open>n.to_bytes((n.bit_length() + 7) // 8, "big")\<close>: no leading zero byte.\<close>

definition int_to_bytes :: "nat \<Rightarrow> bytes" where
  "int_to_bytes n = map word_of_nat (be_digits 256 n)"

text \<open>The loop appends the digits least significant first.\<close>

fun b58_loop :: "nat \<Rightarrow> nat list" where
  "b58_loop n = (if n = 0 then [] else (B58_ALPHABET ! (n mod 58)) # b58_loop (n div 58))"

declare b58_loop.simps [simp del]

definition b58encode :: "bytes \<Rightarrow> pystr" where
  "b58encode data =
     (let out = b58_loop (int_from_bytes data);
          zeros = length (takeWhile (\<lambda>b. b = 0) data)
      in rev (out @ replicate zeros (B58_ALPHABET ! 0)))"

fun b58_accum :: "nat \<Rightarrow> pystr \<Rightarrow> exn + nat" where
  "b58_accum n [] = Inr n"
| "b58_accum n (c # cs) =
     (case b58_index c of
        None \<Rightarrow> Inl (DidKeyError BadBase58Char)
      | Some i \<Rightarrow> b58_accum (n * 58 + i) cs)"

definition ascii_encode :: "pystr \<Rightarrow> exn + pystr" where
  "ascii_encode s = (if list_all (\<lambda>c. c < 128) s then Inr s else Inl UnicodeEncodeError)"

definition b58decode :: "pystr \<Rightarrow> exn + bytes" where
  "b58decode t =
     (if t = [] then Inl (DidKeyError EmptyBase58)
      else rbind (ascii_encode t) (\<lambda>cs.
           rbind (b58_accum 0 cs) (\<lambda>n.
             let leading = length (takeWhile (\<lambda>c. c = 49) t)
             in Inr (replicate leading 0 @ int_to_bytes n))))"

definition starts_with :: "'a list \<Rightarrow> 'a list \<Rightarrow> bool" where
  "starts_with p s \<longleftrightarrow> take (length p) s = p"

definition encode_did_key :: "pyval \<Rightarrow> exn + pystr" where
  "encode_did_key public_key =
     (case (case public_key of VBytes b \<Rightarrow> Some b | VByteArray b \<Rightarrow> Some b | _ \<Rightarrow> None) of
        None \<Rightarrow> Inl (DidKeyError KeyNotBytes)
      | Some key \<Rightarrow>
          if length key \<noteq> ED25519_PUBLIC_KEY_LENGTH then Inl (DidKeyError KeyWrongLength)
          else Inr (DID_PREFIX @ MULTIBASE_BASE58BTC @ b58encode (ED25519_MULTICODEC @ key)))"

definition decode_did_key :: "pyval \<Rightarrow> exn + bytes" where
  "decode_did_key v =
     (case v of
        VStr did \<Rightarrow>
          if \<not> starts_with DID_PREFIX did then Inl (DidKeyError DidPrefixMissing)
          else let body = drop (length DID_PREFIX) did in
          if \<not> starts_with MULTIBASE_BASE58BTC body then Inl (DidKeyError NotBase58Multibase)
          else rbind (b58decode (drop 1 body)) (\<lambda>decoded.
            if \<not> starts_with ED25519_MULTICODEC decoded then Inl (DidKeyError NotEd25519Codec)
            else let key = drop (length ED25519_MULTICODEC) decoded in
            if length key \<noteq> ED25519_PUBLIC_KEY_LENGTH then Inl (DidKeyError DecodedKeyWrongLength)
            else Inr key)
      | _ \<Rightarrow> Inl (DidKeyError DidNotStr))"

text \<open>Only \<open>DidKeyError\<close> is caught: any other exception reaches the caller.\<close>

definition is_valid_did_key :: "pyval \<Rightarrow> exn + bool" where
  "is_valid_did_key did =
     (case decode_did_key did of
        Inr _ \<Rightarrow> Inr True
      | Inl e \<Rightarrow> if is_DidKeyError e then Inr False else Inl e)"

text \<open>The class \<open>DidKey\<close>: constructing one validates the string.\<close>

record DidKey = did :: pystr

definition make_DidKey :: "pyval \<Rightarrow> exn + DidKey" where
  "make_DidKey v = rbind (decode_did_key v) (\<lambda>_.
     case v of VStr s \<Rightarrow> Inr \<lparr>did = s\<rparr> | _ \<Rightarrow> Inl (DidKeyError DidNotStr))"

definition DidKey_from_public_bytes :: "pyval \<Rightarrow> exn + DidKey" where
  "DidKey_from_public_bytes key = rbind (encode_did_key key) (\<lambda>s. make_DidKey (VStr s))"

definition public_key_bytes :: "DidKey \<Rightarrow> exn + bytes" where
  "public_key_bytes k = decode_did_key (VStr (did k))"

definition DidKey_short :: "DidKey \<Rightarrow> pystr" where
  "DidKey_short k =
     (let body = drop (length DID_PREFIX) (did k)
      in if length body > 12
         then take 4 body @ str_lit ''...'' @ drop (length body - 4) body
         else body)"

section \<open>Base58\<close>

lemma length_B58_ALPHABET [simp]: "length B58_ALPHABET = 58"
  by (simp add: B58_ALPHABET_def)

lemma distinct_B58_ALPHABET: "distinct B58_ALPHABET"
  by (simp add: B58_ALPHABET_def)

lemma B58_ALPHABET_ascii: "c \<in> set B58_ALPHABET \<Longrightarrow> c < 128"
  by (auto simp: B58_ALPHABET_def)

lemma B58_ALPHABET_0 [simp]: "B58_ALPHABET ! 0 = 49"
  by (simp add: B58_ALPHABET_def)

lemma index_of_nth: "distinct xs \<Longrightarrow> i < length xs \<Longrightarrow> index_of (xs ! i) xs = Some i"
proof (induction xs arbitrary: i)
  case (Cons x xs)
  then show ?case by (cases i) auto
qed simp

lemma index_of_Some: "index_of c xs = Some i \<Longrightarrow> i < length xs \<and> xs ! i = c"
  by (induction xs arbitrary: i) (auto split: if_splits)

lemma b58_index_nth [simp]: "i < 58 \<Longrightarrow> b58_index (B58_ALPHABET ! i) = Some i"
  by (simp add: b58_index_def index_of_nth distinct_B58_ALPHABET)

lemma b58_index_Some: "b58_index c = Some i \<Longrightarrow> i < 58 \<and> B58_ALPHABET ! i = c"
  using index_of_Some [of c B58_ALPHABET i] by (simp add: b58_index_def)

lemma rev_b58_loop: "rev (b58_loop n) = map (\<lambda>i. B58_ALPHABET ! i) (be_digits 58 n)"
proof (induction n rule: b58_loop.induct)
  case (1 n)
  then show ?case
    by (cases "n = 0") (simp_all add: b58_loop.simps [of n] b58_loop.simps [of 0] be_digits.simps [of 58 n])
qed

lemma b58_accum_digits:
  "(\<And>i. i \<in> set is \<Longrightarrow> i < 58) \<Longrightarrow>
   b58_accum n (map (\<lambda>i. B58_ALPHABET ! i) is) = Inr (n * 58 ^ length is + be_value 58 is)"
  by (induction "is" arbitrary: n) (simp_all add: be_value_Cons algebra_simps)

lemma b58_accum_Inr:
  "b58_accum n cs = Inr m \<Longrightarrow>
   \<exists>is. (\<forall>i \<in> set is. i < 58) \<and> cs = map (\<lambda>i. B58_ALPHABET ! i) is \<and>
        m = n * 58 ^ length is + be_value 58 is"
proof (induction cs arbitrary: n)
  case Nil
  then show ?case by simp
next
  case (Cons c cs)
  then obtain i where i: "b58_index c = Some i" and rest: "b58_accum (n * 58 + i) cs = Inr m"
    by (auto split: option.splits)
  from Cons.IH [OF rest] obtain "is" where
    "\<forall>i \<in> set is. i < 58" "cs = map (\<lambda>i. B58_ALPHABET ! i) is"
    "m = (n * 58 + i) * 58 ^ length is + be_value 58 is" by blast
  with b58_index_Some [OF i] show ?case
    by (intro exI [of _ "i # is"]) (simp add: be_value_Cons algebra_simps)
qed

lemma b58_accum_error: "b58_accum n cs = Inl e \<Longrightarrow> e = DidKeyError BadBase58Char"
  by (induction cs arbitrary: n) (auto split: option.splits)

lemma takeWhile_ones:
  assumes "\<forall>i \<in> set is. i < 58"
  shows "length (takeWhile (\<lambda>c. c = 49) (map (\<lambda>i. B58_ALPHABET ! i) is)) = leading_zeros is"
  using assms
proof (induction "is")
  case (Cons i "is")
  have "B58_ALPHABET ! i = 49 \<longleftrightarrow> i = 0"
    using nth_eq_iff_index_eq [OF distinct_B58_ALPHABET, of i 0] Cons.prems by simp
  with Cons show ?case by (simp add: leading_zeros_def)
qed (simp add: leading_zeros_def)

lemma takeWhile_zero_bytes:
  "length (takeWhile (\<lambda>b. b = 0) data) = leading_zeros (map unat (data :: bytes))"
  by (induction data) (simp_all add: leading_zeros_def unat_eq_zero)

lemma bytes_of_digits: "(\<And>d. d \<in> set ds \<Longrightarrow> d < 256) \<Longrightarrow>
    map unat (map (word_of_nat :: nat \<Rightarrow> byte) ds) = ds"
  by (rule map_unat_bytes)

lemma map_unat_inject: "map unat xs = map unat (ys :: bytes) \<longleftrightarrow> xs = ys"
  by (simp add: inj_map_eq_map inj_unsigned)

lemma b58encode_digits:
  "b58encode data = map (\<lambda>i. B58_ALPHABET ! i)
     (replicate (leading_zeros (map unat data)) 0 @ be_digits 58 (int_from_bytes data))"
  by (simp add: b58encode_def Let_def rev_b58_loop takeWhile_zero_bytes)

lemma b58decode_digits:
  assumes "is \<noteq> []" and "\<forall>i \<in> set is. i < 58"
  shows "b58decode (map (\<lambda>i. B58_ALPHABET ! i) is) =
      Inr (replicate (leading_zeros is) 0 @ int_to_bytes (be_value 58 is))"
proof -
  have "list_all (\<lambda>c. c < 128) (map (\<lambda>i. B58_ALPHABET ! i) is)"
    using assms(2) B58_ALPHABET_ascii by (auto simp: list_all_iff)
  moreover have "b58_accum 0 (map (\<lambda>i. B58_ALPHABET ! i) is) = Inr (be_value 58 is)"
    using assms(2) by (subst b58_accum_digits) auto
  ultimately show ?thesis
    using assms by (simp add: b58decode_def ascii_encode_def takeWhile_ones)
qed

lemma int_to_from_bytes:
  "replicate (leading_zeros (map unat data)) 0 @ int_to_bytes (int_from_bytes data) = data"
proof -
  let ?ds = "map unat data"
  have "map unat (replicate (leading_zeros ?ds) (0 :: byte) @ int_to_bytes (int_from_bytes data)) =
      replicate (leading_zeros ?ds) 0 @ be_digits 256 (be_value 256 ?ds)"
    using be_digits_lt by (simp add: int_to_bytes_def int_from_bytes_def map_unat_bytes del: map_map)
  also have "\<dots> = ?ds"
    by (subst be_digits_value) (auto simp: zeros_split)
  finally show ?thesis by (rule map_unat_inject [THEN iffD1])
qed

lemma b58_round_trip:
  assumes "data \<noteq> []"
  shows "b58decode (b58encode data) = Inr data"
proof -
  let ?ds = "map unat data"
  let ?is = "replicate (leading_zeros ?ds) 0 @ be_digits 58 (int_from_bytes data)"
  have lz: "leading_zeros ?is = leading_zeros ?ds" by (simp add: leading_zeros_pad)
  have val: "be_value 58 ?is = int_from_bytes data" by (simp add: be_value_zeros be_value_digits)
  have "?is \<noteq> []"
  proof
    assume empty: "?is = []"
    then have "be_value 58 ?is = 0" by simp
    with val have "int_from_bytes data = 0" by simp
    with int_to_from_bytes [of data] empty have "data = []" by (simp add: int_to_bytes_def)
    with assms show False ..
  qed
  moreover have "\<forall>i \<in> set ?is. i < 58" by (auto dest: be_digits_lt)
  ultimately have "b58decode (map (\<lambda>i. B58_ALPHABET ! i) ?is) =
      Inr (replicate (leading_zeros ?ds) 0 @ int_to_bytes (int_from_bytes data))"
    using b58decode_digits [of ?is] unfolding lz val by blast
  then show ?thesis by (simp only: b58encode_digits int_to_from_bytes)
qed

lemma b58_canonical:
  assumes "b58decode t = Inr data"
  shows "b58encode data = t"
proof -
  from assms obtain m where "t \<noteq> []" and m: "b58_accum 0 t = Inr m"
    and data: "data = replicate (length (takeWhile (\<lambda>c. c = 49) t)) 0 @ int_to_bytes m"
    by (auto simp: b58decode_def ascii_encode_def rbind_eq_Inr Let_def split: if_splits)
  from b58_accum_Inr [OF m] obtain "is" where "is": "\<forall>i \<in> set is. i < 58"
    and t: "t = map (\<lambda>i. B58_ALPHABET ! i) is" and mv: "m = be_value 58 is" by auto
  let ?k = "leading_zeros is"
  have unat_data: "map unat data = replicate ?k 0 @ be_digits 256 m"
    using be_digits_lt
    by (simp add: data t takeWhile_ones [OF "is"] int_to_bytes_def map_unat_bytes del: map_map)
  have "leading_zeros (map unat data) = ?k" and "int_from_bytes data = m"
    by (simp_all add: unat_data leading_zeros_pad int_from_bytes_def be_value_zeros be_value_digits)
  moreover have "be_digits 58 m = strip_zeros is"
    unfolding mv using "is" by (intro be_digits_value) auto
  ultimately show ?thesis
    by (simp only: b58encode_digits t zeros_split)
qed

section \<open>did:key\<close>

lemma starts_with_append [simp]: "starts_with p (p @ s)"
  by (simp add: starts_with_def)

lemma starts_withD: "starts_with p s \<Longrightarrow> s = p @ drop (length p) s"
  by (metis append_take_drop_id starts_with_def)

definition did_key_text :: "bytes \<Rightarrow> pystr" where
  "did_key_text key = DID_PREFIX @ MULTIBASE_BASE58BTC @ b58encode (ED25519_MULTICODEC @ key)"

lemma MULTIBASE_one: "length MULTIBASE_BASE58BTC = 1"
  by (simp add: MULTIBASE_BASE58BTC_def)

lemma encode_did_key_VBytes:
  "encode_did_key (VBytes key) =
     (if length key = 32 then Inr (did_key_text key) else Inl (DidKeyError KeyWrongLength))"
  by (simp add: encode_did_key_def did_key_text_def ED25519_PUBLIC_KEY_LENGTH_def)

lemma decode_did_key_text:
  "decode_did_key (VStr (DID_PREFIX @ MULTIBASE_BASE58BTC @ t)) =
     rbind (b58decode t) (\<lambda>decoded.
       if \<not> starts_with ED25519_MULTICODEC decoded then Inl (DidKeyError NotEd25519Codec)
       else if length (drop 2 decoded) \<noteq> 32 then Inl (DidKeyError DecodedKeyWrongLength)
       else Inr (drop 2 decoded))"
proof -
  have "drop 1 (MULTIBASE_BASE58BTC @ t) = t" by (simp add: MULTIBASE_BASE58BTC_def)
  moreover have "length ED25519_MULTICODEC = 2" by (simp add: ED25519_MULTICODEC_def)
  ultimately show ?thesis
    by (simp add: decode_did_key_def ED25519_PUBLIC_KEY_LENGTH_def Let_def cong: if_cong)
qed

lemma length_multicodec [simp]: "length ED25519_MULTICODEC = 2"
  by (simp add: ED25519_MULTICODEC_def)

lemma drop_multicodec [simp]: "drop 2 (ED25519_MULTICODEC @ key) = key"
  by (simp add: ED25519_MULTICODEC_def)

lemma decode_did_key_Inr:
  "decode_did_key v = Inr key \<longleftrightarrow>
     (\<exists>t. v = VStr (DID_PREFIX @ MULTIBASE_BASE58BTC @ t) \<and>
          b58decode t = Inr (ED25519_MULTICODEC @ key) \<and> length key = 32)"
    (is "?L \<longleftrightarrow> ?R")
proof
  assume ?R
  then show ?L by (auto simp: decode_did_key_text)
next
  assume L: ?L
  then obtain s where v: "v = VStr s" and p: "starts_with DID_PREFIX s"
    and z: "starts_with MULTIBASE_BASE58BTC (drop (length DID_PREFIX) s)"
    by (auto simp: decode_did_key_def Let_def split: pyval.splits if_splits)
  obtain t where s: "s = DID_PREFIX @ MULTIBASE_BASE58BTC @ t"
    using starts_withD [OF p] starts_withD [OF z] by metis
  from L [unfolded v s decode_did_key_text] obtain decoded where
    "b58decode t = Inr decoded" and m: "starts_with ED25519_MULTICODEC decoded"
    and "key = drop 2 decoded" and "length key = 32"
    by (auto simp: rbind_eq_Inr split: if_splits)
  moreover have "decoded = ED25519_MULTICODEC @ drop 2 decoded"
    using starts_withD [OF m] by simp
  ultimately show ?R using v s by auto
qed

interpretation did_key: canonical_codec
  "\<lambda>key. encode_did_key (VBytes key)" "\<lambda>s. decode_did_key (VStr s)"
proof
  fix key s
  assume "encode_did_key (VBytes key) = Inr s"
  then show "decode_did_key (VStr s) = Inr key"
    by (auto simp: encode_did_key_VBytes did_key_text_def decode_did_key_Inr ED25519_MULTICODEC_def
        b58_round_trip split: if_splits)
next
  fix s key
  assume "decode_did_key (VStr s) = Inr key"
  then show "encode_did_key (VBytes key) = Inr s"
    by (auto simp: encode_did_key_VBytes did_key_text_def decode_did_key_Inr b58_canonical)
qed

lemma decode_did_key_length: "decode_did_key v = Inr key \<Longrightarrow> length key = 32"
  by (auto simp: decode_did_key_Inr)

lemma make_DidKey_Inr:
  "make_DidKey v = Inr k \<longleftrightarrow> v = VStr (did k) \<and> is_ok (decode_did_key v)"
  by (cases k) (auto simp: make_DidKey_def rbind_eq_Inr is_ok_iff decode_did_key_Inr)

text \<open>
  C27. Every 32-byte Ed25519 public key has a \<open>did:key\<close> string, and decoding the
  string gives back exactly that key.
\<close>

theorem did_key_round_trip:
  assumes "length key = 32"
  shows "\<exists>s. encode_did_key (VBytes key) = Inr s \<and> decode_did_key (VStr s) = Inr key \<and>
      is_valid_did_key (VStr s) = Inr True"
proof -
  have e: "encode_did_key (VBytes key) = Inr (did_key_text key)"
    using assms by (simp add: encode_did_key_VBytes)
  from did_key.dec_enc [OF e] show ?thesis
    by (auto simp: e is_valid_did_key_def)
qed

theorem did_key_round_trip_witness:
  "length (replicate 32 (7 :: byte)) = 32 \<and>
   (\<exists>s. encode_did_key (VBytes (replicate 32 7)) = Inr s \<and>
        decode_did_key (VStr s) = Inr (replicate 32 7))"
  using did_key_round_trip [of "replicate 32 7"] by auto

text \<open>
  The encoding is canonical: a string that decodes to a key is the very string
  the encoder gives for that key, so two different identifiers never name the same
  key. Comparing raw key bytes and comparing strings are the same test.
\<close>

theorem did_key_canonical:
  assumes "decode_did_key (VStr s) = Inr key"
  shows "encode_did_key (VBytes key) = Inr s \<and> length key = 32 \<and>
      (decode_did_key (VStr s') = Inr key \<longleftrightarrow> s' = s)"
  using assms did_key.enc_dec [OF assms] did_key.dec_inject [OF _ assms, of s']
    decode_did_key_length [OF assms] by auto

lemma published_vector:
  "decode_did_key (VStr (did_key_text (replicate 32 7))) = Inr (replicate 32 7)"
  by (rule did_key.dec_enc) (simp add: encode_did_key_VBytes)

theorem did_key_canonical_witness:
  "encode_did_key (VBytes (replicate 32 7)) = Inr (did_key_text (replicate 32 7))"
  using did_key_canonical [OF published_vector] by simp

lemma decode_did_key_errors:
  "decode_did_key (VStr s) = Inl e \<Longrightarrow>
     is_DidKeyError e \<or> e = UnicodeEncodeError \<and>
       (\<exists>t. s = DID_PREFIX @ MULTIBASE_BASE58BTC @ t \<and> t \<noteq> [] \<and> \<not> list_all (\<lambda>c. c < 128) t)"
proof -
  assume L: "decode_did_key (VStr s) = Inl e"
  show ?thesis
  proof (cases "starts_with DID_PREFIX s \<and>
      starts_with MULTIBASE_BASE58BTC (drop (length DID_PREFIX) s)")
    case True
    then obtain t where s: "s = DID_PREFIX @ MULTIBASE_BASE58BTC @ t"
      using starts_withD by metis
    show ?thesis
    proof (cases "b58decode t")
      case (Inr d)
      with L show ?thesis by (auto simp: s decode_did_key_text split: if_splits)
    next
      case (Inl e')
      with L have "e' = e" by (simp add: s decode_did_key_text)
      with Inl show ?thesis
        by (auto simp: s b58decode_def ascii_encode_def rbind_eq_Inl split: if_splits
            dest: b58_accum_error)
    qed
  next
    case False
    with L show ?thesis by (auto simp: decode_did_key_def Let_def split: if_splits)
  qed
qed

text \<open>
  What decoding can raise. For a string, the only exception besides
  \<open>DidKeyError\<close> is \<open>UnicodeEncodeError\<close>, and it occurs exactly when a
  non-ASCII character follows the \<open>did:key:z\<close> prefix; then
  \<open>is_valid_did_key\<close> raises instead of answering \<open>False\<close>.
\<close>

theorem is_valid_did_key_raises_iff:
  "is_valid_did_key (VStr s) = Inl e \<longleftrightarrow>
     e = UnicodeEncodeError \<and>
     (\<exists>t. s = DID_PREFIX @ MULTIBASE_BASE58BTC @ t \<and> t \<noteq> [] \<and> \<not> list_all (\<lambda>c. c < 128) t)"
    (is "?L \<longleftrightarrow> ?R")
proof
  assume ?L
  then have "decode_did_key (VStr s) = Inl e \<and> \<not> is_DidKeyError e"
    by (auto simp: is_valid_did_key_def split: sum.splits if_splits)
  then show ?R using decode_did_key_errors by blast
next
  assume ?R
  then show ?L
    by (auto simp: is_valid_did_key_def decode_did_key_text b58decode_def ascii_encode_def)
qed

end
