(* ===== verification/Signature.thy ===== *)
theory Signature
  imports Did
begin

text \<open>
  The signature encoding of \<open>identity/signer.py\<close> over the standard library's
  \<open>base64\<close>. \<open>a2b_base64\<close> follows the non-strict loop of CPython's
  \<open>binascii\<close>: characters outside the alphabet are skipped and decoding stops at
  a completed pad sequence.
\<close>

definition SIGNATURE_BYTES :: nat where "SIGNATURE_BYTES = 64"
definition SIGNATURE_CHARS :: nat where "SIGNATURE_CHARS = 86"

definition B64_ALPHABET :: "nat list" where
  "B64_ALPHABET =
     str_lit ''ABCDEFGHIJKLMNOPQRSTUVWXYZabcdefghijklmnopqrstuvwxyz0123456789+/''"

definition PAD :: nat where "PAD = 61"

definition b64_char :: "nat \<Rightarrow> nat" where
  "b64_char v = B64_ALPHABET ! v"

definition b64_index :: "nat \<Rightarrow> nat option" where
  "b64_index c = index_of c B64_ALPHABET"

fun b2a_base64 :: "nat list \<Rightarrow> pystr" where
  "b2a_base64 [] = []"
| "b2a_base64 [a] = [b64_char (a div 4), b64_char (a mod 4 * 16), PAD, PAD]"
| "b2a_base64 [a, b] =
     [b64_char (a div 4), b64_char (a mod 4 * 16 + b div 16), b64_char (b mod 16 * 4), PAD]"
| "b2a_base64 (a # b # c # r) =
     b64_char (a div 4) # b64_char (a mod 4 * 16 + b div 16)
     # b64_char (b mod 16 * 4 + c div 64) # b64_char (c mod 64) # b2a_base64 r"

definition to_urlsafe :: "nat \<Rightarrow> nat" where
  "to_urlsafe c = (if c = 43 then 45 else if c = 47 then 95 else c)"

definition from_urlsafe :: "nat \<Rightarrow> nat" where
  "from_urlsafe c = (if c = 45 then 43 else if c = 95 then 47 else c)"

definition urlsafe_b64encode :: "bytes \<Rightarrow> pystr" where
  "urlsafe_b64encode raw = map to_urlsafe (b2a_base64 (map unat raw))"

definition rstrip_pad :: "pystr \<Rightarrow> pystr" where
  "rstrip_pad s = rev (dropWhile (\<lambda>c. c = PAD) (rev s))"

text \<open>
  Arguments: the input, the position in the quad, the bits left over, the pads seen
  and the bytes produced so far.
\<close>

fun a2b_base64 :: "nat list \<Rightarrow> nat \<Rightarrow> nat \<Rightarrow> nat \<Rightarrow> nat list \<Rightarrow> exn + nat list" where
  "a2b_base64 [] q left pads out = (if q = 0 then Inr out else Inl ValueError)"
| "a2b_base64 (c # cs) q left pads out =
     (if c = PAD then
        (if 2 \<le> q then
           (if 4 \<le> q + (pads + 1) then Inr out else a2b_base64 cs q left (pads + 1) out)
         else a2b_base64 cs q left pads out)
      else case b64_index c of
        None \<Rightarrow> a2b_base64 cs q left pads out
      | Some v \<Rightarrow>
          if q = 0 then a2b_base64 cs 1 v 0 out
          else if q = 1 then a2b_base64 cs 2 (v mod 16) 0 (out @ [left * 4 + v div 16])
          else if q = 2 then a2b_base64 cs 3 (v mod 4) 0 (out @ [left * 16 + v div 4])
          else a2b_base64 cs 0 0 0 (out @ [left * 64 + v]))"

definition urlsafe_b64decode :: "pystr \<Rightarrow> exn + bytes" where
  "urlsafe_b64decode s =
     (if list_all (\<lambda>c. c < 128) s
      then rbind (a2b_base64 (map from_urlsafe s) 0 0 0 []) (\<lambda>ns. Inr (map word_of_nat ns))
      else Inl ValueError)"

definition encode_signature :: "pyval \<Rightarrow> exn + pystr" where
  "encode_signature v =
     (case v of
        VBytes raw \<Rightarrow>
          if length raw \<noteq> SIGNATURE_BYTES then Inl (SignatureError SigNotRaw64)
          else let t = rstrip_pad (urlsafe_b64encode raw) in
            if length t \<noteq> SIGNATURE_CHARS then Inl (SignatureError SigEncodedLength) else Inr t
      | _ \<Rightarrow> Inl (SignatureError SigNotRaw64))"

definition decode_signature :: "pyval \<Rightarrow> exn + bytes" where
  "decode_signature v =
     (case v of
        VStr t \<Rightarrow>
          if length t \<noteq> SIGNATURE_CHARS then Inl (SignatureError SigLength)
          else if PAD \<in> set t then Inl (SignatureError SigPadded)
          else (case urlsafe_b64decode (t @ [PAD, PAD]) of
              Inl _ \<Rightarrow> Inl (SignatureError SigBadBase64)
            | Inr raw \<Rightarrow>
                if length raw \<noteq> SIGNATURE_BYTES then Inl (SignatureError SigDecodedLength)
                else Inr raw)
      | _ \<Rightarrow> Inl (SignatureError SigNotStr))"

section \<open>Base64\<close>

lemma length_B64_ALPHABET [simp]: "length B64_ALPHABET = 64"
  by (simp add: B64_ALPHABET_def)

lemma distinct_B64_ALPHABET: "distinct B64_ALPHABET"
  by (simp add: B64_ALPHABET_def)

lemma b64_index_char [simp]: "v < 64 \<Longrightarrow> b64_index (b64_char v) = Some v"
  by (simp add: b64_index_def b64_char_def index_of_nth distinct_B64_ALPHABET)

lemma b64_char_in [simp]: "v < 64 \<Longrightarrow> b64_char v \<in> set B64_ALPHABET"
  by (simp add: b64_char_def)

lemma b64_index_None_iff: "b64_index c = None \<longleftrightarrow> c \<notin> set B64_ALPHABET"
proof -
  have "index_of c xs = None \<longleftrightarrow> c \<notin> set xs" for xs
    by (induction xs) auto
  then show ?thesis by (simp add: b64_index_def)
qed

lemma b64_index_lt: "b64_index c = Some v \<Longrightarrow> v < 64"
  using index_of_Some [of c B64_ALPHABET v] by (simp add: b64_index_def)

lemma alphabet_not_pad: "c \<in> set B64_ALPHABET \<Longrightarrow> c \<noteq> PAD \<and> c < 128 \<and> c \<noteq> 45 \<and> c \<noteq> 95"
  by (auto simp: B64_ALPHABET_def PAD_def)

lemma from_to_urlsafe: "c \<in> set B64_ALPHABET \<or> c = PAD \<Longrightarrow> from_urlsafe (to_urlsafe c) = c"
  using alphabet_not_pad [of c] by (auto simp: from_urlsafe_def to_urlsafe_def PAD_def)

lemma b64_char_not_pad [simp]: "v < 64 \<Longrightarrow> b64_char v \<noteq> PAD"
  using alphabet_not_pad [OF b64_char_in [of v]] by simp

text \<open>The four sextets of three bytes, and back.\<close>

definition sextets :: "nat \<Rightarrow> nat \<Rightarrow> nat \<Rightarrow> nat list" where
  "sextets a b c =
     [a div 4, a mod 4 * 16 + b div 16, b mod 16 * 4 + c div 64, c mod 64]"

lemma sextets_lt:
  assumes "a < 256" "b < 256" "c < 256" and "s \<in> set (sextets a b c)"
  shows "s < 64"
proof -
  have "a mod 4 < 4" "b mod 16 < 16" "c mod 64 < 64" by simp_all
  moreover have "b div 16 < 16" "c div 64 < 4" "a div 4 < 64"
    using assms by (simp_all add: div_less_iff_less_mult)
  moreover from assms(4) have "s = a div 4 \<or> s = a mod 4 * 16 + b div 16
      \<or> s = b mod 16 * 4 + c div 64 \<or> s = c mod 64"
    by (simp add: sextets_def)
  ultimately show ?thesis by linarith
qed

lemma sextets_value:
  assumes "a < 256" "b < 256" "c < 256" and "sextets a b c = [s1, s2, s3, s4]"
  shows "s1 * 4 + s2 div 16 = a" "s2 mod 16 * 16 + s3 div 4 = b" "s3 mod 4 * 64 + s4 = c"
proof -
  from assms(4) have s: "s1 = a div 4" "s2 = a mod 4 * 16 + b div 16"
      "s3 = b mod 16 * 4 + c div 64" "s4 = c mod 64"
    by (simp_all add: sextets_def)
  have bd: "b div 16 < 16" "c div 64 < 4"
    using assms by (simp_all add: div_less_iff_less_mult)
  then have q: "s2 div 16 = a mod 4" "s2 mod 16 = b div 16" "s3 div 4 = b mod 16" "s3 mod 4 = c div 64"
    by (simp_all add: s)
  show "s1 * 4 + s2 div 16 = a" unfolding q unfolding s by simp
  show "s2 mod 16 * 16 + s3 div 4 = b" unfolding q by simp
  show "s3 mod 4 * 64 + s4 = c" unfolding q unfolding s by simp
qed

lemma b2a_group: "b2a_base64 (a # b # c # r) = map b64_char (sextets a b c) @ b2a_base64 r"
  by (simp add: sextets_def)

lemma b2a_one: "b2a_base64 [a] = map b64_char [a div 4, a mod 4 * 16] @ [PAD, PAD]"
  by simp

lemma a2b_quad:
  assumes "s1 < 64" "s2 < 64" "s3 < 64" "s4 < 64"
  shows "a2b_base64 (map b64_char [s1, s2, s3, s4] @ cs) 0 l p out =
     a2b_base64 cs 0 0 0 (out @ [s1 * 4 + s2 div 16, s2 mod 16 * 16 + s3 div 4, s3 mod 4 * 64 + s4])"
  using assms by simp

lemma a2b_group:
  assumes "a < 256" "b < 256" "c < 256"
  shows "a2b_base64 (map b64_char (sextets a b c) @ cs) 0 l p out =
     a2b_base64 cs 0 0 0 (out @ [a, b, c])"
proof -
  obtain s1 s2 s3 s4 where s: "sextets a b c = [s1, s2, s3, s4]"
    by (simp add: sextets_def)
  then have "s1 < 64" "s2 < 64" "s3 < 64" "s4 < 64"
    using sextets_lt [OF assms] by simp_all
  from a2b_quad [OF this] show ?thesis
    unfolding s sextets_value [OF assms s] .
qed

lemma a2b_last:
  assumes "a < 256"
  shows "a2b_base64 (map b64_char [a div 4, a mod 4 * 16] @ [PAD, PAD]) 0 l p out = Inr (out @ [a])"
proof -
  define s1 s2 where s: "s1 = a div 4" "s2 = a mod 4 * 16"
  have "s1 < 64" "s2 < 64" "s1 * 4 + s2 div 16 = a"
    using assms sextets_lt [of a 0 0] by (simp_all add: s sextets_def div_less_iff_less_mult)
  then show ?thesis
    unfolding s [symmetric] by simp
qed

text \<open>A byte string of length \<open>3 k + 1\<close>: every full group, then two characters and the pads.\<close>

lemma a2b_b2a:
  assumes "length ns = 3 * k + 1" and "\<And>n. n \<in> set ns \<Longrightarrow> n < 256"
  shows "a2b_base64 (b2a_base64 ns) 0 l p out = Inr (out @ ns)"
  using assms
proof (induction k arbitrary: ns l p out)
  case 0
  then obtain a where ns: "ns = [a]" by (cases ns) auto
  with 0 have "a < 256" by simp
  then show ?case unfolding ns b2a_one by (rule a2b_last)
next
  case (Suc k)
  then obtain a b c r where ns: "ns = a # b # c # r"
    by (cases ns rule: b2a_base64.cases) auto
  with Suc.prems have lt: "a < 256" "b < 256" "c < 256" and r: "length r = 3 * k + 1"
    and "\<And>n. n \<in> set r \<Longrightarrow> n < 256" by auto
  from Suc.IH [OF r this(5)] show ?case
    unfolding ns b2a_group a2b_group [OF lt] by simp
qed

text \<open>The characters before the pads.\<close>

lemma b2a_shape:
  assumes "length ns = 3 * k + 1" and "\<And>n. n \<in> set ns \<Longrightarrow> n < 256"
  shows "\<exists>s. b2a_base64 ns = s @ [PAD, PAD] \<and> length s = 4 * k + 2 \<and> set s \<subseteq> set B64_ALPHABET"
  using assms
proof (induction k arbitrary: ns)
  case 0
  then obtain a where ns: "ns = [a]" by (cases ns) auto
  with 0 have "a div 4 < 64" "a mod 4 * 16 < 64"
    using sextets_lt [of a 0 0] by (simp_all add: sextets_def)
  then show ?case
    by (intro exI [of _ "map b64_char [a div 4, a mod 4 * 16]"]) (simp add: ns)
next
  case (Suc k)
  then obtain a b c r where ns: "ns = a # b # c # r"
    by (cases ns rule: b2a_base64.cases) auto
  with Suc.prems have lt: "a < 256" "b < 256" "c < 256" and r: "length r = 3 * k + 1" by auto
  from Suc.IH [OF r] Suc.prems(2) ns obtain s where
    s: "b2a_base64 r = s @ [PAD, PAD]" "length s = 4 * k + 2" "set s \<subseteq> set B64_ALPHABET" by auto
  have "set (map b64_char (sextets a b c)) \<subseteq> set B64_ALPHABET"
    using sextets_lt [OF lt] by auto
  moreover have "length (sextets a b c) = 4" by (simp add: sextets_def)
  ultimately show ?case
    using s by (intro exI [of _ "map b64_char (sextets a b c) @ s"]) (simp add: ns b2a_group
        del: b2a_base64.simps)
qed

text \<open>
  How many bytes the decoder can produce: each accepted character adds at most
  three quarters of a byte.
\<close>

definition quad_credit :: "nat \<Rightarrow> nat" where
  "quad_credit q = (if q = 0 then 0 else 4 - q)"

definition accepted :: "nat list \<Rightarrow> nat" where
  "accepted cs = length (filter (\<lambda>c. c \<in> set B64_ALPHABET) cs)"

lemma a2b_length:
  "q \<le> 3 \<Longrightarrow> a2b_base64 cs q left pads out = Inr r \<Longrightarrow>
     4 * length r \<le> 4 * length out + quad_credit q + 3 * accepted cs"
proof (induction cs q left pads out rule: a2b_base64.induct)
  case (1 q left pads out)
  then show ?case by (simp split: if_splits)
next
  case (2 c cs q left pads out)
  show ?case
  proof (cases "c = PAD")
    case True
    then have "accepted (c # cs) = accepted cs"
      using alphabet_not_pad [of c] by (auto simp: accepted_def)
    with 2 True show ?thesis by (auto split: if_splits)
  next
    case c: False
    show ?thesis
    proof (cases "b64_index c")
      case None
      then have "accepted (c # cs) = accepted cs" by (simp add: accepted_def b64_index_None_iff)
      with 2 c None show ?thesis by simp
    next
      case (Some v)
      then have acc: "accepted (c # cs) = Suc (accepted cs)"
        using b64_index_None_iff [of c] by (simp add: accepted_def)
      from "2.prems"(1) consider "q = 0" | "q = 1" | "q = 2" | "q = 3" by linarith
      then show ?thesis
        using 2 c Some by cases (simp_all add: acc quad_credit_def)
    qed
  qed
qed

section \<open>The signature encoding\<close>

lemma encode_signature_shape:
  fixes raw :: bytes
  assumes "length raw = 64"
  obtains s where "b2a_base64 (map unat raw) = s @ [PAD, PAD]" and "length s = 86"
    and "set s \<subseteq> set B64_ALPHABET" and "encode_signature (VBytes raw) = Inr (map to_urlsafe s)"
proof -
  have "length (map unat raw) = 3 * 21 + 1" using assms by simp
  moreover have "\<And>n. n \<in> set (map unat raw) \<Longrightarrow> n < 256" by auto
  ultimately obtain s where s: "b2a_base64 (map unat raw) = s @ [PAD, PAD]" "length s = 4 * 21 + 2"
      "set s \<subseteq> set B64_ALPHABET"
    using b2a_shape by blast
  have "\<forall>c \<in> set s. to_urlsafe c \<noteq> PAD"
    using s(3) alphabet_not_pad by (auto simp: to_urlsafe_def PAD_def)
  then have "dropWhile (\<lambda>c. c = PAD) (rev (map to_urlsafe s)) = rev (map to_urlsafe s)"
    using s(2) by (intro dropWhile_hd_stop) (auto simp: hd_rev last_map)
  moreover have "to_urlsafe PAD = PAD" by (simp add: to_urlsafe_def PAD_def)
  ultimately have "rstrip_pad (urlsafe_b64encode raw) = map to_urlsafe s"
    by (simp add: rstrip_pad_def urlsafe_b64encode_def s(1) rev_map)
  with s assms show ?thesis
    by (intro that [of s]) (simp_all add: encode_signature_def SIGNATURE_BYTES_def SIGNATURE_CHARS_def)
qed

lemma encode_signature_Inr_length:
  "encode_signature v = Inr t \<Longrightarrow> \<exists>raw. v = VBytes raw \<and> length raw = 64"
  by (cases v) (auto simp: encode_signature_def SIGNATURE_BYTES_def split: if_splits)

interpretation signature_text: codec
  "\<lambda>raw. encode_signature (VBytes raw)" "\<lambda>t. decode_signature (VStr t)"
proof
  fix raw t
  assume enc: "encode_signature (VBytes raw) = Inr t"
  then have len: "length raw = 64" using encode_signature_Inr_length by fastforce
  then obtain s where s: "b2a_base64 (map unat raw) = s @ [PAD, PAD]" "length s = 86"
      "set s \<subseteq> set B64_ALPHABET" "t = map to_urlsafe s"
    using enc by (auto elim: encode_signature_shape)
  have undo: "map from_urlsafe (t @ [PAD, PAD]) = s @ [PAD, PAD]"
    using s(3) from_to_urlsafe by (auto simp: s(4) comp_def from_urlsafe_def PAD_def intro!: map_idI)
  have "a2b_base64 (b2a_base64 (map unat raw)) 0 0 0 [] = Inr ([] @ map unat raw)"
    by (rule a2b_b2a [where k = 21]) (use len in auto)
  then have "urlsafe_b64decode (t @ [PAD, PAD]) = Inr raw"
    using s(3) alphabet_not_pad unfolding urlsafe_b64decode_def undo s(1)
    by (auto simp: s(4) list_all_iff to_urlsafe_def PAD_def comp_def map_idI)
  moreover have "PAD \<notin> set t"
    using s(3) alphabet_not_pad by (auto simp: s(4) to_urlsafe_def PAD_def)
  ultimately show "decode_signature (VStr t) = Inr raw"
    using s len by (simp add: decode_signature_def SIGNATURE_BYTES_def SIGNATURE_CHARS_def)
qed

lemma decode_signature_length: "decode_signature v = Inr raw \<Longrightarrow> length raw = 64"
  by (auto simp: decode_signature_def SIGNATURE_BYTES_def split: pyval.splits sum.splits if_splits)

text \<open>
  C28. A raw 64-byte signature encodes to exactly 86 characters of the URL-safe
  alphabet, without padding, and decodes to the same bytes.
\<close>

theorem signature_round_trip:
  assumes "length raw = 64"
  shows "\<exists>t. encode_signature (VBytes raw) = Inr t \<and> length t = 86 \<and>
      decode_signature (VStr t) = Inr raw \<and> PAD \<notin> set t \<and> 43 \<notin> set t \<and> 47 \<notin> set t"
proof -
  from assms obtain s where s: "length s = 86" "set s \<subseteq> set B64_ALPHABET"
    "encode_signature (VBytes raw) = Inr (map to_urlsafe s)"
    by (rule encode_signature_shape)
  moreover have "c \<in> set s \<Longrightarrow> to_urlsafe c \<noteq> PAD \<and> to_urlsafe c \<noteq> 43 \<and> to_urlsafe c \<noteq> 47" for c
    using s(2) alphabet_not_pad [of c] by (auto simp: to_urlsafe_def PAD_def)
  ultimately show ?thesis
    using signature_text.dec_enc [OF s(3)] by fastforce
qed

theorem signature_round_trip_witness:
  "\<exists>t. encode_signature (VBytes (replicate 64 0)) = Inr t \<and>
       decode_signature (VStr t) = Inr (replicate 64 0)"
  using signature_round_trip [of "replicate 64 0"] by auto

text \<open>
  The decoder is lenient in the library but strict in effect: text with any
  character outside the base64 alphabets is refused, because a skipped character
  leaves too few for 64 bytes.
\<close>

theorem decode_signature_strict:
  assumes "decode_signature (VStr t) = Inr raw"
  shows "length t = 86 \<and> length raw = 64 \<and> (\<forall>c \<in> set t. from_urlsafe c \<in> set B64_ALPHABET)"
proof -
  from assms have t: "length t = 86" and len: "length raw = 64"
    and dec: "urlsafe_b64decode (t @ [PAD, PAD]) = Inr raw"
    by (auto simp: decode_signature_def SIGNATURE_BYTES_def SIGNATURE_CHARS_def
        split: sum.splits if_splits)
  from dec obtain ns where ns: "a2b_base64 (map from_urlsafe (t @ [PAD, PAD])) 0 0 0 [] = Inr ns"
    and "raw = map word_of_nat ns"
    by (auto simp: urlsafe_b64decode_def rbind_eq_Inr split: if_splits)
  with len have "length ns = 64" by simp
  with a2b_length [OF _ ns] have "86 \<le> accepted (map from_urlsafe (t @ [PAD, PAD]))"
    by (simp add: quad_credit_def)
  moreover have "from_urlsafe PAD \<notin> set B64_ALPHABET"
    using alphabet_not_pad [of PAD] by (auto simp: from_urlsafe_def PAD_def)
  ultimately have "86 \<le> length (filter (\<lambda>c. c \<in> set B64_ALPHABET) (map from_urlsafe t))"
    by (simp add: accepted_def)
  with t have "length (filter (\<lambda>c. c \<in> set B64_ALPHABET) (map from_urlsafe t)) =
      length (map from_urlsafe t)"
    using length_filter_le [of "\<lambda>c. c \<in> set B64_ALPHABET" "map from_urlsafe t"] by simp
  then have "\<forall>c \<in> set (map from_urlsafe t). c \<in> set B64_ALPHABET"
    by (metis length_filter_less order_less_irrefl)
  with t len show ?thesis by simp
qed

lemma zero_signature: "\<exists>t. decode_signature (VStr t) = Inr (replicate 64 0)"
  using signature_text.dec_enc encode_signature_shape [of "replicate 64 (0 :: byte)"]
  by (metis length_replicate)

theorem decode_signature_strict_witness:
  "\<exists>t. decode_signature (VStr t) = Inr (replicate 64 0) \<and>
       (\<forall>c \<in> set t. from_urlsafe c \<in> set B64_ALPHABET)"
  using zero_signature decode_signature_strict by blast

text \<open>
  The text form of a signature is not unique, although the module calls it
  unpadded base64url: the standard alphabet's \<open>+\<close> and \<open>/\<close> are accepted in
  place of \<open>-\<close> and \<open>_\<close>, with the same result.
\<close>

theorem decode_signature_accepts_standard_alphabet:
  "decode_signature (VStr (map from_urlsafe t)) = decode_signature (VStr t)"
proof -
  have idem: "from_urlsafe (from_urlsafe c) = from_urlsafe c" for c
    by (simp add: from_urlsafe_def)
  have pad: "from_urlsafe c = PAD \<longleftrightarrow> c = PAD" and ascii: "from_urlsafe c < 128 \<longleftrightarrow> c < 128" for c
    by (auto simp: from_urlsafe_def PAD_def)
  have "PAD \<in> set (map from_urlsafe t) \<longleftrightarrow> PAD \<in> set t"
    using pad by (metis image_iff list.set_map)
  moreover have "urlsafe_b64decode (map from_urlsafe t @ [PAD, PAD]) = urlsafe_b64decode (t @ [PAD, PAD])"
    by (simp add: urlsafe_b64decode_def list_all_iff ascii idem comp_def)
  ultimately show ?thesis by (simp add: decode_signature_def)
qed

end
