(* ===== verification/Json.thy ===== *)
theory Json
  imports Errors "HOL-Library.List_Lexorder"
begin

text \<open>
  \<open>json.dumps(value, sort_keys=True, separators=(",", ":"), ensure_ascii=False,
  allow_nan=False)\<close>, the one serialisation the program hashes
  (\<open>proof/hashchain.py\<close>, \<open>proof/ledger.py\<close>). The last section shows that the
  text of a value without floats determines the value, so that hashing the text
  commits to the value.
\<close>

section \<open>Values\<close>

text \<open>
  \<open>JFloat\<close> carries the text that \<open>float.__repr__\<close> gives; \<open>JNonFinite\<close> is a
  NaN or an infinity, \<open>JOther\<close> an object that is not serialisable. A dict keeps its
  insertion order; its keys are distinct strings.
\<close>

datatype json =
    JNull | JBool bool | JInt int | JFloat pystr | JNonFinite | JStr pystr
  | JArr "json list" | JObj "(pystr \<times> json) list" | JOther

section \<open>Rendering\<close>

fun escape_char :: "nat \<Rightarrow> nat list" where
  "escape_char c =
     (if c = 34 then [92, 34] else if c = 92 then [92, 92]
      else if c = 8 then [92, 98] else if c = 12 then [92, 102]
      else if c = 10 then [92, 110] else if c = 13 then [92, 114]
      else if c = 9 then [92, 116]
      else if c < 32 then [92, 117, 48, 48, hexdigit (c div 16), hexdigit (c mod 16)]
      else [c])"

definition json_str :: "pystr \<Rightarrow> pystr" where
  "json_str s = 34 # concat (map escape_char s) @ [34]"

definition json_int :: "int \<Rightarrow> exn + pystr" where
  "json_int i =
     (if i < 0 then rbind (py_str_nat (nat (- i))) (\<lambda>t. Inr (45 # t)) else py_str_nat (nat i))"

definition json_true :: pystr where "json_true = str_lit ''true''"
definition json_false :: pystr where "json_false = str_lit ''false''"
definition json_null :: pystr where "json_null = str_lit ''null''"

fun render :: "json \<Rightarrow> exn + pystr"
  and render_items :: "json list \<Rightarrow> exn + pystr"
  and render_members :: "(pystr \<times> json) list \<Rightarrow> exn + pystr" where
  "render JNull = Inr json_null"
| "render (JBool b) = Inr (if b then json_true else json_false)"
| "render (JInt i) = json_int i"
| "render (JFloat t) = Inr t"
| "render JNonFinite = Inl ValueError"
| "render (JStr s) = Inr (json_str s)"
| "render (JArr xs) = rbind (render_items xs) (\<lambda>t. Inr (91 # t @ [93]))"
| "render (JObj ms) = rbind (render_members ms) (\<lambda>t. Inr (123 # t @ [125]))"
| "render JOther = Inl TypeError"
| "render_items [] = Inr []"
| "render_items (x # xs) =
     rbind (render x) (\<lambda>t.
       if xs = [] then Inr t else rbind (render_items xs) (\<lambda>r. Inr (t @ 44 # r)))"
| "render_members [] = Inr []"
| "render_members (m # ms) =
     rbind (render (snd m)) (\<lambda>t.
       if ms = [] then Inr (json_str (fst m) @ 58 # t)
       else rbind (render_members ms) (\<lambda>r. Inr (json_str (fst m) @ 58 # t @ 44 # r)))"

text \<open>\<open>sort_keys\<close> orders the members of every object by code points.\<close>

fun sort_keys :: "json \<Rightarrow> json"
  and sort_keys_items :: "json list \<Rightarrow> json list"
  and sort_keys_members :: "(pystr \<times> json) list \<Rightarrow> (pystr \<times> json) list" where
  "sort_keys (JArr xs) = JArr (sort_keys_items xs)"
| "sort_keys (JObj ms) = JObj (sort_keys_members ms)"
| "sort_keys j = j"
| "sort_keys_items [] = []"
| "sort_keys_items (x # xs) = sort_keys x # sort_keys_items xs"
| "sort_keys_members [] = []"
| "sort_keys_members (m # ms) = insort_key fst (fst m, sort_keys (snd m)) (sort_keys_members ms)"

definition dumps :: "json \<Rightarrow> exn + pystr" where
  "dumps j = render (sort_keys j)"

section \<open>The text determines the value\<close>

lemma hexdigit_ge: "48 \<le> hexdigit d"
  by (simp add: hexdigit_def)

definition plain_control :: "nat \<Rightarrow> bool" where
  "plain_control c \<longleftrightarrow> c < 32 \<and> c \<noteq> 8 \<and> c \<noteq> 9 \<and> c \<noteq> 10 \<and> c \<noteq> 12 \<and> c \<noteq> 13"

lemma escape_plain_control: "plain_control c \<Longrightarrow>
    escape_char c = [92, 117, 48, 48, hexdigit (c div 16), hexdigit (c mod 16)]"
  by (simp add: plain_control_def)

lemma escape_other: "\<not> plain_control c \<Longrightarrow> escape_char c =
    (if c \<in> {34, 92} then [92, c] else if c = 8 then [92, 98] else if c = 12 then [92, 102]
     else if c = 10 then [92, 110] else if c = 13 then [92, 114] else if c = 9 then [92, 116]
     else [c])"
  by (auto simp: plain_control_def)

declare escape_char.simps [simp del]

lemma escape_char_prefix_code:
  assumes "escape_char c @ x = escape_char d @ y"
  shows "c = d \<and> x = y"
proof (cases "plain_control c"; cases "plain_control d")
  assume pc: "plain_control c" and pd: "plain_control d"
  then have h: "hexdigit (c div 16) = hexdigit (d div 16)"
      "hexdigit (c mod 16) = hexdigit (d mod 16)" and xy: "x = y"
    using assms by (simp_all add: escape_plain_control)
  have "c div 16 < 16" "d div 16 < 16" using pc pd by (auto simp: plain_control_def)
  then have "c div 16 = d div 16" "c mod 16 = d mod 16"
    using h by (simp_all add: hexdigit_inject)
  then show ?thesis using xy by (metis div_mult_mod_eq)
next
  assume "plain_control c" and "\<not> plain_control d"
  then show ?thesis using assms
    by (simp add: escape_plain_control escape_other split: if_splits)
next
  assume "\<not> plain_control c" and "plain_control d"
  then show ?thesis using assms
    by (simp add: escape_plain_control escape_other split: if_splits)
next
  assume "\<not> plain_control c" and "\<not> plain_control d"
  then show ?thesis using assms by (simp add: escape_other split: if_splits)
qed

lemma escape_char_hd: "\<exists>h t. escape_char c = h # t \<and> h \<noteq> 34"
  by (cases "plain_control c") (simp_all add: escape_plain_control escape_other)

lemma escaped_prefix_code:
  "concat (map escape_char s) @ 34 # r = concat (map escape_char s') @ 34 # r' \<Longrightarrow>
     s = s' \<and> r = r'"
proof (induction s arbitrary: s')
  case Nil
  then show ?case
    using escape_char_hd by (cases s') (auto, metis append_Cons list.inject)
next
  case (Cons c s)
  show ?case
  proof (cases s')
    case Nil
    then show ?thesis using Cons.prems escape_char_hd [of c] by auto
  next
    case (Cons d s2)
    then show ?thesis
      using Cons.prems Cons.IH [of s2]
        escape_char_prefix_code [of c "concat (map escape_char s) @ 34 # r" d] by auto
  qed
qed

lemma json_str_prefix_code: "json_str s @ r = json_str s' @ r' \<Longrightarrow> s = s' \<and> r = r'"
  using escaped_prefix_code [of s r s' r'] by (simp add: json_str_def)

lemma append_stop_inject:
  assumes "xs @ r = ys @ s" and "list_all P xs" and "list_all P ys"
    and "r = [] \<or> \<not> P (hd r)" and "s = [] \<or> \<not> P (hd s)"
  shows "xs = ys \<and> r = s"
proof -
  have "takeWhile P (xs @ r) = xs" "takeWhile P (ys @ s) = ys"
    using assms(2-5) by (cases r; cases s; simp add: list_all_iff takeWhile_append)+
  with assms(1) show ?thesis by simp
qed

text \<open>What may follow a value inside a text: nothing, a comma or a closing bracket.\<close>

definition delimited :: "pystr \<Rightarrow> bool" where
  "delimited r \<longleftrightarrow> r = [] \<or> hd r = 44 \<or> hd r = 93 \<or> hd r = 125"

definition digit :: "nat \<Rightarrow> bool" where
  "digit c \<longleftrightarrow> 48 \<le> c \<and> c \<le> 57"

lemma delimited_simps [simp]:
  "delimited []" "delimited (44 # r)" "delimited (93 # r)" "delimited (125 # r)"
  by (simp_all add: delimited_def)

lemma dec_digits: "list_all digit (dec n)"
  by (auto simp: list_all_iff digit_def dest: set_dec)

lemma delimited_not_digit: "delimited r \<Longrightarrow> r = [] \<or> \<not> digit (hd r)"
  by (auto simp: delimited_def digit_def)

lemma dec_prefix_code:
  "dec m @ r = dec n @ s \<Longrightarrow> delimited r \<Longrightarrow> delimited s \<Longrightarrow> m = n \<and> r = s"
  using append_stop_inject [OF _ dec_digits dec_digits] delimited_not_digit dec_eq_iff by blast

lemma json_int_Inr: "json_int i = Inr t \<Longrightarrow>
    t = (if i < 0 then 45 # dec (nat (- i)) else dec (nat i))"
  by (auto simp: json_int_def rbind_eq_Inr py_str_nat_Inr split: if_splits)

lemma hd_dec: "digit (hd (dec n))"
  using dec_digits [of n] dec_nonempty [of n] by (cases "dec n") simp_all

lemma json_int_prefix_code:
  assumes "json_int i = Inr t" and "json_int j = Inr u" and "t @ r = u @ s"
    and "delimited r" and "delimited s"
  shows "i = j \<and> r = s"
proof -
  have sign: "i < 0 \<longleftrightarrow> j < 0"
    using assms(3) hd_dec [of "nat i"] hd_dec [of "nat j"] dec_nonempty [of "nat i"]
      dec_nonempty [of "nat j"]
    by (cases "dec (nat i)"; cases "dec (nat j)")
       (auto simp: json_int_Inr [OF assms(1)] json_int_Inr [OF assms(2)] digit_def split: if_splits)
  show ?thesis
  proof (cases "i < 0")
    case True
    then have "dec (nat (- i)) @ r = dec (nat (- j)) @ s"
      using assms(3) sign by (simp add: json_int_Inr [OF assms(1)] json_int_Inr [OF assms(2)])
    then have "nat (- i) = nat (- j) \<and> r = s" using dec_prefix_code assms(4,5) by blast
    then show ?thesis using True sign by linarith
  next
    case False
    then have "dec (nat i) @ r = dec (nat j) @ s"
      using assms(3) sign by (simp add: json_int_Inr [OF assms(1)] json_int_Inr [OF assms(2)])
    then have "nat i = nat j \<and> r = s" using dec_prefix_code assms(4,5) by blast
    then show ?thesis using False sign by linarith
  qed
qed

text \<open>The first character of a text tells the constructor of its value.\<close>

fun head_ok :: "json \<Rightarrow> nat \<Rightarrow> bool" where
  "head_ok JNull c \<longleftrightarrow> c = 110"
| "head_ok (JBool b) c \<longleftrightarrow> c = (if b then 116 else 102)"
| "head_ok (JInt _) c \<longleftrightarrow> c = 45 \<or> digit c"
| "head_ok (JStr _) c \<longleftrightarrow> c = 34"
| "head_ok (JArr _) c \<longleftrightarrow> c = 91"
| "head_ok (JObj _) c \<longleftrightarrow> c = 123"
| "head_ok _ c \<longleftrightarrow> False"

fun no_float :: "json \<Rightarrow> bool"
  and no_float_items :: "json list \<Rightarrow> bool"
  and no_float_members :: "(pystr \<times> json) list \<Rightarrow> bool" where
  "no_float (JFloat _) = False"
| "no_float (JArr xs) = no_float_items xs"
| "no_float (JObj ms) = no_float_members ms"
| "no_float _ = True"
| "no_float_items [] = True"
| "no_float_items (x # xs) = (no_float x \<and> no_float_items xs)"
| "no_float_members [] = True"
| "no_float_members (m # ms) = (no_float (snd m) \<and> no_float_members ms)"

lemma json_words: "json_null = [110, 117, 108, 108]" "json_true = [116, 114, 117, 101]"
    "json_false = [102, 97, 108, 115, 101]"
  by (simp_all add: json_null_def json_true_def json_false_def str_lit_def)

lemma render_head: "render v = Inr t \<Longrightarrow> no_float v \<Longrightarrow> \<exists>c t'. t = c # t' \<and> head_ok v c"
proof (cases v)
  case (JInt i)
  assume "render v = Inr t"
  then have "t = (if i < 0 then 45 # dec (nat (- i)) else dec (nat i))"
    using JInt json_int_Inr by simp
  then show ?thesis using JInt hd_dec [of "nat i"] dec_nonempty [of "nat i"]
    by (cases "dec (nat i)") auto
qed (auto simp: json_words json_str_def rbind_eq_Inr)

lemma head_ok_kind: "head_ok v c \<Longrightarrow> head_ok w c \<Longrightarrow>
    (v = JNull \<and> w = JNull) \<or> (\<exists>b. v = JBool b \<and> w = JBool b) \<or>
    (\<exists>i j. v = JInt i \<and> w = JInt j) \<or> (\<exists>s u. v = JStr s \<and> w = JStr u) \<or>
    (\<exists>xs ys. v = JArr xs \<and> w = JArr ys) \<or> (\<exists>ms ns. v = JObj ms \<and> w = JObj ns)"
  by (cases v; cases w) (auto simp: digit_def split: if_splits)

lemma head_ok_not_close: "head_ok v c \<Longrightarrow> c \<noteq> 93 \<and> c \<noteq> 125 \<and> c \<noteq> 44"
  by (cases v) (auto simp: digit_def split: if_splits)

definition same_kind :: "json \<Rightarrow> json \<Rightarrow> bool" where
  "same_kind v w \<longleftrightarrow> (\<exists>c. head_ok v c \<and> head_ok w c)"

lemma render_same_kind:
  assumes "render v = Inr t" and "render w = Inr u" and "t @ r = u @ s"
    and "no_float v" and "no_float w"
  shows "same_kind v w"
  using render_head [OF assms(1,4)] render_head [OF assms(2,5)] assms(3)
  by (auto simp: same_kind_def)

lemma same_kindE:
  assumes "same_kind v w"
  obtains "v = JNull" "w = JNull" | b where "v = JBool b" "w = JBool b"
    | i j where "v = JInt i" "w = JInt j" | a b where "v = JStr a" "w = JStr b"
    | xs ys where "v = JArr xs" "w = JArr ys" | ms ns where "v = JObj ms" "w = JObj ns"
proof -
  obtain c where "head_ok v c" "head_ok w c" using assms by (auto simp: same_kind_def)
  from head_ok_kind [OF this] show thesis using that by (elim disjE exE conjE) simp_all
qed

lemma items_not_nil:
  assumes "render_items (x # xs) = Inr u" and "no_float x"
  shows "u @ 93 # s \<noteq> 93 # r"
  using assms render_head [of x] by (auto simp: rbind_eq_Inr split: if_splits dest!: head_ok_not_close)

lemma members_not_nil: "render_members (m # ms) = Inr u \<Longrightarrow> u @ 125 # s \<noteq> 125 # r"
  by (auto simp: rbind_eq_Inr json_str_def split: if_splits)

text \<open>A sequence of texts, each followed by a comma or the closing bracket.\<close>

lemma render_items_ConsE:
  assumes "render_items (x # xs) = Inr t"
  obtains tx R where "render x = Inr tx" and "t @ 93 # r = tx @ R" and "delimited R"
    and "(xs = [] \<and> R = 93 # r) \<or>
         (xs \<noteq> [] \<and> (\<exists>tr. render_items xs = Inr tr \<and> R = 44 # tr @ 93 # r))"
proof (cases "xs = []")
  case True
  then show thesis using assms that [of t "93 # r"] by (simp add: rbind_eq_Inr)
next
  case False
  then obtain tx tr where "render x = Inr tx" "render_items xs = Inr tr" "t = tx @ 44 # tr"
    using assms by (auto simp: rbind_eq_Inr)
  then show thesis using False that [of tx "44 # tr @ 93 # r"] by simp
qed

lemma render_members_ConsE:
  assumes "render_members (m # ms) = Inr t"
  obtains tx R where "render (snd m) = Inr tx"
    and "t @ 125 # r = json_str (fst m) @ 58 # tx @ R" and "delimited R"
    and "(ms = [] \<and> R = 125 # r) \<or>
         (ms \<noteq> [] \<and> (\<exists>tr. render_members ms = Inr tr \<and> R = 44 # tr @ 125 # r))"
proof (cases "ms = []")
  case True
  then obtain tx where "render (snd m) = Inr tx" "t = json_str (fst m) @ 58 # tx"
    using assms by (auto simp: rbind_eq_Inr)
  then show thesis using True that [of tx "125 # r"] by simp
next
  case False
  then obtain tx tr where "render (snd m) = Inr tx" "render_members ms = Inr tr"
      "t = json_str (fst m) @ 58 # tx @ 44 # tr"
    using assms by (auto simp: rbind_eq_Inr)
  then show thesis using False that [of tx "44 # tr @ 125 # r"] by simp
qed

lemma render_prefix_code:
  "render v = Inr t \<Longrightarrow> render w = Inr u \<Longrightarrow> t @ r = u @ s \<Longrightarrow> no_float v \<Longrightarrow> no_float w \<Longrightarrow>
     delimited r \<Longrightarrow> delimited s \<Longrightarrow> v = w \<and> r = s"
  "render_items xs = Inr t \<Longrightarrow> render_items ys = Inr u \<Longrightarrow> t @ 93 # r = u @ 93 # s \<Longrightarrow>
     no_float_items xs \<Longrightarrow> no_float_items ys \<Longrightarrow> xs = ys \<and> r = s"
  "render_members ms = Inr t \<Longrightarrow> render_members ns = Inr u \<Longrightarrow> t @ 125 # r = u @ 125 # s \<Longrightarrow>
     no_float_members ms \<Longrightarrow> no_float_members ns \<Longrightarrow> ms = ns \<and> r = s"
proof (induction v and xs and ms arbitrary: w t u r s and ys t u r s and ns t u r s
    rule: render_render_items_render_members.induct)
  case 1
  from render_same_kind [OF 1(1-5)] have "w = JNull" by (rule same_kindE) simp_all
  with 1 show ?case by simp
next
  case (2 b)
  from render_same_kind [OF 2(1-5)] have "w = JBool b" by (rule same_kindE) simp_all
  with 2 show ?case by simp
next
  case (3 i)
  from render_same_kind [OF 3(1-5)] obtain j where "w = JInt j" by (rule same_kindE) simp_all
  with 3 show ?case using json_int_prefix_code [of i t j u r s] by simp
next
  case (6 a)
  from render_same_kind [OF 6(1-5)] obtain b where "w = JStr b" by (rule same_kindE) simp_all
  with 6 show ?case using json_str_prefix_code [of a r b s] by simp
next
  case (7 xs)
  from render_same_kind [OF 7(2-6)] obtain ys where w: "w = JArr ys" by (rule same_kindE) simp_all
  obtain t' u' where "render_items xs = Inr t'" "t = 91 # t' @ [93]"
      "render_items ys = Inr u'" "u = 91 # u' @ [93]"
    using 7(2,3) w by (auto simp: rbind_eq_Inr)
  then show ?case using "7.IH" [of t' ys u' r s] 7(4-6) w by simp
next
  case (8 ms)
  from render_same_kind [OF 8(2-6)] obtain ns where w: "w = JObj ns" by (rule same_kindE) simp_all
  obtain t' u' where "render_members ms = Inr t'" "t = 123 # t' @ [125]"
      "render_members ns = Inr u'" "u = 123 # u' @ [125]"
    using 8(2,3) w by (auto simp: rbind_eq_Inr)
  then show ?case using "8.IH" [of t' ns u' r s] 8(4-6) w by simp
next
  case 10
  show ?case
  proof (cases ys)
    case (Cons y ys')
    then show ?thesis using 10 items_not_nil [of y ys' u s r] by simp
  qed (use 10 in simp)
next
  case (11 x xs)
  then obtain y ys' where ys: "ys = y # ys'" using items_not_nil [of x xs t r s] by (cases ys) auto
  obtain tx R where x: "render x = Inr tx" "t @ 93 # r = tx @ R" "delimited R"
      "(xs = [] \<and> R = 93 # r) \<or> (xs \<noteq> [] \<and> (\<exists>tr. render_items xs = Inr tr \<and> R = 44 # tr @ 93 # r))"
    using render_items_ConsE [OF "11.prems"(1)] by blast
  obtain uy S where y: "render y = Inr uy" "u @ 93 # s = uy @ S" "delimited S"
      "(ys' = [] \<and> S = 93 # s) \<or> (ys' \<noteq> [] \<and> (\<exists>tr. render_items ys' = Inr tr \<and> S = 44 # tr @ 93 # s))"
    using render_items_ConsE [OF "11.prems"(2) [unfolded ys]] by blast
  have xy: "x = y \<and> R = S"
    using "11.IH"(1) [OF x(1) y(1) _ _ _ x(3) y(3)] "11.prems"(3-5) x(2) y(2) ys by simp
  show ?case
  proof (cases "xs = []")
    case True
    then show ?thesis using x(4) y(4) xy ys by auto
  next
    case False
    then obtain tr ur where "render_items xs = Inr tr" "render_items ys' = Inr ur"
        "tr @ 93 # r = ur @ 93 # s" using x(4) y(4) xy by auto
    from "11.IH"(2) [OF False this] have "xs = ys' \<and> r = s"
      using "11.prems"(4,5) ys by (metis no_float_items.simps(2))
    then show ?thesis using xy ys by simp
  qed
next
  case 12
  show ?case
  proof (cases ns)
    case (Cons n ns')
    then show ?thesis using 12 members_not_nil [of n ns' u s r] by simp
  qed (use 12 in simp)
next
  case (13 m ms)
  then obtain n ns' where ns: "ns = n # ns'" using members_not_nil [of m ms t r s] by (cases ns) auto
  obtain tx R where x: "render (snd m) = Inr tx" "t @ 125 # r = json_str (fst m) @ 58 # tx @ R"
      "delimited R"
      "(ms = [] \<and> R = 125 # r) \<or> (ms \<noteq> [] \<and> (\<exists>tr. render_members ms = Inr tr \<and> R = 44 # tr @ 125 # r))"
    using render_members_ConsE [OF "13.prems"(1)] by blast
  obtain uy S where y: "render (snd n) = Inr uy" "u @ 125 # s = json_str (fst n) @ 58 # uy @ S"
      "delimited S"
      "(ns' = [] \<and> S = 125 # s) \<or> (ns' \<noteq> [] \<and> (\<exists>tr. render_members ns' = Inr tr \<and> S = 44 # tr @ 125 # s))"
    using render_members_ConsE [OF "13.prems"(2) [unfolded ns]] by blast
  have key: "fst m = fst n \<and> tx @ R = uy @ S"
    using json_str_prefix_code [of "fst m" "58 # tx @ R" "fst n" "58 # uy @ S"] "13.prems"(3) x(2) y(2)
    by simp
  have xy: "snd m = snd n \<and> R = S"
    using "13.IH"(1) [OF x(1) y(1) _ _ _ x(3) y(3)] "13.prems"(4,5) key ns by simp
  show ?case
  proof (cases "ms = []")
    case True
    then show ?thesis using x(4) y(4) xy key ns by (auto simp: prod_eq_iff)
  next
    case False
    then obtain tr ur where "render_members ms = Inr tr" "render_members ns' = Inr ur"
        "tr @ 125 # r = ur @ 125 # s" using x(4) y(4) xy by auto
    from "13.IH"(2) [OF False this] have "ms = ns' \<and> r = s"
      using "13.prems"(4,5) ns by (metis no_float_members.simps(2))
    then show ?thesis using xy key ns by (simp add: prod_eq_iff)
  qed
qed simp_all

lemma no_float_sort_keys:
  "no_float (sort_keys j) = no_float j"
  "no_float_items (sort_keys_items xs) = no_float_items xs"
  "no_float_members (sort_keys_members ms) = no_float_members ms"
proof (induction j and xs and ms rule: sort_keys_sort_keys_items_sort_keys_members.induct)
  case (7 m ms)
  have "no_float_members (insort_key fst a ns) = (no_float (snd a) \<and> no_float_members ns)" for a ns
    by (induction ns) auto
  then show ?case using 7 by simp
qed simp_all

text \<open>
  Equal texts mean equal values up to the order in which the members of objects
  were inserted.
\<close>

lemma dumps_inject:
  assumes "dumps v = Inr t" and "dumps w = Inr t" and "no_float v" and "no_float w"
  shows "sort_keys v = sort_keys w"
  using render_prefix_code(1) [of "sort_keys v" t "sort_keys w" t "[]" "[]"] assms
  by (simp add: dumps_def no_float_sort_keys)

text \<open>
  Sorting by keys does not depend on the insertion order when the keys are distinct, and
  keeps the association of keys with values.
\<close>

lemma set_sort_keys_members:
  "set (sort_keys_members ms) = (\<lambda>m. (fst m, sort_keys (snd m))) ` set ms"
  by (induction ms) (simp_all add: set_insort_key)

section \<open>Values that serialise\<close>

text \<open>Strings without surrogates, integers of at most 64 bits, and nothing that raises.\<close>

definition int64_ok :: "int \<Rightarrow> bool" where
  "int64_ok i \<longleftrightarrow> - (2 ^ 63) \<le> i \<and> i < 2 ^ 63"

definition scalar_str :: "pystr \<Rightarrow> bool" where
  "scalar_str s \<longleftrightarrow> (\<forall>c \<in> set s. is_scalar c)"

lemma scalar_str_simps [simp]:
  "scalar_str []" "scalar_str (c # s) \<longleftrightarrow> is_scalar c \<and> scalar_str s"
  "scalar_str (s @ t) \<longleftrightarrow> scalar_str s \<and> scalar_str t"
  by (auto simp: scalar_str_def)

fun json_ok :: "json \<Rightarrow> bool"
  and json_ok_items :: "json list \<Rightarrow> bool"
  and json_ok_members :: "(pystr \<times> json) list \<Rightarrow> bool" where
  "json_ok JNull = True"
| "json_ok (JBool _) = True"
| "json_ok (JInt i) = int64_ok i"
| "json_ok (JStr s) = scalar_str s"
| "json_ok (JArr xs) = json_ok_items xs"
| "json_ok (JObj ms) = json_ok_members ms"
| "json_ok _ = False"
| "json_ok_items [] = True"
| "json_ok_items (x # xs) = (json_ok x \<and> json_ok_items xs)"
| "json_ok_members [] = True"
| "json_ok_members (m # ms) = (scalar_str (fst m) \<and> json_ok (snd m) \<and> json_ok_members ms)"

lemma is_scalar_ascii: "c < 128 \<Longrightarrow> is_scalar c"
  by (simp add: is_scalar_def is_surrogate_def)

lemma scalar_dec: "scalar_str (dec n)"
proof -
  have "is_scalar c" if "c \<in> set (dec n)" for c
    using set_dec [OF that] by (intro is_scalar_ascii) simp
  then show ?thesis by (simp add: scalar_str_def)
qed

lemma hexdigit_ascii: "d < 16 \<Longrightarrow> hexdigit d < 128"
  by (simp add: hexdigit_def)

lemma scalar_escape: "is_scalar c \<Longrightarrow> scalar_str (escape_char c)"
proof (cases "plain_control c")
  case True
  then have "c div 16 < 16" by (auto simp: plain_control_def)
  then show ?thesis
    using True by (simp add: escape_plain_control is_scalar_ascii hexdigit_ascii)
qed (simp add: escape_other is_scalar_ascii)

lemma scalar_json_str: "scalar_str s \<Longrightarrow> scalar_str (json_str s)"
proof -
  have "scalar_str s \<Longrightarrow> scalar_str (concat (map escape_char s))"
    by (induction s) (simp_all add: scalar_escape)
  then show "scalar_str s \<Longrightarrow> scalar_str (json_str s)"
    by (simp add: json_str_def is_scalar_ascii)
qed

lemma json_int_ok:
  assumes "int64_ok i"
  shows "\<exists>t. json_int i = Inr t \<and> scalar_str t"
proof -
  have "length (dec n) \<le> MAX_STR_DIGITS" if "n \<le> 2 ^ 63" for n
  proof -
    have "n < 10 ^ 20" using that by simp
    then have "length (dec n) \<le> 20" by (simp only: length_dec_le)
    then show ?thesis by (simp add: MAX_STR_DIGITS_def)
  qed
  moreover have "nat (- i) \<le> 2 ^ 63" "nat i \<le> 2 ^ 63"
    using assms by (simp_all add: int64_ok_def nat_le_iff)
  ultimately show ?thesis
    by (auto simp: json_int_def py_str_nat_def Let_def scalar_dec is_scalar_ascii)
qed

lemma render_ok:
  "json_ok v \<Longrightarrow> \<exists>t. render v = Inr t \<and> scalar_str t"
  "json_ok_items xs \<Longrightarrow> \<exists>t. render_items xs = Inr t \<and> scalar_str t"
  "json_ok_members ms \<Longrightarrow> \<exists>t. render_members ms = Inr t \<and> scalar_str t"
  by (induction v and xs and ms rule: json_ok_json_ok_items_json_ok_members.induct)
     (auto simp: json_words is_scalar_ascii scalar_json_str json_int_ok)

lemma json_ok_sort_keys:
  "json_ok (sort_keys j) = json_ok j"
  "json_ok_items (sort_keys_items xs) = json_ok_items xs"
  "json_ok_members (sort_keys_members ms) = json_ok_members ms"
proof (induction j and xs and ms rule: sort_keys_sort_keys_items_sort_keys_members.induct)
  case (7 m ms)
  have "json_ok_members (insort_key fst a ns) \<longleftrightarrow>
      scalar_str (fst a) \<and> json_ok (snd a) \<and> json_ok_members ns" for a ns
    by (induction ns) auto
  then show ?case using 7 by simp
qed simp_all

lemma dumps_ok: "json_ok j \<Longrightarrow> \<exists>t. dumps j = Inr t \<and> scalar_str t"
  by (simp add: dumps_def render_ok json_ok_sort_keys)

section \<open>The text is one line\<close>

lemma escape_char_no_newline: "10 \<notin> set (escape_char c)"
proof (cases "plain_control c")
  case True
  then show ?thesis using hexdigit_ge [of "c div 16"] hexdigit_ge [of "c mod 16"]
    by (auto simp: escape_plain_control)
qed (auto simp: escape_other)

lemma json_str_no_newline: "10 \<notin> set (json_str s)"
  using escape_char_no_newline by (auto simp: json_str_def)

lemma dec_no_newline: "10 \<notin> set (dec n)"
  using set_dec [of 10 n] by auto

lemma render_no_newline:
  "render v = Inr t \<Longrightarrow> no_float v \<Longrightarrow> 10 \<notin> set t"
  "render_items xs = Inr t \<Longrightarrow> no_float_items xs \<Longrightarrow> 10 \<notin> set t"
  "render_members ms = Inr t \<Longrightarrow> no_float_members ms \<Longrightarrow> 10 \<notin> set t"
proof (induction v and xs and ms arbitrary: t and t and t
    rule: render_render_items_render_members.induct)
  case (3 i)
  then show ?case using json_int_Inr [of i t] dec_no_newline by (auto split: if_splits)
qed (auto simp: json_words rbind_eq_Inr json_str_no_newline split: if_splits)

end
