(* ===== verification/Sha256.thy ===== *)
theory Sha256
  imports PyStr
begin

unbundle bit_operations_syntax

text \<open>
  \<open>hashlib.sha256\<close> as FIPS 180-4 defines it, on 32-bit words, with
  \<open>hexdigest()\<close>. The definition is executable; the ledger's guarantees are stated
  over it, with an explicit collision as the alternative.
\<close>

type_synonym u32 = "32 word"

definition rotr :: "nat \<Rightarrow> u32 \<Rightarrow> u32" where
  "rotr n x = drop_bit n x OR push_bit (32 - n) x"

definition Ch :: "u32 \<Rightarrow> u32 \<Rightarrow> u32 \<Rightarrow> u32" where
  "Ch x y z = (x AND y) XOR (NOT x AND z)"

definition Maj :: "u32 \<Rightarrow> u32 \<Rightarrow> u32 \<Rightarrow> u32" where
  "Maj x y z = (x AND y) XOR (x AND z) XOR (y AND z)"

definition Sigma0 :: "u32 \<Rightarrow> u32" where
  "Sigma0 x = rotr 2 x XOR rotr 13 x XOR rotr 22 x"

definition Sigma1 :: "u32 \<Rightarrow> u32" where
  "Sigma1 x = rotr 6 x XOR rotr 11 x XOR rotr 25 x"

definition sigma0 :: "u32 \<Rightarrow> u32" where
  "sigma0 x = rotr 7 x XOR rotr 18 x XOR drop_bit 3 x"

definition sigma1 :: "u32 \<Rightarrow> u32" where
  "sigma1 x = rotr 17 x XOR rotr 19 x XOR drop_bit 10 x"

text \<open>The fractional parts of the cube roots of the first 64 primes, times \<open>2^32\<close>.\<close>

definition round_constants :: "u32 list" where
  "round_constants =
     [1116352408, 1899447441, 3049323471, 3921009573, 961987163, 1508970993,
      2453635748, 2870763221, 3624381080, 310598401, 607225278, 1426881987,
      1925078388, 2162078206, 2614888103, 3248222580, 3835390401, 4022224774,
      264347078, 604807628, 770255983, 1249150122, 1555081692, 1996064986,
      2554220882, 2821834349, 2952996808, 3210313671, 3336571891, 3584528711,
      113926993, 338241895, 666307205, 773529912, 1294757372, 1396182291,
      1695183700, 1986661051, 2177026350, 2456956037, 2730485921, 2820302411,
      3259730800, 3345764771, 3516065817, 3600352804, 4094571909, 275423344,
      430227734, 506948616, 659060556, 883997877, 958139571, 1322822218,
      1537002063, 1747873779, 1955562222, 2024104815, 2227730452, 2361852424,
      2428436474, 2756734187, 3204031479, 3329325298]"

text \<open>The eight working variables, initially from the square roots of the first eight primes.\<close>

datatype sha_state = Sha u32 u32 u32 u32 u32 u32 u32 u32

definition sha_init :: sha_state where
  "sha_init = Sha 1779033703 3144134277 1013904242 2773480762 1359893119 2600822924 528734635 1541459225"

fun sha_round :: "u32 \<Rightarrow> u32 \<Rightarrow> sha_state \<Rightarrow> sha_state" where
  "sha_round k w (Sha a b c d e f g h) =
     (let t1 = h + Sigma1 e + Ch e f g + k + w;
          t2 = Sigma0 a + Maj a b c
      in Sha (t1 + t2) a b c (d + t1) e f g)"

text \<open>
  The rounds consume the constants; the window holds the next sixteen words of the
  message schedule.
\<close>

fun sha_rounds :: "u32 list \<Rightarrow> u32 list \<Rightarrow> sha_state \<Rightarrow> sha_state" where
  "sha_rounds [] window s = s"
| "sha_rounds (k # ks) window s =
     sha_rounds ks
       (tl window @ [sigma1 (window ! 14) + window ! 9 + sigma0 (window ! 1) + window ! 0])
       (sha_round k (hd window) s)"

fun sha_add :: "sha_state \<Rightarrow> sha_state \<Rightarrow> sha_state" where
  "sha_add (Sha a b c d e f g h) (Sha a' b' c' d' e' f' g' h') =
     Sha (a + a') (b + b') (c + c') (d + d') (e + e') (f + f') (g + g') (h + h')"

definition sha_block :: "u32 list \<Rightarrow> sha_state \<Rightarrow> sha_state" where
  "sha_block ws s = sha_add s (sha_rounds round_constants ws s)"

fun be_words :: "nat list \<Rightarrow> u32 list" where
  "be_words (a # b # c # d # r) =
     word_of_nat (((a * 256 + b) * 256 + c) * 256 + d) # be_words r"
| "be_words _ = []"

fun sha_blocks :: "nat \<Rightarrow> u32 list \<Rightarrow> sha_state \<Rightarrow> sha_state" where
  "sha_blocks 0 ws s = s"
| "sha_blocks (Suc n) ws s = sha_blocks n (drop 16 ws) (sha_block (take 16 ws) s)"

fun be_bytes :: "nat \<Rightarrow> nat \<Rightarrow> nat list" where
  "be_bytes 0 n = []"
| "be_bytes (Suc k) n = be_bytes k (n div 256) @ [n mod 256]"

definition sha_pad :: "nat list \<Rightarrow> nat list" where
  "sha_pad ns =
     ns @ [0x80] @ replicate ((119 - length ns mod 64) mod 64) 0 @ be_bytes 8 (8 * length ns)"

fun sha_digest :: "sha_state \<Rightarrow> bytes" where
  "sha_digest (Sha a b c d e f g h) =
     concat (map (\<lambda>w. map word_of_nat (be_bytes 4 (unat w))) [a, b, c, d, e, f, g, h])"

definition sha256 :: "bytes \<Rightarrow> bytes" where
  "sha256 data =
     (let padded = sha_pad (map unat data)
      in sha_digest (sha_blocks (length padded div 64) (be_words padded) sha_init))"

definition sha256_hex :: "bytes \<Rightarrow> pystr" where
  "sha256_hex data = hex_bytes (sha256 data)"

lemma length_be_bytes [simp]: "length (be_bytes k n) = k"
  by (induction k arbitrary: n) simp_all

lemma length_sha_digest [simp]: "length (sha_digest s) = 32"
  by (cases s) simp

lemma length_sha256 [simp]: "length (sha256 data) = 32"
  by (simp add: sha256_def Let_def)

lemma length_sha256_hex [simp]: "length (sha256_hex data) = 64"
  by (simp add: sha256_hex_def)

lemma hexdigit_in_ranges: "d < 16 \<Longrightarrow> in_ranges [(48, 57), (97, 102)] (hexdigit d)"
  by (auto simp: hexdigit_def in_ranges_def)

lemma set_hex_bytes: "c \<in> set (hex_bytes bs) \<Longrightarrow> in_ranges [(48, 57), (97, 102)] c"
proof -
  assume "c \<in> set (hex_bytes bs)"
  then obtain b :: byte where "c = hexdigit (unat b div 16) \<or> c = hexdigit (unat b mod 16)"
    by (auto simp: hex_bytes_def)
  moreover have "unat b div 16 < 16"
    using unat_byte [of b] by (simp add: div_less_iff_less_mult)
  moreover have "unat b mod 16 < 16" by simp
  ultimately show ?thesis using hexdigit_in_ranges by blast
qed

lemma sha256_hex_inject: "sha256_hex x = sha256_hex y \<longleftrightarrow> sha256 x = sha256 y"
  by (simp add: sha256_hex_def hex_bytes_inject)

text \<open>The padded message is a whole number of blocks.\<close>

lemma sha_pad_blocks: "length (sha_pad ns) mod 64 = 0"
proof -
  let ?m = "length ns mod 64"
  have "?m < 64" by simp
  then consider "?m \<le> 55" | "55 < ?m" "?m < 64" by linarith
  then have "(?m + 9 + (119 - ?m) mod 64) mod 64 = 0"
  proof cases
    case 1
    then have "(119 - ?m) mod 64 = 55 - ?m"
      by (simp add: mod_if [of "119 - ?m"])
    with 1 show ?thesis by simp
  next
    case 2
    then have "(119 - ?m) mod 64 = 119 - ?m" by simp
    with 2 show ?thesis by simp
  qed
  then have "(length ns + (9 + (119 - ?m) mod 64)) mod 64 = 0"
    by (simp only: add.assoc mod_add_left_eq)
  moreover have "length (sha_pad ns) = length ns + (9 + (119 - ?m) mod 64)"
    by (simp only: sha_pad_def length_append length_replicate length_be_bytes) simp
  ultimately show ?thesis by simp
qed

lemmas sha_eval =
  sha256_hex_def sha256_def sha_pad_def sha_init_def sha_block_def round_constants_def
  Ch_def Maj_def Sigma0_def Sigma1_def sigma0_def sigma1_def rotr_def Let_def
  hex_bytes_def hexdigit_def

end
