(* ===== verification/HashChain.thy ===== *)
theory HashChain
  imports Json Sha256
begin

text \<open>
  \<open>proof/hashchain.py\<close>: the bytes a ledger row commits to and their hash. The
  serialisation determines every chained field, so two rows with the same hash
  agree on all of them or exhibit a collision of SHA-256.
\<close>

section \<open>Rows\<close>

text \<open>
  A row of the table \<open>activities\<close> (\<open>storage/db.py\<close>): nullable columns are options.
\<close>

record row =
  r_activity_id :: pystr
  r_chain_index :: int
  r_agent_did :: pystr
  r_activity_type :: pystr
  r_task_id :: "pystr option"
  r_ref_activity_id :: "pystr option"
  r_tc_room :: "pystr option"
  r_tc_seq :: "int option"
  r_tc_nonce :: "int option"
  r_signed_payload_hash :: "pystr option"
  r_signature :: "pystr option"
  r_result_hash :: "pystr option"
  r_provider_id :: "pystr option"
  r_model :: "pystr option"
  r_cost_amount :: "pystr option"
  r_cost_unit :: pystr
  r_occurred_at :: pystr
  r_recorded_at :: pystr
  r_meta_json :: "pystr option"
  r_prev_hash :: pystr
  r_entry_hash :: pystr

definition opt_str :: "pystr option \<Rightarrow> json" where
  "opt_str v = (case v of None \<Rightarrow> JNull | Some s \<Rightarrow> JStr s)"

definition opt_int :: "int option \<Rightarrow> json" where
  "opt_int v = (case v of None \<Rightarrow> JNull | Some i \<Rightarrow> JInt i)"

text \<open>The mapping from column names to values that a row is for Python.\<close>

definition row_dict :: "row \<Rightarrow> (pystr \<times> json) list" where
  "row_dict r =
    [(str_lit ''activity_id'', JStr (r_activity_id r)),
     (str_lit ''chain_index'', JInt (r_chain_index r)),
     (str_lit ''agent_did'', JStr (r_agent_did r)),
     (str_lit ''activity_type'', JStr (r_activity_type r)),
     (str_lit ''task_id'', opt_str (r_task_id r)),
     (str_lit ''ref_activity_id'', opt_str (r_ref_activity_id r)),
     (str_lit ''tc_room'', opt_str (r_tc_room r)),
     (str_lit ''tc_seq'', opt_int (r_tc_seq r)),
     (str_lit ''tc_nonce'', opt_int (r_tc_nonce r)),
     (str_lit ''signed_payload_hash'', opt_str (r_signed_payload_hash r)),
     (str_lit ''signature'', opt_str (r_signature r)),
     (str_lit ''result_hash'', opt_str (r_result_hash r)),
     (str_lit ''provider_id'', opt_str (r_provider_id r)),
     (str_lit ''model'', opt_str (r_model r)),
     (str_lit ''cost_amount'', opt_str (r_cost_amount r)),
     (str_lit ''cost_unit'', JStr (r_cost_unit r)),
     (str_lit ''occurred_at'', JStr (r_occurred_at r)),
     (str_lit ''recorded_at'', JStr (r_recorded_at r)),
     (str_lit ''meta_json'', opt_str (r_meta_json r)),
     (str_lit ''prev_hash'', JStr (r_prev_hash r)),
     (str_lit ''entry_hash'', JStr (r_entry_hash r))]"

definition dict_get :: "(pystr \<times> json) list \<Rightarrow> pystr \<Rightarrow> json" where
  "dict_get d k = (case map_of d k of None \<Rightarrow> JNull | Some v \<Rightarrow> v)"

definition GENESIS_PREV_HASH :: pystr where
  "GENESIS_PREV_HASH = replicate 64 48"

definition CHAINED_FIELDS :: "pystr list" where
  "CHAINED_FIELDS = map str_lit
    [''activity_id'', ''chain_index'', ''agent_did'', ''activity_type'', ''task_id'',
     ''ref_activity_id'', ''tc_room'', ''tc_seq'', ''tc_nonce'', ''signed_payload_hash'',
     ''signature'', ''result_hash'', ''provider_id'', ''model'', ''cost_amount'', ''cost_unit'',
     ''occurred_at'', ''recorded_at'', ''meta_json'', ''prev_hash'']"

definition canonical_bytes :: "row \<Rightarrow> exn + bytes" where
  "canonical_bytes r =
     (let payload = map (\<lambda>name. (name, dict_get (row_dict r) name)) CHAINED_FIELDS
      in rbind (dumps (JObj payload)) utf8_encode)"

definition compute_entry_hash :: "row \<Rightarrow> exn + pystr" where
  "compute_entry_hash r = rbind (canonical_bytes r) (\<lambda>b. Inr (sha256_hex b))"

text \<open>
  The append hashes the mapping before it is stored. There \<open>tc_seq\<close> may still be a
  \<open>bool\<close>, which is an \<open>int\<close> for Python and for SQLite but not for \<open>json.dumps\<close>.
\<close>

definition unsaved_member :: "bool \<Rightarrow> pystr \<times> json \<Rightarrow> pystr \<times> json" where
  "unsaved_member b m = (if fst m = str_lit ''tc_seq'' then (fst m, JBool b) else m)"

definition unsaved_entry_hash :: "bool option \<Rightarrow> row \<Rightarrow> exn + pystr" where
  "unsaved_entry_hash seq r =
     (case seq of
        None \<Rightarrow> compute_entry_hash r
      | Some b \<Rightarrow>
          (let d = map (unsaved_member b) (row_dict r);
               payload = map (\<lambda>name. (name, dict_get d name)) CHAINED_FIELDS
           in rbind (rbind (dumps (JObj payload)) utf8_encode) (\<lambda>bytes. Inr (sha256_hex bytes))))"

section \<open>The serialisation determines the chained fields\<close>

definition chained_members :: "row \<Rightarrow> (pystr \<times> json) list" where
  "chained_members r = butlast (row_dict r)"

lemma row_keys: "map fst (row_dict r) = CHAINED_FIELDS @ [str_lit ''entry_hash'']"
  by (simp add: row_dict_def CHAINED_FIELDS_def)

lemma distinct_row_keys: "distinct (map fst (row_dict r))"
  by (simp add: row_keys CHAINED_FIELDS_def str_lit_def)

lemma map_dict_get: "distinct (map fst d) \<Longrightarrow> map (\<lambda>k. (k, dict_get d k)) (map fst d) = d"
  by (auto simp: dict_get_def intro!: map_idI)

lemma dict_ext:
  fixes d e :: "(pystr \<times> json) list"
  assumes "map_of d = map_of e" and "map fst d = map fst e" and "distinct (map fst d)"
  shows "d = e"
proof -
  have "dict_get d = dict_get e" by (rule ext) (simp add: dict_get_def assms(1))
  then show ?thesis
    using map_dict_get [OF assms(3)] map_dict_get [of e] assms(2,3) by simp
qed

lemma payload_members:
  "map (\<lambda>name. (name, dict_get (row_dict r) name)) CHAINED_FIELDS = chained_members r"
proof -
  have "CHAINED_FIELDS = butlast (map fst (row_dict r))" by (simp add: row_keys)
  then show ?thesis
    using map_dict_get [OF distinct_row_keys [of r]]
    by (metis chained_members_def map_butlast)
qed

lemma sort_keys_atom: "sort_keys (opt_str v) = opt_str v" "sort_keys (opt_int i) = opt_int i"
  by (cases v; simp add: opt_str_def) (cases i; simp add: opt_int_def)

lemma no_float_atom: "no_float (opt_str v)" "no_float (opt_int i)"
  by (cases v; simp add: opt_str_def) (cases i; simp add: opt_int_def)

lemma opt_atom_inject: "opt_str v = opt_str w \<longleftrightarrow> v = w" "opt_int i = opt_int j \<longleftrightarrow> i = j"
  by (auto simp: opt_str_def opt_int_def split: option.splits)

lemma members_of_sorted:
  assumes "sort_keys_members ms = sort_keys_members ns" and "map fst ms = map fst ns"
    and "distinct (map fst ms)"
  shows "map (\<lambda>m. (fst m, sort_keys (snd m))) ms = map (\<lambda>m. (fst m, sort_keys (snd m))) ns"
proof -
  let ?f = "\<lambda>m :: pystr \<times> json. (fst m, sort_keys (snd m))"
  have keys: "map fst (map ?f ms) = map fst ms" "map fst (map ?f ns) = map fst ns"
    by simp_all
  have "set (map ?f ms) = set (map ?f ns)"
    using assms(1) set_sort_keys_members by (metis set_map)
  moreover have "distinct (map fst (map ?f ms))" "distinct (map fst (map ?f ns))"
    using assms(2,3) by (simp_all only: keys)
  ultimately have "map_of (map ?f ms) = map_of (map ?f ns)"
    by (simp only: map_of_inject_set)
  then show ?thesis
    by (rule dict_ext) (use assms(2,3) keys in simp_all)
qed

lemma chained_members_inject:
  "map (\<lambda>m. (fst m, sort_keys (snd m))) (chained_members r) =
     map (\<lambda>m. (fst m, sort_keys (snd m))) (chained_members r') \<Longrightarrow>
   r\<lparr>r_entry_hash := h\<rparr> = r'\<lparr>r_entry_hash := h\<rparr>"
  by (cases r; cases r') (simp add: chained_members_def row_dict_def sort_keys_atom opt_atom_inject)

lemma canonical_bytes_Inr: "canonical_bytes r = Inr b \<longleftrightarrow>
    (\<exists>t. dumps (JObj (chained_members r)) = Inr t \<and> utf8_encode t = Inr b)"
  by (simp add: canonical_bytes_def Let_def payload_members rbind_eq_Inr)

lemma chained_members_no_float: "no_float (JObj (chained_members r))"
  by (simp add: chained_members_def row_dict_def no_float_atom)

lemma canonical_bytes_inject:
  assumes "canonical_bytes r = Inr b" and "canonical_bytes r' = Inr b"
  shows "r\<lparr>r_entry_hash := h\<rparr> = r'\<lparr>r_entry_hash := h\<rparr>"
proof -
  obtain t where "dumps (JObj (chained_members r)) = Inr t" "utf8_encode t = Inr b"
    using assms(1) canonical_bytes_Inr by blast
  moreover obtain t' where "dumps (JObj (chained_members r')) = Inr t'" "utf8_encode t' = Inr b"
    using assms(2) canonical_bytes_Inr by blast
  ultimately have "sort_keys_members (chained_members r) = sort_keys_members (chained_members r')"
    using dumps_inject [OF _ _ chained_members_no_float chained_members_no_float] utf8.enc_inject
    by (metis json.inject(6) sort_keys.simps(2))
  moreover have "map fst (chained_members r) = CHAINED_FIELDS" for r
    by (simp add: chained_members_def map_butlast row_keys)
  moreover have "distinct CHAINED_FIELDS"
    using distinct_row_keys [of r] by (simp add: row_keys)
  ultimately show ?thesis by (intro chained_members_inject members_of_sorted) simp_all
qed

section \<open>The hash commits to the row\<close>

text \<open>Two different inputs with one digest.\<close>

definition sha256_collision :: "bytes \<Rightarrow> bytes \<Rightarrow> bool" where
  "sha256_collision x y \<longleftrightarrow> x \<noteq> y \<and> sha256 x = sha256 y"

text \<open>Values that a row of the database can hold: SQLite stores 64-bit integers and UTF-8.\<close>

definition storable_row :: "row \<Rightarrow> bool" where
  "storable_row r \<longleftrightarrow> json_ok_members (row_dict r)"

lemma compute_entry_hash_Inr: "compute_entry_hash r = Inr h \<longleftrightarrow>
    (\<exists>b. canonical_bytes r = Inr b \<and> h = sha256_hex b)"
  by (auto simp: compute_entry_hash_def rbind_eq_Inr)

lemma length_compute_entry_hash: "compute_entry_hash r = Inr h \<Longrightarrow> length h = 64"
  by (auto simp: compute_entry_hash_Inr)

lemma storable_chained: "storable_row r \<Longrightarrow> json_ok (JObj (chained_members r))"
  by (simp add: storable_row_def chained_members_def row_dict_def)

lemma canonical_bytes_ok: "storable_row r \<Longrightarrow> \<exists>b. canonical_bytes r = Inr b"
  using dumps_ok [OF storable_chained] utf8_encode_Inr
  by (metis canonical_bytes_Inr scalar_str_def)

lemma compute_entry_hash_ok: "storable_row r \<Longrightarrow> \<exists>h. compute_entry_hash r = Inr h"
  using canonical_bytes_ok [of r] by (auto simp: compute_entry_hash_Inr)

lemma chained_members_entry_hash: "chained_members (r\<lparr>r_entry_hash := h\<rparr>) = chained_members r"
  by (simp add: chained_members_def row_dict_def)

lemma canonical_bytes_entry_hash: "canonical_bytes (r\<lparr>r_entry_hash := h\<rparr>) = canonical_bytes r"
  by (simp add: canonical_bytes_def payload_members chained_members_entry_hash)

lemma compute_entry_hash_entry_hash [simp]:
  "compute_entry_hash (r\<lparr>r_entry_hash := h\<rparr>) = compute_entry_hash r"
  by (simp add: compute_entry_hash_def canonical_bytes_entry_hash)

lemma compute_entry_hash_commits:
  assumes "compute_entry_hash r = Inr h" and "compute_entry_hash r' = Inr h"
  shows "r\<lparr>r_entry_hash := h\<rparr> = r'\<lparr>r_entry_hash := h\<rparr> \<or>
    (\<exists>b b'. canonical_bytes r = Inr b \<and> canonical_bytes r' = Inr b' \<and> sha256_collision b b')"
proof -
  obtain b b' where b: "canonical_bytes r = Inr b" "canonical_bytes r' = Inr b'"
      "sha256_hex b = h" "sha256_hex b' = h"
    using assms by (auto simp: compute_entry_hash_Inr)
  show ?thesis
  proof (cases "b = b'")
    case True
    then show ?thesis using b canonical_bytes_inject by blast
  next
    case False
    then have "sha256_collision b b'"
      using b by (auto simp: sha256_collision_def sha256_hex_inject [symmetric])
    then show ?thesis using b by blast
  qed
qed

section \<open>Hashing before storing\<close>

lemma unsaved_keys [simp]: "map fst (map (unsaved_member b) ms) = map fst ms"
  by (simp add: unsaved_member_def)

lemma unsaved_payload:
  "map (\<lambda>name. (name, dict_get (map (unsaved_member b) (row_dict r)) name)) CHAINED_FIELDS =
     map (unsaved_member b) (chained_members r)"
proof -
  let ?d = "map (unsaved_member b) (row_dict r)"
  have "map (\<lambda>k. (k, dict_get ?d k)) (map fst ?d) = ?d"
    by (rule map_dict_get) (use distinct_row_keys [of r] in \<open>simp only: unsaved_keys\<close>)
  then have "map (\<lambda>k. (k, dict_get ?d k)) (butlast (map fst (row_dict r))) =
      map (unsaved_member b) (butlast (row_dict r))"
    unfolding map_butlast unsaved_keys by (rule arg_cong)
  moreover have "butlast (map fst (row_dict r)) = CHAINED_FIELDS" by (simp add: row_keys)
  ultimately show ?thesis unfolding chained_members_def by (simp only:)
qed

lemma unsaved_entry_hash_Some: "unsaved_entry_hash (Some b) r = Inr h \<longleftrightarrow>
    (\<exists>t bytes. dumps (JObj (map (unsaved_member b) (chained_members r))) = Inr t \<and>
       utf8_encode t = Inr bytes \<and> h = sha256_hex bytes)"
  unfolding unsaved_entry_hash_def Let_def option.case unsaved_payload by (auto simp: rbind_eq_Inr)

lemma unsaved_members_fine:
  "storable_row r \<Longrightarrow> json_ok (JObj (map (unsaved_member b) (chained_members r)))"
  "no_float (JObj (map (unsaved_member b) (chained_members r)))"
  by (simp_all add: storable_row_def chained_members_def row_dict_def unsaved_member_def no_float_atom)

lemma unsaved_entry_hash_ok: "storable_row r \<Longrightarrow> \<exists>h. unsaved_entry_hash seq r = Inr h"
proof (cases seq)
  case (Some b)
  assume "storable_row r"
  from dumps_ok [OF unsaved_members_fine(1) [OF this]] obtain t bytes where
    "dumps (JObj (map (unsaved_member b) (chained_members r))) = Inr t" "utf8_encode t = Inr bytes"
    using utf8_encode_Inr by (metis scalar_str_def)
  then show ?thesis unfolding Some unsaved_entry_hash_Some by blast
qed (simp add: unsaved_entry_hash_def compute_entry_hash_ok)

lemma unsaved_entry_hash_hex:
  "unsaved_entry_hash seq r = Inr h \<Longrightarrow> \<exists>bytes. h = sha256_hex bytes"
  by (cases seq) (auto simp: unsaved_entry_hash_def compute_entry_hash_Inr rbind_eq_Inr Let_def)

text \<open>
  The text with a JSON boolean in place of the stored integer is another text, so the
  two hashes agree only in a collision.
\<close>

lemma unsaved_entry_hash_differs:
  assumes "unsaved_entry_hash (Some b) r = Inr h" and "compute_entry_hash r = Inr h"
    and "r_tc_seq r = Some i"
  shows "\<exists>x y. canonical_bytes r = Inr x \<and> sha256_collision x y"
proof -
  from assms(1) obtain t y where t: "dumps (JObj (map (unsaved_member b) (chained_members r))) = Inr t"
    "utf8_encode t = Inr y" "h = sha256_hex y"
    unfolding unsaved_entry_hash_Some by blast
  from assms(2) obtain x s where x: "canonical_bytes r = Inr x" "h = sha256_hex x"
    "dumps (JObj (chained_members r)) = Inr s" "utf8_encode s = Inr x"
    using canonical_bytes_Inr by (auto simp: compute_entry_hash_Inr)
  have "x \<noteq> y"
  proof
    assume "x = y"
    then have "s = t" using utf8.enc_inject x(4) t(2) by blast
    then have "sort_keys_members (map (unsaved_member b) (chained_members r)) =
        sort_keys_members (chained_members r)"
      using dumps_inject [OF _ _ unsaved_members_fine(2) chained_members_no_float] t(1) x(3)
      by (metis json.inject(6) sort_keys.simps(2))
    moreover have "map fst (chained_members r) = CHAINED_FIELDS"
      by (simp add: chained_members_def map_butlast row_keys)
    moreover have "distinct CHAINED_FIELDS"
      using distinct_row_keys [of r] by (simp add: row_keys)
    ultimately have "map (\<lambda>m. (fst m, sort_keys (snd m))) (map (unsaved_member b) (chained_members r)) =
        map (\<lambda>m. (fst m, sort_keys (snd m))) (chained_members r)"
      by (intro members_of_sorted) (simp_all only: unsaved_keys)
    then show False
      using assms(3) by (simp add: chained_members_def row_dict_def unsaved_member_def opt_int_def)
  qed
  then have "sha256_collision x y"
    using t(3) x(2) by (auto simp: sha256_collision_def sha256_hex_inject [symmetric])
  then show ?thesis using x(1) by blast
qed

section \<open>The properties\<close>

definition example_row :: row where
  "example_row = \<lparr>r_activity_id = str_lit ''a-1'', r_chain_index = 0,
     r_agent_did = str_lit ''did:key:z6Mk'', r_activity_type = str_lit ''note'', r_task_id = None,
     r_ref_activity_id = None, r_tc_room = Some (str_lit ''lobby''), r_tc_seq = None,
     r_tc_nonce = Some 7, r_signed_payload_hash = None, r_signature = None, r_result_hash = None,
     r_provider_id = None, r_model = None, r_cost_amount = None, r_cost_unit = str_lit ''NONE'',
     r_occurred_at = str_lit ''2026'', r_recorded_at = str_lit ''2026'',
     r_meta_json = Some (str_lit ''{}''), r_prev_hash = GENESIS_PREV_HASH,
     r_entry_hash = []\<rparr>"

lemma storable_example: "storable_row example_row"
  by (simp add: storable_row_def example_row_def row_dict_def str_lit_def is_scalar_ascii
      opt_str_def opt_int_def int64_ok_def GENESIS_PREV_HASH_def scalar_str_def)

text \<open>
  The canonical bytes of a ledger row determine every chained field: two rows
  with the same bytes differ at most in \<open>entry_hash\<close>, the one column that is
  excluded, whatever their strings contain (quotes, control characters,
  separators) and whichever columns are \<open>NULL\<close>.
\<close>

theorem canonical_bytes_determine_the_row:
  assumes "canonical_bytes r = Inr b"
  shows "canonical_bytes r' = Inr b \<longleftrightarrow> r'\<lparr>r_entry_hash := h\<rparr> = r\<lparr>r_entry_hash := h\<rparr>"
proof
  assume "r'\<lparr>r_entry_hash := h\<rparr> = r\<lparr>r_entry_hash := h\<rparr>"
  then have "canonical_bytes r' = canonical_bytes r" by (metis canonical_bytes_entry_hash)
  then show "canonical_bytes r' = Inr b" using assms by simp
qed (rule canonical_bytes_inject [OF _ assms])

theorem canonical_bytes_determine_the_row_witness:
  "\<exists>b. canonical_bytes example_row = Inr b \<and>
     (canonical_bytes (example_row\<lparr>r_tc_nonce := Some 8\<rparr>) = Inr b \<longleftrightarrow> False)"
proof -
  obtain b where b: "canonical_bytes example_row = Inr b"
    using canonical_bytes_ok [OF storable_example] by blast
  then show ?thesis
    using canonical_bytes_determine_the_row [OF b, of "example_row\<lparr>r_tc_nonce := Some 8\<rparr>" "[]"]
    by (simp add: example_row_def)
qed

text \<open>
  \<open>entry_hash\<close> is total on the values SQLite stores, is 64 hexadecimal digits
  as the schema demands, does not depend on the stored \<open>entry_hash\<close>, and commits to
  the row: another row with the same hash agrees on all chained fields, or the two
  serialisations are a collision of SHA-256.
\<close>

theorem entry_hash_commits_to_the_row:
  assumes "storable_row r"
  shows "\<exists>h. compute_entry_hash r = Inr h \<and> length h = 64 \<and>
    (\<forall>c \<in> set h. in_ranges [(48, 57), (97, 102)] c) \<and>
    (\<forall>x. compute_entry_hash (r\<lparr>r_entry_hash := x\<rparr>) = Inr h) \<and>
    (\<forall>r'. compute_entry_hash r' = Inr h \<longrightarrow>
       r'\<lparr>r_entry_hash := h\<rparr> = r\<lparr>r_entry_hash := h\<rparr> \<or>
       (\<exists>b b'. canonical_bytes r' = Inr b \<and> canonical_bytes r = Inr b' \<and> sha256_collision b b'))"
proof -
  obtain h where h: "compute_entry_hash r = Inr h" using compute_entry_hash_ok [OF assms] by blast
  moreover have "\<forall>c \<in> set h. in_ranges [(48, 57), (97, 102)] c"
    using h set_hex_bytes by (auto simp: compute_entry_hash_Inr sha256_hex_def)
  ultimately show ?thesis
    using length_compute_entry_hash compute_entry_hash_commits [OF _ h] by auto
qed

theorem entry_hash_commits_to_the_row_witness:
  "\<exists>h. compute_entry_hash example_row = Inr h \<and> length h = 64"
  using entry_hash_commits_to_the_row [OF storable_example] by blast

end
