(* ===== verification/Db.thy ===== *)
theory Db
  imports HashChain
begin

text \<open>
  \<open>storage/db.py\<close>: the ledger database as the program uses it. A state is the
  contents of the tables together with the condition of the write lock; a
  statement of the program is a function from states to an exception or value and the next
  state. The schema's constraints and append-only triggers are part of the
  statements.
\<close>

section \<open>State\<close>

definition MAX_STORABLE_NONCE :: int where
  "MAX_STORABLE_NONCE = 2 ^ 63 - 1"

text \<open>
  The rows of \<open>activities\<close> in insertion order; the table \<open>nonces\<close> keyed by its primary
  key; the versions in \<open>schema_migrations\<close>. \<open>locked\<close> holds when another connection
  keeps the write lock for longer than \<open>busy_timeout\<close>.
\<close>

record db =
  activities :: "row list"
  nonces :: "pystr \<times> pystr \<Rightarrow> int option"
  migrations :: "nat list"
  locked :: bool

type_synonym 'a dbop = "db \<Rightarrow> (exn + 'a) \<times> db"

definition empty_db :: db where
  "empty_db = \<lparr>activities = [], nonces = (\<lambda>_. None), migrations = [1], locked = False\<rparr>"

section \<open>Transactions\<close>

text \<open>
  \<open>immediate\<close>: take the write lock, run the block, roll back on an exception and
  commit otherwise.
\<close>

definition immediate :: "'a dbop \<Rightarrow> 'a dbop" where
  "immediate body d =
     (if locked d then (Inl (OperationalError DatabaseLocked), d)
      else case body d of
        (Inl e, d') \<Rightarrow> (Inl e, d)
      | (Inr x, d') \<Rightarrow> (Inr x, d'))"

lemma immediate_rolls_back: "immediate body d = (Inl e, d') \<Longrightarrow> d' = d"
  by (auto simp: immediate_def split: if_splits prod.splits sum.splits)

lemma immediate_Inr: "immediate body d = (Inr x, d') \<longleftrightarrow> \<not> locked d \<and> body d = (Inr x, d')"
  by (auto simp: immediate_def split: prod.splits sum.splits)

section \<open>Statements on activities\<close>

text \<open>Binding a Python value to a statement: integers must fit 64 bits, text must be UTF-8.\<close>

definition bind_int :: "int \<Rightarrow> exn + unit" where
  "bind_int i = unless_raise (int64_ok i) OverflowError"

definition bind_text :: "pystr \<Rightarrow> exn + unit" where
  "bind_text s = unless_raise (scalar_str s) UnicodeEncodeError"

definition bind_json :: "json \<Rightarrow> exn + unit" where
  "bind_json j = (case j of JInt i \<Rightarrow> bind_int i | JStr s \<Rightarrow> bind_text s | _ \<Rightarrow> Inr ())"

fun bind_all :: "json list \<Rightarrow> exn + unit" where
  "bind_all [] = Inr ()"
| "bind_all (j # js) = rbind (bind_json j) (\<lambda>_. bind_all js)"

definition bind_row :: "row \<Rightarrow> exn + unit" where
  "bind_row r = bind_all (map snd (row_dict r))"

definition VALID_COST_UNITS :: "pystr list" where
  "VALID_COST_UNITS = map str_lit [''NONE'', ''FLOP_TEST'', ''USD'']"

definition row_checks :: "row \<Rightarrow> bool" where
  "row_checks r \<longleftrightarrow> r_cost_unit r \<in> set VALID_COST_UNITS \<and> length (r_entry_hash r) = 64 \<and>
     length (r_prev_hash r) = 64 \<and> 0 \<le> r_chain_index r"

definition unique_ok :: "row \<Rightarrow> row list \<Rightarrow> bool" where
  "unique_ok r rows \<longleftrightarrow> (\<forall>q \<in> set rows. r_activity_id q \<noteq> r_activity_id r \<and>
     r_chain_index q \<noteq> r_chain_index r \<and> r_entry_hash q \<noteq> r_entry_hash r)"

definition ref_ok :: "row \<Rightarrow> row list \<Rightarrow> bool" where
  "ref_ok r rows \<longleftrightarrow> (case r_ref_activity_id r of None \<Rightarrow> True
     | Some i \<Rightarrow> i = r_activity_id r \<or> i \<in> r_activity_id ` set rows)"

definition insert_activity :: "row \<Rightarrow> unit dbop" where
  "insert_activity r d =
     (let rows = activities d in
      case rbind (bind_row r) (\<lambda>_.
           rbind (unless_raise (row_checks r) (IntegrityError CheckViolation)) (\<lambda>_.
           rbind (unless_raise (unique_ok r rows) (IntegrityError UniqueViolation)) (\<lambda>_.
           unless_raise (ref_ok r rows) (IntegrityError ForeignKeyViolation)))) of
        Inl e \<Rightarrow> (Inl e, d)
      | Inr _ \<Rightarrow> (Inr (), d\<lparr>activities := rows @ [r]\<rparr>))"

text \<open>The triggers abort any update or deletion that reaches a row.\<close>

definition update_activities :: "(row \<Rightarrow> bool) \<Rightarrow> (row \<Rightarrow> row) \<Rightarrow> unit dbop" where
  "update_activities hit change d =
     (if \<exists>r \<in> set (activities d). hit r then (Inl (IntegrityError AppendOnlyTrigger), d)
      else (Inr (), d\<lparr>activities := map (\<lambda>r. if hit r then change r else r) (activities d)\<rparr>))"

definition delete_activities :: "(row \<Rightarrow> bool) \<Rightarrow> unit dbop" where
  "delete_activities hit d =
     (if \<exists>r \<in> set (activities d). hit r then (Inl (IntegrityError AppendOnlyTrigger), d)
      else (Inr (), d\<lparr>activities := filter (\<lambda>r. \<not> hit r) (activities d)\<rparr>))"

text \<open>\<open>ORDER BY chain_index ASC\<close>, and the row with the largest index.\<close>

definition select_ordered :: "db \<Rightarrow> row list" where
  "select_ordered d = sort_key r_chain_index (activities d)"

definition select_head :: "db \<Rightarrow> row option" where
  "select_head d = (case rev (select_ordered d) of [] \<Rightarrow> None | r # _ \<Rightarrow> Some r)"

definition select_by_id :: "pystr \<Rightarrow> db \<Rightarrow> row option" where
  "select_by_id i d = List.find (\<lambda>r. r_activity_id r = i) (activities d)"

section \<open>Statements on nonces\<close>

definition select_nonce :: "pystr \<Rightarrow> pystr \<Rightarrow> (int option) dbop" where
  "select_nonce agent scope d =
     (case rbind (bind_text agent) (\<lambda>_. bind_text scope) of
        Inl e \<Rightarrow> (Inl e, d) | Inr _ \<Rightarrow> (Inr (nonces d (agent, scope)), d))"

definition upsert_nonce :: "pystr \<Rightarrow> pystr \<Rightarrow> int \<Rightarrow> unit dbop" where
  "upsert_nonce agent scope n d =
     (case rbind (bind_text agent) (\<lambda>_. rbind (bind_text scope) (\<lambda>_. rbind (bind_int n) (\<lambda>_.
           unless_raise (0 \<le> n) (IntegrityError CheckViolation)))) of
        Inl e \<Rightarrow> (Inl e, d)
      | Inr _ \<Rightarrow> (Inr (), d\<lparr>nonces := (nonces d)((agent, scope) \<mapsto> n)\<rparr>))"

section \<open>What the schema guarantees\<close>

text \<open>The invariant of the table: the constraints hold of its rows, pairwise and each.\<close>

fun rows_ok :: "row list \<Rightarrow> bool" where
  "rows_ok [] = True"
| "rows_ok (r # earlier) = (row_checks r \<and> storable_row r \<and> unique_ok r earlier \<and>
     ref_ok r earlier \<and> rows_ok earlier)"

definition nonces_ok :: "(pystr \<times> pystr \<Rightarrow> int option) \<Rightarrow> bool" where
  "nonces_ok m \<longleftrightarrow> (\<forall>k n. m k = Some n \<longrightarrow> 0 \<le> n \<and> n \<le> MAX_STORABLE_NONCE)"

definition db_ok :: "db \<Rightarrow> bool" where
  "db_ok d \<longleftrightarrow> rows_ok (rev (activities d)) \<and> nonces_ok (nonces d)"

lemma bind_json_ok: "bind_json j = Inr u \<Longrightarrow> j \<in> {JNull} \<union> range JInt \<union> range JStr \<Longrightarrow> json_ok j"
  by (auto simp: bind_json_def bind_int_def bind_text_def)

lemma bind_all_Inr: "bind_all js = Inr u \<longleftrightarrow> (\<forall>j \<in> set js. bind_json j = Inr ())"
  by (induction js) (auto simp: rbind_eq_Inr)

lemma json_ok_members_iff:
  "json_ok_members ms \<longleftrightarrow> (\<forall>m \<in> set ms. scalar_str (fst m) \<and> json_ok (snd m))"
  by (induction ms) auto

lemma opt_atom_values: "opt_str v \<in> {JNull} \<union> range JInt \<union> range JStr"
  "opt_int i \<in> {JNull} \<union> range JInt \<union> range JStr"
  by (auto simp: opt_str_def opt_int_def split: option.splits)

lemma row_values: "j \<in> snd ` set (row_dict r) \<Longrightarrow> j \<in> {JNull} \<union> range JInt \<union> range JStr"
  using opt_atom_values by (auto simp only: row_dict_def image_insert list.set snd_conv image_empty)

lemma row_names: "\<forall>m \<in> set (row_dict r). scalar_str (fst m)"
  by (simp add: row_dict_def str_lit_def is_scalar_ascii)

lemma bind_row_storable: "bind_row r = Inr u \<longleftrightarrow> storable_row r"
proof
  assume "bind_row r = Inr u"
  then show "storable_row r"
    using bind_json_ok row_values row_names
    by (fastforce simp: storable_row_def bind_row_def bind_all_Inr json_ok_members_iff)
next
  assume "storable_row r"
  then have "bind_json (snd m) = Inr ()" if "m \<in> set (row_dict r)" for m
    using that row_values [of "snd m" r]
    by (auto simp: storable_row_def json_ok_members_iff bind_json_def bind_int_def bind_text_def
        split: json.splits)
  then show "bind_row r = Inr u" by (simp add: bind_row_def bind_all_Inr)
qed

lemma insert_activity_Inr: "insert_activity r d = (Inr u, d') \<longleftrightarrow>
    storable_row r \<and> row_checks r \<and> unique_ok r (activities d) \<and> ref_ok r (activities d) \<and>
    d' = d\<lparr>activities := activities d @ [r]\<rparr>"
  using bind_row_storable [of r]
  by (auto simp: insert_activity_def Let_def rbind_eq_Inr split: sum.splits)

lemma insert_activity_Inl: "insert_activity r d = (Inl e, d') \<Longrightarrow> d' = d"
  by (auto simp: insert_activity_def Let_def split: sum.splits)

lemma constraints_rev [simp]: "unique_ok r (rev rows) = unique_ok r rows"
    "ref_ok r (rev rows) = ref_ok r rows"
  by (simp_all add: unique_ok_def ref_ok_def cong: option.case_cong)

lemma insert_activity_db_ok: "db_ok d \<Longrightarrow> insert_activity r d = (Inr u, d') \<Longrightarrow> db_ok d'"
  by (simp add: insert_activity_Inr db_ok_def)

lemma upsert_nonce_Inr: "upsert_nonce agent scope n d = (Inr u, d') \<longleftrightarrow>
    scalar_str agent \<and> scalar_str scope \<and> int64_ok n \<and> 0 \<le> n \<and>
    d' = d\<lparr>nonces := (nonces d)((agent, scope) \<mapsto> n)\<rparr>"
  by (auto simp: upsert_nonce_def bind_text_def bind_int_def rbind_eq_Inr rbind_eq_Inl
      unless_raise_def split: sum.splits if_splits)

lemma upsert_nonce_db_ok: "db_ok d \<Longrightarrow> upsert_nonce agent scope n d = (Inr u, d') \<Longrightarrow> db_ok d'"
  by (auto simp: upsert_nonce_Inr db_ok_def nonces_ok_def int64_ok_def MAX_STORABLE_NONCE_def)

end
