(* ===== verification/SecretScan.thy ===== *)
theory SecretScan
  imports Regex "HOL-Library.Sublist"
begin

text \<open>
  \<open>tools/secret_scan.py\<close> and \<open>tools/block_key_files.py\<close>: the rules, the scan of
  a text and of a file name. The ledger runs every string it stores through
  \<open>scan_text\<close>.
\<close>

section \<open>Rules\<close>

record Rule =
  rule_id :: pystr
  pattern :: regex
  rule_note :: pystr

definition upper :: "(nat \<times> nat) list" where "upper = [(65, 90)]"
definition lower :: "(nat \<times> nat) list" where "lower = [(97, 122)]"
definition digits :: "(nat \<times> nat) list" where "digits = [(48, 57)]"
definition alnum :: "(nat \<times> nat) list" where "alnum = upper @ lower @ digits"
definition token_chars :: "(nat \<times> nat) list" where "token_chars = alnum @ [(95, 95), (45, 45)]"

definition quote_mark :: regex where "quote_mark = Chr (\<lambda>c. c = 34)"
definition spaces :: regex where "spaces = many (Chr isspace)"
definition any_char :: regex where "any_char = Chr (\<lambda>_. True)"

definition pem_private_key_block :: regex where
  "pem_private_key_block =
     seqs [lit ''-----BEGIN '',
           opt (Seq (many1 (ranges (upper @ digits @ [(32, 32)]))) (lit '' '')),
           lit ''PRIVATE KEY-----'']"

definition openssh_private_key :: regex where
  "openssh_private_key = lit ''b3BlbnNzaC1rZXktdjE''"

definition jwk_kty :: regex where
  "jwk_kty = seqs [quote_mark, lit ''kty'', quote_mark, spaces, lit '':'', spaces, quote_mark,
     alts [lit ''OKP'', lit ''EC'', lit ''RSA''], quote_mark]"

definition jwk_d :: regex where
  "jwk_d = seqs [quote_mark, lit ''d'', quote_mark, spaces, lit '':'', spaces, quote_mark,
     at_least 20 (ranges token_chars), quote_mark]"

definition jwk_private_params :: regex where
  "jwk_private_params = seqs [jwk_kty, lazy_upto 400 any_char, jwk_d]"

definition jwk_private_params_reversed :: regex where
  "jwk_private_params_reversed = seqs [jwk_d, lazy_upto 400 any_char, jwk_kty]"

definition seed_line :: "nat \<Rightarrow> regex" where
  "seed_line n =
     seqs [line_start, many (Chr (\<lambda>c. c = 32 \<or> c = 9)),
           exactly n (Seq (between 3 8 (ranges lower)) (lit '' '')), between 3 8 (ranges lower),
           many (Chr (\<lambda>c. c = 32 \<or> c = 9)), line_end]"

definition seed_mnemonic_phrase :: regex where
  "seed_mnemonic_phrase = Alt (seed_line 11) (seed_line 23)"

definition apikey_openai :: regex where
  "apikey_openai =
     seqs [not_behind (in_ranges alnum), lit ''sk-'', at_least 20 (ranges token_chars)]"

definition apikey_anthropic :: regex where
  "apikey_anthropic = seqs [lit ''sk-ant-'', at_least 20 (ranges token_chars)]"

definition apikey_github :: regex where
  "apikey_github =
     seqs [lit ''gh'', ranges [(112, 112), (111, 111), (117, 117), (115, 115), (114, 114)],
           lit ''_'', at_least 30 (ranges alnum)]"

definition apikey_aws :: regex where
  "apikey_aws =
     seqs [not_behind (in_ranges (upper @ digits)), lit ''AKIA'',
           exactly 16 (ranges (digits @ upper)), not_ahead (in_ranges (digits @ upper))]"

definition passphrase_assignment :: regex where
  "passphrase_assignment =
     seqs [word_boundary,
           alts [lit_i ''passphrase'', lit_i ''password'', lit_i ''secret'', lit_i ''private_key'',
                 lit_i ''seed_phrase'', lit_i ''mnemonic''],
           word_boundary, spaces, Chr (\<lambda>c. c = 58 \<or> c = 61), spaces,
           Chr (\<lambda>c. c = 34 \<or> c = 39), at_least 8 (Chr (\<lambda>c. c \<noteq> 34 \<and> c \<noteq> 39 \<and> c \<noteq> 10)),
           Chr (\<lambda>c. c = 34 \<or> c = 39)]"

definition mk_rule :: "string \<Rightarrow> regex \<Rightarrow> string \<Rightarrow> Rule" where
  "mk_rule i p n = \<lparr>rule_id = str_lit i, pattern = p, rule_note = str_lit n\<rparr>"

definition jwk_note :: string where
  "jwk_note = ''JWK containing a private '' @ [CHR 0x27] @ ''d'' @ [CHR 0x27] @ '' parameter''"

definition RULES :: "Rule list" where
  "RULES =
    [mk_rule ''pem.private-key-block'' pem_private_key_block ''PEM private key block'',
     mk_rule ''openssh.private-key'' openssh_private_key ''OpenSSH private key body'',
     mk_rule ''jwk.private-params'' jwk_private_params jwk_note,
     mk_rule ''jwk.private-params-reversed'' jwk_private_params_reversed jwk_note,
     mk_rule ''seed.mnemonic-phrase'' seed_mnemonic_phrase ''possible BIP39 mnemonic (12/24 words)'',
     mk_rule ''apikey.openai'' apikey_openai ''OpenAI-style API key'',
     mk_rule ''apikey.anthropic'' apikey_anthropic ''Anthropic API key'',
     mk_rule ''apikey.github'' apikey_github ''GitHub token'',
     mk_rule ''apikey.aws'' apikey_aws ''AWS access key id'',
     mk_rule ''passphrase.assignment'' passphrase_assignment ''hardcoded passphrase/secret assignment'']"

definition ALLOW_MARKER :: pystr where
  "ALLOW_MARKER = str_lit ''flopoffice:allow-secret-pattern''"

section \<open>Scanning a text\<close>

record Finding =
  f_path :: pystr
  f_line :: nat
  f_rule_id :: pystr
  f_note :: pystr

text \<open>\<open>str.splitlines()\<close> breaks at more characters than the newline.\<close>

definition line_break :: "nat \<Rightarrow> bool" where
  "line_break c \<longleftrightarrow> in_ranges [(10, 13), (0x1C, 0x1E), (0x85, 0x85), (0x2028, 0x2029)] c"

fun lines_from :: "pystr \<Rightarrow> pystr \<Rightarrow> pystr list" where
  "lines_from cur [] = (if cur = [] then [] else [rev cur])"
| "lines_from cur (c # s) =
     (if c = 13 \<and> s \<noteq> [] \<and> hd s = 10 then rev cur # lines_from [] (tl s)
      else if line_break c then rev cur # lines_from [] s
      else lines_from (c # cur) s)"

definition splitlines :: "pystr \<Rightarrow> pystr list" where
  "splitlines s = lines_from [] s"

definition line_no :: "cursor \<Rightarrow> nat" where
  "line_no c = count_list (fst c) 10 + 1"

definition line_at :: "pystr list \<Rightarrow> nat \<Rightarrow> pystr" where
  "line_at lines n = (if n \<le> length lines then lines ! (n - 1) else [])"

definition scan_rule :: "pystr \<Rightarrow> pystr list \<Rightarrow> pystr \<Rightarrow> Rule \<Rightarrow> Finding list" where
  "scan_rule path lines text rule =
     concat (map (\<lambda>m.
       let n = line_no (fst m) in
       if sublist ALLOW_MARKER (line_at lines n) then []
       else [\<lparr>f_path = path, f_line = n, f_rule_id = rule_id rule, f_note = rule_note rule\<rparr>])
     (finditer (pattern rule) ([], text)))"

definition scan_text :: "pystr \<Rightarrow> pystr \<Rightarrow> Finding list" where
  "scan_text text path = concat (map (scan_rule path (splitlines text) text) RULES)"

section \<open>Scanning a file name\<close>

definition slash_or_start :: regex where
  "slash_or_start = Alt text_start (Chr (\<lambda>c. c = 47))"

definition not_slash :: regex where "not_slash = Chr (\<lambda>c. c \<noteq> 47)"

definition file_private_key :: regex where
  "file_private_key =
     seqs [many (Chr (\<lambda>c. c \<noteq> 10)), lit ''.'',
           alts (map lit_i [''pem'', ''key'', ''jwk'', ''p8'', ''pk8'', ''p12'', ''pfx'', ''keystore'']),
           text_end]"

definition file_keystore :: regex where
  "file_keystore =
     seqs ([slash_or_start,
            alts (map lit_i [''keystore'', ''identity.pem'', ''id_ed25519'', ''id_rsa'']),
            many not_slash, text_end] @
           map not_after_i [''.py'', ''.pyi'', ''.md'', ''.txt'', ''.rst'', ''.toml'', ''.yaml'',
             ''.yml'', ''.json'', ''.cfg'', ''.ini''])"

definition file_dotenv :: regex where
  "file_dotenv =
     seqs [slash_or_start, lit ''.env'', opt (Seq (lit ''.'') (many1 not_slash)), text_end]"

definition FORBIDDEN_NAME_PATTERNS :: "(pystr \<times> regex) list" where
  "FORBIDDEN_NAME_PATTERNS =
     [(str_lit ''file.private-key'', file_private_key), (str_lit ''file.keystore'', file_keystore),
      (str_lit ''file.dotenv'', file_dotenv)]"

definition FORBIDDEN_NAME_ALLOW :: regex where
  "FORBIDDEN_NAME_ALLOW = seqs [slash_or_start, lit ''.env.example'', text_end]"

definition scan_name :: "pystr \<Rightarrow> Finding list" where
  "scan_name rel_path =
     (if search FORBIDDEN_NAME_ALLOW rel_path then []
      else concat (map (\<lambda>rp. if search (snd rp) rel_path
        then [\<lparr>f_path = rel_path, f_line = 0, f_rule_id = fst rp,
               f_note = str_lit ''secret-bearing filename must not be tracked''\<rparr>]
        else []) FORBIDDEN_NAME_PATTERNS))"

section \<open>Scanning a file\<close>

definition BINARY_SUFFIXES :: "pystr list" where
  "BINARY_SUFFIXES = map str_lit
    [''.png'', ''.jpg'', ''.jpeg'', ''.gif'', ''.pdf'', ''.zip'', ''.gz'', ''.tar'', ''.whl'', ''.so'',
     ''.dylib'', ''.dll'', ''.sqlite'', ''.sqlite3'', ''.db'', ''.ico'', ''.woff'', ''.woff2'',
     ''.ttf'', ''.otf'']"

text \<open>\<open>PurePath.suffix\<close> of a relative POSIX path: from the last dot of the name, not a leading or final one.\<close>

definition path_name :: "pystr \<Rightarrow> pystr" where
  "path_name p = rev (takeWhile (\<lambda>c. c \<noteq> 47) (rev p))"

definition path_suffix :: "pystr \<Rightarrow> pystr" where
  "path_suffix p =
     (let n = rev (path_name p); ext = takeWhile (\<lambda>c. c \<noteq> 46) n; stem = drop (length ext + 1) n
      in if ext = [] \<or> stem = [] \<or> 46 \<notin> set n then [] else 46 # rev ext)"

definition ascii_lower :: "nat \<Rightarrow> nat" where
  "ascii_lower c = (if 65 \<le> c \<and> c \<le> 90 then c + 32 else c)"

text \<open>The content is \<open>None\<close> when the file cannot be read or is not UTF-8.\<close>

definition scan_file :: "pystr \<Rightarrow> pystr option \<Rightarrow> Finding list" where
  "scan_file rel content =
     (let findings = scan_name rel in
      if map ascii_lower (path_suffix rel) \<in> set BINARY_SUFFIXES then findings
      else case content of None \<Rightarrow> findings | Some text \<Rightarrow> findings @ scan_text text rel)"

text \<open>
  The exit code of the file-name hook, over the normalised paths it is given.
\<close>

definition block_key_files_main :: "pystr list \<Rightarrow> nat" where
  "block_key_files_main argv = (if concat (map scan_name argv) = [] then 0 else 1)"

section \<open>What a scan finds\<close>

text \<open>A rule matches somewhere in a text.\<close>

definition matches_in :: "regex \<Rightarrow> pystr \<Rightarrow> bool" where
  "matches_in r text \<longleftrightarrow> (\<exists>u v. text = u @ v \<and> mt r (rev u, v) \<noteq> [])"

lemma lines_from_char: "l \<in> set (lines_from cur s) \<Longrightarrow>
    \<exists>u v. rev cur @ s = u @ l @ v"
proof (induction cur s rule: lines_from.induct)
  case (1 cur)
  then have "rev cur @ [] = [] @ l @ []" by (simp split: if_splits)
  then show ?case by blast
next
  case (2 cur c s)
  consider "c = 13 \<and> s \<noteq> [] \<and> hd s = 10" | "\<not> (c = 13 \<and> s \<noteq> [] \<and> hd s = 10)" "line_break c"
    | "\<not> (c = 13 \<and> s \<noteq> [] \<and> hd s = 10)" "\<not> line_break c" by blast
  then show ?case
  proof cases
    case 1
    then have "l = rev cur \<or> l \<in> set (lines_from [] (tl s))" using 2(4) by simp
    then show ?thesis
    proof
      assume "l = rev cur"
      then show ?thesis by (metis append_Nil)
    next
      assume "l \<in> set (lines_from [] (tl s))"
      then obtain u v where "tl s = u @ l @ v" using "2.IH"(1) [OF 1] by auto
      then have "s = hd s # u @ l @ v" using 1 by (metis list.collapse)
      then have "rev cur @ c # s = (rev cur @ [c, hd s] @ u) @ l @ v" by simp
      then show ?thesis by blast
    qed
  next
    case 2
    then have "l = rev cur \<or> l \<in> set (lines_from [] s)" using \<open>l \<in> set (lines_from cur (c # s))\<close> by auto
    then show ?thesis
    proof
      assume "l = rev cur"
      then show ?thesis by (metis append_Nil)
    next
      assume "l \<in> set (lines_from [] s)"
      then obtain u v where "s = u @ l @ v" using "2.IH"(2) [OF 2] by auto
      then have "rev cur @ c # s = (rev cur @ [c] @ u) @ l @ v" by simp
      then show ?thesis by blast
    qed
  next
    case 3
    then have "l \<in> set (lines_from (c # cur) s)" using \<open>l \<in> set (lines_from cur (c # s))\<close> by auto
    then show ?thesis using "2.IH"(3) [OF 3] by simp
  qed
qed

text \<open>Every line is a stretch of the text, so a text without the marker has no marked line.\<close>

lemma line_at_unmarked:
  assumes "\<not> sublist ALLOW_MARKER text"
  shows "\<not> sublist ALLOW_MARKER (line_at (splitlines text) (line_no c))"
proof
  assume s: "sublist ALLOW_MARKER (line_at (splitlines text) (line_no c))"
  then have "line_at (splitlines text) (line_no c) \<in> set (splitlines text)"
    by (auto simp: line_at_def line_no_def ALLOW_MARKER_def split: if_splits)
  then have "sublist (line_at (splitlines text) (line_no c)) text"
    using lines_from_char [of _ "[]" "text"] by (auto simp: splitlines_def sublist_def)
  then show False using s assms sublist_order.order_trans by blast
qed

lemma scan_rule_sound:
  assumes "f \<in> set (scan_rule path lines text rule)"
  shows "f_rule_id f = rule_id rule \<and> f_path f = path \<and>
    (\<exists>u v. text = u @ v \<and> mt (pattern rule) (rev u, v) \<noteq> [] \<and> f_line f = count_list u 10 + 1)"
proof -
  obtain m e where m: "(m, e) \<in> set (finditer (pattern rule) ([], text))"
      and f: "f = \<lparr>f_path = path, f_line = line_no m, f_rule_id = rule_id rule, f_note = rule_note rule\<rparr>"
    using assms by (fastforce simp: scan_rule_def Let_def split: if_splits)
  have "forward ([], text) m" "mt (pattern rule) m \<noteq> []"
    using finditer_sound [OF m] by auto
  then have "text = rev (fst m) @ snd m" "mt (pattern rule) (rev (rev (fst m)), snd m) \<noteq> []"
    using forward_text [of "([], text)" m] by simp_all
  then show ?thesis unfolding f line_no_def
    by (metis Finding.select_convs count_list_rev rev_rev_ident)
qed

lemma scan_rule_complete:
  assumes "matches_in (pattern rule) text" and "\<not> sublist ALLOW_MARKER text"
  shows "scan_rule path (splitlines text) text rule \<noteq> []"
proof -
  obtain u v where "text = u @ v" "mt (pattern rule) (rev u @ [], v) \<noteq> []"
    using assms(1) by (auto simp: matches_in_def)
  then have "finditer (pattern rule) ([], text) \<noteq> []" using finditer_nonempty by blast
  then show ?thesis
    using line_at_unmarked [OF assms(2)] by (auto simp: scan_rule_def Let_def neq_Nil_conv)
qed

lemma distinct_rule_ids: "distinct (map rule_id RULES)"
  by (simp add: RULES_def mk_rule_def str_lit_def)

lemma scan_rule_id: "f \<in> set (scan_rule path lines text rule) \<Longrightarrow> f_rule_id f = rule_id rule"
  using scan_rule_sound by blast

lemma rule_by_id: "r \<in> set RULES \<Longrightarrow> q \<in> set RULES \<Longrightarrow> rule_id r = rule_id q \<Longrightarrow> r = q"
  using distinct_rule_ids by (simp add: distinct_map inj_on_def)

section \<open>Matching single characters repeatedly\<close>

lemma mt_chr_step: "p x \<Longrightarrow> mt (Chr p) (b, x # a) = [(x # b, a)]"
  by simp

lemma iterate_chars:
  "list_all p w \<Longrightarrow> length w \<le> hi \<Longrightarrow>
     (rev w @ b, a) \<in> set (iterate g 0 hi (mt (Chr p)) (b, w @ a))"
proof (induction w arbitrary: b hi)
  case Nil
  then show ?case by (cases hi) (auto simp: Let_def simp del: mt.simps)
next
  case (Cons x w)
  then obtain hi' where hi: "hi = Suc hi'" by (cases hi) auto
  then have "(rev w @ x # b, a) \<in> set (iterate g 0 hi' (mt (Chr p)) (x # b, w @ a))"
    using Cons by (simp del: mt.simps)
  then show ?case using Cons.prems(1)
    by (cases g) (simp_all add: hi Let_def mt_chr_step del: mt.simps)
qed

lemma iterate_chars_at_least:
  "list_all p w \<Longrightarrow> lo \<le> length w \<Longrightarrow> length w \<le> lo + hi \<Longrightarrow>
     (rev w @ b, a) \<in> set (iterate g lo hi (mt (Chr p)) (b, w @ a))"
proof (induction lo arbitrary: b w)
  case 0
  then show ?case by (simp add: iterate_chars del: mt.simps)
next
  case (Suc lo)
  then obtain x w' where w: "w = x # w'" by (cases w) auto
  then show ?case using Suc.IH [of w' "x # b"] Suc.prems
    by (simp add: mt_chr_step del: mt.simps)
qed

lemma many_chars: "list_all p w \<Longrightarrow> lo \<le> length w \<Longrightarrow>
    (rev w @ b, a) \<in> set (mt (Rep g lo None (Chr p)) (b, w @ a))"
  using iterate_chars_at_least [of p w lo "length (w @ a)" b a g] by (simp only: mt.simps(6)) simp

lemma seq_mem: "d \<in> set (mt r c) \<Longrightarrow> e \<in> set (mt q d) \<Longrightarrow> e \<in> set (mt (Seq r q) c)"
  by auto

lemma opt_skip: "c \<in> set (mt (opt r) c)"
  by (simp add: opt_def Let_def)

lemma opt_take: "d \<in> set (mt r c) \<Longrightarrow> snd d \<noteq> snd c \<Longrightarrow> d \<in> set (mt (opt r) c)"
  by (auto simp: opt_def Let_def intro!: bexI [of _ d])

lemma mt_lit_mem: "(rev (str_lit s) @ b, a) \<in> set (mt (lit s) (b, str_lit s @ a))"
  by (simp only: mt_lit list.set insertI1)

text \<open>The label between \<open>BEGIN\<close> and \<open>PRIVATE KEY\<close>: empty, or words and a space.\<close>

definition pem_label :: "pystr \<Rightarrow> bool" where
  "pem_label l \<longleftrightarrow> l = [] \<or> (\<exists>w. l = w @ [32] \<and> w \<noteq> [] \<and> list_all (in_ranges (upper @ digits @ [(32, 32)])) w)"

lemma pem_label_matches:
  assumes "pem_label l"
  shows "(rev l @ b, a) \<in>
    set (mt (opt (Seq (many1 (ranges (upper @ digits @ [(32, 32)]))) (lit '' ''))) (b, l @ a))"
proof (cases "l = []")
  case True
  then show ?thesis using opt_skip by simp
next
  case False
  then obtain w where w: "l = w @ [32]" "w \<noteq> []" "list_all (in_ranges (upper @ digits @ [(32, 32)])) w"
    using assms by (auto simp: pem_label_def)
  have "(rev w @ b, 32 # a) \<in> set (mt (many1 (ranges (upper @ digits @ [(32, 32)]))) (b, w @ 32 # a))"
    unfolding many1_def ranges_def by (rule many_chars [OF w(3)]) (use w(2) in \<open>cases w, simp_all\<close>)
  moreover have "(32 # rev w @ b, a) \<in> set (mt (lit '' '') (rev w @ b, 32 # a))"
    using mt_lit_mem [of "'' ''" "rev w @ b" a] by simp
  ultimately show ?thesis
    unfolding w(1) by (intro opt_take) (auto intro!: seq_mem simp del: mt.simps)
qed

lemma pem_matches:
  assumes "pem_label l"
  shows "matches_in pem_private_key_block
    (u @ str_lit ''-----BEGIN '' @ l @ str_lit ''PRIVATE KEY-----'' @ v)"
proof -
  let ?b1 = "rev (str_lit ''-----BEGIN '') @ rev u"
  have "(?b1, l @ str_lit ''PRIVATE KEY-----'' @ v) \<in>
      set (mt (lit ''-----BEGIN '') (rev u, str_lit ''-----BEGIN '' @ l @ str_lit ''PRIVATE KEY-----'' @ v))"
    by (rule mt_lit_mem)
  moreover note pem_label_matches [OF assms, of ?b1 "str_lit ''PRIVATE KEY-----'' @ v"]
  moreover have "(rev (str_lit ''PRIVATE KEY-----'') @ rev l @ ?b1, v) \<in>
      set (mt (lit ''PRIVATE KEY-----'') (rev l @ ?b1, str_lit ''PRIVATE KEY-----'' @ v))"
    by (rule mt_lit_mem)
  ultimately have "(rev (str_lit ''PRIVATE KEY-----'') @ rev l @ ?b1, v) \<in>
      set (mt pem_private_key_block (rev u, str_lit ''-----BEGIN '' @ l @ str_lit ''PRIVATE KEY-----'' @ v))"
    unfolding pem_private_key_block_def seqs.simps by (intro seq_mem)
  then show ?thesis unfolding matches_in_def by (metis empty_iff empty_set)
qed

lemma scan_text_complete:
  assumes "r \<in> set RULES" and "matches_in (pattern r) text" and "\<not> sublist ALLOW_MARKER text"
  shows "\<exists>f \<in> set (scan_text text path). f_rule_id f = rule_id r"
proof -
  obtain f where "f \<in> set (scan_rule path (splitlines text) text r)"
    using scan_rule_complete [OF assms(2,3), of path] by (meson last_in_set)
  then show ?thesis using assms(1) scan_rule_id by (fastforce simp: scan_text_def)
qed

lemma scan_text_sound:
  assumes "f \<in> set (scan_text text path)"
  shows "\<exists>r \<in> set RULES. f_rule_id f = rule_id r \<and> matches_in (pattern r) text"
  using assms scan_rule_sound unfolding scan_text_def matches_in_def by fastforce

lemma pem_rule: "mk_rule ''pem.private-key-block'' pem_private_key_block ''PEM private key block'' \<in> set RULES"
  by (simp add: RULES_def)

lemma scan_text_flags_pem:
  assumes "pem_label l" and "text = u @ str_lit ''-----BEGIN '' @ l @ str_lit ''PRIVATE KEY-----'' @ v"
    and "\<not> sublist ALLOW_MARKER text"
  shows "\<exists>f \<in> set (scan_text text path). f_rule_id f = str_lit ''pem.private-key-block''"
  using scan_text_complete [OF pem_rule _ assms(3), of path] pem_matches [OF assms(1), of u v] assms(2)
  by (simp add: mk_rule_def del: str_lit_Cons)

section \<open>Texts that are clean\<close>

text \<open>No rule matches a text of fewer than 17 characters.\<close>

lemma rule_widths: "r \<in> set RULES \<Longrightarrow> 17 \<le> min_width (pattern r)"
  by (auto simp: RULES_def mk_rule_def pem_private_key_block_def openssh_private_key_def
      jwk_private_params_def jwk_private_params_reversed_def jwk_kty_def jwk_d_def
      seed_mnemonic_phrase_def seed_line_def apikey_openai_def apikey_anthropic_def apikey_github_def
      apikey_aws_def passphrase_assignment_def lit_def lit_i_def lit_with_def opt_def many_def
      many1_def at_least_def exactly_def between_def lazy_upto_def line_start_def line_end_def
      not_behind_def not_ahead_def word_boundary_def ranges_def quote_mark_def spaces_def any_char_def)

lemma short_text_clean: "length text < 17 \<Longrightarrow> scan_text text path = []"
proof -
  assume l: "length text < 17"
  have "scan_rule path (splitlines text) text r = []" if "r \<in> set RULES" for r
    using rule_widths [OF that] l short_no_match [of "([], text)" "pattern r"]
    by (simp add: scan_rule_def)
  then show ?thesis by (simp add: scan_text_def)
qed

text \<open>A text that lacks the characters a rule requires is clean.\<close>

lemma scan_text_without:
  assumes "\<forall>r \<in> set RULES. \<exists>A. requires A (pattern r) \<and> A \<inter> set s = {}"
  shows "scan_text s path = []"
proof -
  have "scan_rule path (splitlines s) s r = []" if "r \<in> set RULES" for r
  proof -
    from assms that obtain A where "requires A (pattern r)" "A \<inter> set s = {}" by blast
    then have "finditer (pattern r) ([], s) = []"
      using needs_no_match [OF requires_needs, of A "pattern r" "([], s)"] by auto
    then show ?thesis by (simp add: scan_rule_def)
  qed
  then show ?thesis by (simp add: scan_text_def)
qed

text \<open>
  A text without the characters that every rule requires: a blank, quotes, a hyphen, an
  underscore, or the letters \<open>K\<close> and \<open>X\<close> of the fixed prefixes.
\<close>

definition harmless :: "pystr \<Rightarrow> bool" where
  "harmless s \<longleftrightarrow> (\<forall>c \<in> set s. c \<notin> {32, 34, 39, 45, 75, 88, 95})"

lemma harmless_clean: "harmless s \<Longrightarrow> scan_text s path = []"
proof (rule scan_text_without)
  assume h: "harmless s"
  have "requires {32, 34, 39, 45, 75, 88, 95} (pattern r)" if "r \<in> set RULES" for r
    using that
    by (auto simp: RULES_def mk_rule_def pem_private_key_block_def openssh_private_key_def
      jwk_private_params_def jwk_private_params_reversed_def jwk_d_def jwk_kty_def seed_mnemonic_phrase_def seed_line_def
      apikey_openai_def apikey_anthropic_def apikey_github_def apikey_aws_def passphrase_assignment_def
      lit_def lit_with_def quote_mark_def exactly_def at_least_def)
  then show "\<forall>r \<in> set RULES. \<exists>A. requires A (pattern r) \<and> A \<inter> set s = {}"
    using h by (auto simp: harmless_def)
qed

text \<open>A single line that carries the marker hides everything in it.\<close>

lemma lines_from_single: "list_all (\<lambda>c. \<not> line_break c) s \<Longrightarrow>
    lines_from cur s = (if rev cur @ s = [] then [] else [rev cur @ s])"
  by (induction s arbitrary: cur) (auto simp: line_break_def)

lemma marked_line_clean:
  assumes "list_all (\<lambda>c. \<not> line_break c) text" and "sublist ALLOW_MARKER text"
  shows "scan_text text path = []"
proof -
  have "text \<noteq> []" using assms(2) by (auto simp: ALLOW_MARKER_def)
  then have lines: "splitlines text = [text]"
    using lines_from_single [OF assms(1), of "[]"] by (simp add: splitlines_def)
  have "line_no m = 1" if "(m, e) \<in> set (finditer r ([], text))" for m e r
  proof -
    have "rev (fst m) @ snd m = text" using finditer_sound [OF that] forward_text by fastforce
    then have "set (fst m) \<subseteq> set text" by (metis set_rev sup_ge1 set_append)
    then have "10 \<notin> set (fst m)" using assms(1) by (auto simp: list_all_iff line_break_def)
    then show ?thesis by (simp add: line_no_def count_list_0_iff)
  qed
  then have "scan_rule path [text] text r = []" for r
    using assms(2) by (auto simp: scan_rule_def Let_def line_at_def)
  then show ?thesis by (simp add: scan_text_def lines)
qed

section \<open>The properties\<close>

text \<open>
  C37. A scan reports exactly the rules that match. When the text does not contain the
  allow marker, a rule is reported if and only if its pattern matches at some
  position, and every finding names a rule that matches, at the line that is one more than the
  number of newlines before the match, and holds none of the matched text.
\<close>

theorem scan_reports_exactly_the_matching_rules:
  assumes "\<not> sublist ALLOW_MARKER text"
  shows "(\<forall>r \<in> set RULES. (\<exists>f \<in> set (scan_text text path). f_rule_id f = rule_id r) \<longleftrightarrow>
      matches_in (pattern r) text) \<and>
    (\<forall>f \<in> set (scan_text text path). f_path f = path \<and>
      (\<exists>r \<in> set RULES. \<exists>u v. f_rule_id f = rule_id r \<and> text = u @ v \<and>
         mt (pattern r) (rev u, v) \<noteq> [] \<and> f_line f = count_list u 10 + 1))"
proof (intro conjI ballI)
  fix r assume "r \<in> set RULES"
  then show "(\<exists>f \<in> set (scan_text text path). f_rule_id f = rule_id r) \<longleftrightarrow> matches_in (pattern r) text"
    using scan_text_complete [OF _ _ assms] scan_text_sound rule_by_id by metis
next
  fix f assume "f \<in> set (scan_text text path)"
  then obtain r where r: "r \<in> set RULES" "f \<in> set (scan_rule path (splitlines text) text r)"
    by (auto simp: scan_text_def)
  then show "f_path f = path" using scan_rule_sound by blast
  show "\<exists>r \<in> set RULES. \<exists>u v. f_rule_id f = rule_id r \<and> text = u @ v \<and>
      mt (pattern r) (rev u, v) \<noteq> [] \<and> f_line f = count_list u 10 + 1"
    using scan_rule_sound [OF r(2)] r(1) by blast
qed

definition example_pem :: pystr where
  "example_pem = str_lit ''-----BEGIN '' @ str_lit ''PRIVATE KEY-----''"

lemma example_pem_unmarked: "\<not> sublist ALLOW_MARKER example_pem"
  using sublist_length_le by (fastforce simp: ALLOW_MARKER_def example_pem_def)

lemma example_pem_matches: "matches_in pem_private_key_block example_pem"
  using pem_matches [of "[]" "[]" "[]"] by (simp add: example_pem_def pem_label_def del: str_lit_Cons)

theorem scan_reports_exactly_the_matching_rules_witness:
  "\<exists>f \<in> set (scan_text example_pem []). f_rule_id f = str_lit ''pem.private-key-block''"
proof -
  let ?r = "mk_rule ''pem.private-key-block'' pem_private_key_block ''PEM private key block''"
  have "(\<exists>f \<in> set (scan_text example_pem []). f_rule_id f = rule_id ?r) \<longleftrightarrow>
      matches_in (pattern ?r) example_pem"
    using scan_reports_exactly_the_matching_rules [OF example_pem_unmarked, of "[]"] pem_rule by blast
  then show ?thesis using example_pem_matches by (simp add: mk_rule_def del: str_lit_Cons)
qed

text \<open>
  Every text that embeds the header of a PEM private key block, of any kind and
  anywhere, is reported by the scan, unless it carries the allow marker.
\<close>

theorem embedded_private_key_is_reported:
  assumes "pem_label l" and "t = u @ str_lit ''-----BEGIN '' @ l @ str_lit ''PRIVATE KEY-----'' @ v"
    and "\<not> sublist ALLOW_MARKER t"
  shows "\<exists>f \<in> set (scan_text t path). f_rule_id f = str_lit ''pem.private-key-block''"
  using scan_text_flags_pem [OF assms] .

theorem embedded_private_key_is_reported_witness:
  "\<exists>f \<in> set (scan_text example_pem []). f_rule_id f = str_lit ''pem.private-key-block''"
  using embedded_private_key_is_reported [of "[]" example_pem "[]" "[]" "[]"] example_pem_unmarked
  by (simp add: example_pem_def pem_label_def del: str_lit_Cons)

definition KEY_EXTENSIONS :: "string list" where
  "KEY_EXTENSIONS = [''pem'', ''key'', ''jwk'', ''p8'', ''pk8'', ''p12'', ''pfx'', ''keystore'']"

lemma alts_mem: "r \<in> set rs \<Longrightarrow> d \<in> set (mt r c) \<Longrightarrow> d \<in> set (mt (alts rs) c)"
proof (induction rs rule: alts.induct)
  case (3 r1 r2 rs)
  then show ?case by (auto simp del: mt.simps(1-4,6))
qed simp_all

lemma file_private_key_matches:
  assumes "ext \<in> set KEY_EXTENSIONS" and "list_all2 same_letter (str_lit ext) e"
  shows "mt file_private_key (b, 46 # e) \<noteq> []"
proof -
  have "(b, 46 # e) \<in> set (mt (many (Chr (\<lambda>c. c \<noteq> 10))) (b, 46 # e))"
    unfolding many_def using many_chars [of "\<lambda>c. c \<noteq> 10" "[]" 0 b "46 # e" True] by simp
  moreover have "(46 # b, e) \<in> set (mt (lit ''.'') (b, 46 # e))"
    using mt_lit_mem [of "''.''" b e] by simp
  moreover have "(rev e @ 46 # b, []) \<in> set (mt (lit_i ext) (46 # b, e))"
    using mt_lit_with [OF assms(2), of "46 # b" "[]"] by (simp add: lit_i_def)
  then have "(rev e @ 46 # b, []) \<in> set (mt (alts (map lit_i KEY_EXTENSIONS)) (46 # b, e))"
    using assms(1) by (intro alts_mem [of "lit_i ext"]) simp_all
  moreover have "(rev e @ 46 # b, []) \<in> set (mt text_end (rev e @ 46 # b, []))"
    by (simp add: text_end_def)
  ultimately have "(rev e @ 46 # b, []) \<in> set (mt file_private_key (b, 46 # e))"
    unfolding file_private_key_def KEY_EXTENSIONS_def seqs.simps by (intro seq_mem)
  then show ?thesis by (metis empty_iff empty_set)
qed

text \<open>
  A file whose name ends in one of the key extensions, in any letter case, is
  never let through, unless it is a file called \<open>.env.example\<close>, and the
  hook that blocks commits then fails, whatever the other files are.
\<close>

theorem key_file_names_are_blocked:
  assumes "ext \<in> set KEY_EXTENSIONS" and "list_all2 same_letter (str_lit ext) e"
    and "\<not> search FORBIDDEN_NAME_ALLOW (stem @ 46 # e)"
  shows "scan_name (stem @ 46 # e) \<noteq> [] \<and>
    (stem @ 46 # e \<in> set argv \<longrightarrow> block_key_files_main argv = 1)"
proof -
  have "search file_private_key (stem @ 46 # e)"
    unfolding search_def using file_private_key_matches [OF assms(1,2)] finditer_nonempty by blast
  then have "scan_name (stem @ 46 # e) \<noteq> []"
    using assms(3) by (simp add: scan_name_def FORBIDDEN_NAME_PATTERNS_def)
  then show ?thesis by (auto simp: block_key_files_main_def)
qed

theorem key_file_names_are_blocked_witness:
  "scan_name (str_lit ''a.PEM'') \<noteq> []"
proof -
  have "\<not> search FORBIDDEN_NAME_ALLOW ([97] @ 46 # str_lit ''PEM'')"
    by (simp add: search_def FORBIDDEN_NAME_ALLOW_def slash_or_start_def regex_eval del: mt.simps)
  from key_file_names_are_blocked [OF _ _ this, of "''pem''" "[]"] show ?thesis
    by (simp add: KEY_EXTENSIONS_def same_letter_def)
qed

definition shifted_text :: pystr where
  "shifted_text = [12] @ ALLOW_MARKER @ [10] @ example_pem"

lemmas rule_eval =
  regex_eval token_chars_def alnum_def upper_def lower_def digits_def quote_mark_def spaces_def
  any_char_def shifted_text_def ALLOW_MARKER_def example_pem_def

lemma shifted_openssh: "finditer openssh_private_key ([], shifted_text) = []"
  by (simp add: rule_eval openssh_private_key_def del: mt.simps)

lemma shifted_jwk: "finditer jwk_private_params ([], shifted_text) = []"
  by (simp add: rule_eval jwk_private_params_def jwk_kty_def del: mt.simps)

lemma shifted_jwk_reversed: "finditer jwk_private_params_reversed ([], shifted_text) = []"
  by (simp add: rule_eval jwk_private_params_reversed_def jwk_d_def del: mt.simps)

lemma shifted_seed: "finditer seed_mnemonic_phrase ([], shifted_text) = []"
  by (simp add: rule_eval seed_mnemonic_phrase_def seed_line_def del: mt.simps)

lemma shifted_openai: "finditer apikey_openai ([], shifted_text) = []"
  by (simp add: rule_eval apikey_openai_def del: mt.simps)

lemma shifted_anthropic: "finditer apikey_anthropic ([], shifted_text) = []"
  by (simp add: rule_eval apikey_anthropic_def del: mt.simps)

lemma shifted_github: "finditer apikey_github ([], shifted_text) = []"
  by (simp add: rule_eval apikey_github_def del: mt.simps)

lemma shifted_aws: "finditer apikey_aws ([], shifted_text) = []"
  by (simp add: rule_eval apikey_aws_def del: mt.simps)

lemma shifted_passphrase: "finditer passphrase_assignment ([], shifted_text) = []"
proof (rule needs_no_match)
  show "needs (\<lambda>c. c = 34 \<or> c = 39) passphrase_assignment"
    unfolding passphrase_assignment_def seqs.simps by (intro needs_Seq disjI2 needs_Chr)
qed (simp add: rule_eval)

lemmas shifted_no_match =
  shifted_openssh shifted_jwk shifted_jwk_reversed shifted_seed shifted_openai
  shifted_anthropic shifted_github shifted_aws shifted_passphrase

lemma shifted_lines: "splitlines shifted_text = [[], ALLOW_MARKER, example_pem]"
  by (simp add: splitlines_def shifted_text_def ALLOW_MARKER_def example_pem_def line_break_def)

lemma shifted_pem_line:
  "\<forall>m \<in> set (finditer pem_private_key_block ([], shifted_text)). line_no (fst m) = 2"
  by (simp add: rule_eval pem_private_key_block_def line_no_def del: mt.simps)

text \<open>
  The line of a finding is counted in newlines, but the marker is looked up in
  \<open>splitlines()\<close>, which also breaks at form feeds and other characters. After
  a form feed the two disagree, and a marker on another line silences a private key.
\<close>

theorem marker_of_another_line_silences_a_key:
  "matches_in pem_private_key_block shifted_text \<and> scan_text shifted_text path = [] \<and>
   \<not> sublist ALLOW_MARKER example_pem"
proof (intro conjI)
  show "matches_in pem_private_key_block shifted_text"
    using pem_matches [of "[]" "[12] @ ALLOW_MARKER @ [10]" "[]"]
    by (simp add: shifted_text_def example_pem_def pem_label_def del: str_lit_Cons)
  show "scan_text shifted_text path = []"
    using shifted_pem_line
    by (simp add: scan_text_def RULES_def mk_rule_def scan_rule_def shifted_no_match shifted_lines
        line_at_def Let_def)
qed (rule example_pem_unmarked)

end
