(* ===== verification/Ledger.thy ===== *)
theory Ledger
  imports Db SecretScan
begin

text \<open>
  \<open>proof/ledger.py\<close>: validation of an activity, the refusal of secret material and
  the append itself, and \<open>proof/verify.py\<close>: the walk over the chain.
\<close>

section \<open>Activities\<close>

definition ACTIVITY_TYPES :: "pystr list" where
  "ACTIVITY_TYPES = map str_lit
    [''ledger.genesis'', ''technocore.read'', ''technocore.write.intent'',
     ''technocore.write.result'', ''technocore.write.failed'',
     ''technocore_message_prepare_intent'', ''technocore_message_signed_local'',
     ''technocore_message_verified_local'', ''technocore_message_publish_blocked'',
     ''technocore_message_publish_result'', ''identity.nonce.reserved'', ''note'']"

text \<open>
  \<open>cost_amount\<close> is checked at run time, so its value is dynamic. \<open>tc_seq\<close> comes from
  a server's answer, where \<open>isinstance(seq, int)\<close> also lets a \<open>bool\<close> through.
\<close>

datatype seq_value = SeqInt int | SeqBool bool

fun seq_int :: "seq_value \<Rightarrow> int" where
  "seq_int (SeqInt i) = i"
| "seq_int (SeqBool b) = (if b then 1 else 0)"

fun seq_bool :: "seq_value option \<Rightarrow> bool option" where
  "seq_bool (Some (SeqBool b)) = Some b"
| "seq_bool _ = None"

record Activity =
  a_agent_did :: pystr
  a_activity_type :: pystr
  a_occurred_at :: pystr
  a_task_id :: "pystr option"
  a_ref_activity_id :: "pystr option"
  a_tc_room :: "pystr option"
  a_tc_seq :: "seq_value option"
  a_tc_nonce :: "int option"
  a_signed_payload_hash :: "pystr option"
  a_signature :: "pystr option"
  a_result_hash :: "pystr option"
  a_provider_id :: "pystr option"
  a_model :: "pystr option"
  a_cost_amount :: pyval
  a_cost_unit :: pystr
  a_meta :: "json option"

record LedgerRecord =
  lr_activity_id :: pystr
  lr_chain_index :: int
  lr_prev_hash :: pystr
  lr_entry_hash :: pystr
  lr_recorded_at :: pystr

definition str_NONE :: pystr where "str_NONE = str_lit ''NONE''"

definition validate_activity :: "Activity \<Rightarrow> exn + unit" where
  "validate_activity a =
     rbind (unless_raise (a_agent_did a \<noteq> []) (LedgerError AgentDidRequired)) (\<lambda>_.
     rbind (unless_raise (a_activity_type a \<in> set ACTIVITY_TYPES) (LedgerError UnknownActivityType)) (\<lambda>_.
     rbind (unless_raise (a_cost_unit a \<in> set VALID_COST_UNITS) (LedgerError BadCostUnit)) (\<lambda>_.
     rbind (unless_raise (a_cost_amount a = VNone \<or> a_cost_unit a \<noteq> str_NONE)
       (LedgerError CostUnitRequired)) (\<lambda>_.
     unless_raise (a_cost_amount a = VNone \<or> (\<exists>s. a_cost_amount a = VStr s))
       (LedgerError CostNotDecimalString)))))"

text \<open>The string values of \<open>asdict(activity)\<close>, in the order of the fields.\<close>

definition opt_list :: "'a option \<Rightarrow> 'a list" where
  "opt_list v = (case v of None \<Rightarrow> [] | Some x \<Rightarrow> [x])"

definition str_values :: "Activity \<Rightarrow> pystr list" where
  "str_values a =
     [a_agent_did a, a_activity_type a, a_occurred_at a] @ opt_list (a_task_id a) @
     opt_list (a_ref_activity_id a) @ opt_list (a_tc_room a) @ opt_list (a_signed_payload_hash a) @
     opt_list (a_signature a) @ opt_list (a_result_hash a) @ opt_list (a_provider_id a) @
     opt_list (a_model a) @ (case a_cost_amount a of VStr s \<Rightarrow> [s] | _ \<Rightarrow> []) @ [a_cost_unit a]"

definition secret_parts :: "Activity \<Rightarrow> pystr option \<Rightarrow> pystr list" where
  "secret_parts a meta_json =
     str_values a @ (case meta_json of None \<Rightarrow> [] | Some m \<Rightarrow> if m = [] then [] else [m])"

definition ledger_write_path :: pystr where
  "ledger_write_path = str_lit ''<ledger-write>''"

definition refuse_secrets :: "Activity \<Rightarrow> pystr option \<Rightarrow> exn + unit" where
  "refuse_secrets a meta_json =
     (let findings = concat (map (\<lambda>v. scan_text v ledger_write_path) (secret_parts a meta_json))
      in unless_raise (findings = []) SecretMaterialRefused)"

definition meta_text :: "Activity \<Rightarrow> exn + pystr option" where
  "meta_text a = (case a_meta a of None \<Rightarrow> Inr None
     | Some m \<Rightarrow> rbind (dumps m) (\<lambda>t. Inr (Some t)))"

section \<open>Append\<close>

definition cost_text :: "pyval \<Rightarrow> pystr option" where
  "cost_text v = (case v of VStr s \<Rightarrow> Some s | _ \<Rightarrow> None)"

definition activity_row ::
  "pystr \<Rightarrow> pystr \<Rightarrow> int \<Rightarrow> pystr \<Rightarrow> pystr option \<Rightarrow> Activity \<Rightarrow> row" where
  "activity_row activity_id recorded_at chain_index prev_hash meta_json a =
     \<lparr>r_activity_id = activity_id, r_chain_index = chain_index, r_agent_did = a_agent_did a,
      r_activity_type = a_activity_type a, r_task_id = a_task_id a,
      r_ref_activity_id = a_ref_activity_id a, r_tc_room = a_tc_room a, r_tc_seq = map_option seq_int (a_tc_seq a),
      r_tc_nonce = a_tc_nonce a, r_signed_payload_hash = a_signed_payload_hash a,
      r_signature = a_signature a, r_result_hash = a_result_hash a,
      r_provider_id = a_provider_id a, r_model = a_model a,
      r_cost_amount = cost_text (a_cost_amount a), r_cost_unit = a_cost_unit a,
      r_occurred_at = a_occurred_at a, r_recorded_at = recorded_at, r_meta_json = meta_json,
      r_prev_hash = prev_hash, r_entry_hash = []\<rparr>"

definition ref_exists :: "pystr option \<Rightarrow> db \<Rightarrow> exn + unit" where
  "ref_exists ref d = (case ref of None \<Rightarrow> Inr ()
     | Some i \<Rightarrow> rbind (bind_text i) (\<lambda>_.
         unless_raise (select_by_id i d \<noteq> None) (LedgerError RefMissing)))"

definition append_body :: "pystr \<Rightarrow> pystr \<Rightarrow> pystr option \<Rightarrow> Activity \<Rightarrow> LedgerRecord dbop" where
  "append_body activity_id recorded_at meta_json a d =
     (let head = select_head d;
          chain_index = (case head of None \<Rightarrow> 0 | Some h \<Rightarrow> r_chain_index h + 1);
          prev_hash = (case head of None \<Rightarrow> GENESIS_PREV_HASH | Some h \<Rightarrow> r_entry_hash h);
          row = activity_row activity_id recorded_at chain_index prev_hash meta_json a
      in case rbind (ref_exists (a_ref_activity_id a) d)
               (\<lambda>_. unsaved_entry_hash (seq_bool (a_tc_seq a)) row) of
           Inl e \<Rightarrow> (Inl e, d)
         | Inr h \<Rightarrow>
             (case insert_activity (row\<lparr>r_entry_hash := h\<rparr>) d of
                (Inl e, d') \<Rightarrow> (Inl e, d')
              | (Inr _, d') \<Rightarrow>
                  (Inr \<lparr>lr_activity_id = activity_id, lr_chain_index = chain_index,
                        lr_prev_hash = prev_hash, lr_entry_hash = h, lr_recorded_at = recorded_at\<rparr>, d')))"

text \<open>
  The identifier that \<open>uuid4()\<close> gives and the time that \<open>utc_now()\<close> gives are
  arguments.
\<close>

definition append_activity :: "pystr \<Rightarrow> pystr \<Rightarrow> Activity \<Rightarrow> LedgerRecord dbop" where
  "append_activity activity_id recorded_at a d =
     (case rbind (validate_activity a) (\<lambda>_.
           rbind (meta_text a) (\<lambda>meta_json.
           rbind (refuse_secrets a meta_json) (\<lambda>_. Inr meta_json))) of
        Inl e \<Rightarrow> (Inl e, d)
      | Inr meta_json \<Rightarrow> immediate (append_body activity_id recorded_at meta_json a) d)"

definition count :: "db \<Rightarrow> nat" where
  "count d = length (activities d)"

section \<open>Verification\<close>

datatype Status = VALID | EMPTY | BROKEN

datatype BreakKind = HASH_MISMATCH | LINK_MISMATCH | INDEX_GAP | BAD_GENESIS

record Break =
  b_chain_index :: int
  b_activity_id :: pystr
  b_kind :: BreakKind
  b_expected :: pystr
  b_found :: pystr

record VerifyResult =
  v_status :: Status
  v_records_checked :: nat
  v_head_hash :: "pystr option"
  v_first_break :: "Break option"

definition verify_ok :: "VerifyResult \<Rightarrow> bool" where
  "verify_ok v \<longleftrightarrow> v_status v = VALID \<or> v_status v = EMPTY"

definition broken :: "nat \<Rightarrow> row \<Rightarrow> BreakKind \<Rightarrow> pystr \<Rightarrow> pystr \<Rightarrow> VerifyResult" where
  "broken checked r k expected found =
     \<lparr>v_status = BROKEN, v_records_checked = checked, v_head_hash = None,
      v_first_break = Some \<lparr>b_chain_index = r_chain_index r, b_activity_id = r_activity_id r,
        b_kind = k, b_expected = expected, b_found = found\<rparr>\<rparr>"

definition str_int :: "int \<Rightarrow> pystr" where
  "str_int i = (if i < 0 then 45 # dec (nat (- i)) else dec (nat i))"

text \<open>
  The loop over the rows: \<open>position\<close> counts the rows already checked, which is
  also the number reported.
\<close>

fun verify_rows :: "nat \<Rightarrow> pystr \<Rightarrow> row list \<Rightarrow> exn + VerifyResult" where
  "verify_rows position expected_prev [] =
     Inr \<lparr>v_status = VALID, v_records_checked = position, v_head_hash = Some expected_prev,
          v_first_break = None\<rparr>"
| "verify_rows position expected_prev (r # rs) =
     (if r_chain_index r \<noteq> int position 
      then Inr (broken position r INDEX_GAP (dec position) (str_int (r_chain_index r)))
      else if r_prev_hash r \<noteq> expected_prev
      then Inr (broken position r (if position = 0 then BAD_GENESIS else LINK_MISMATCH)
        expected_prev (r_prev_hash r))
      else rbind (compute_entry_hash r) (\<lambda>recomputed.
        if recomputed \<noteq> r_entry_hash r 
        then Inr (broken position r HASH_MISMATCH recomputed (r_entry_hash r))
        else verify_rows (position + 1) (r_entry_hash r) rs))"

definition verify_chain :: "db \<Rightarrow> exn + VerifyResult" where
  "verify_chain d =
     (let rows = select_ordered d in
      if rows = []
      then Inr \<lparr>v_status = EMPTY, v_records_checked = 0, v_head_hash = None, v_first_break = None\<rparr>
      else verify_rows 0 GENESIS_PREV_HASH rows)"

section \<open>The chain\<close>

text \<open>
  Row \<open>i\<close> of a list that starts at position \<open>n\<close> after the hash \<open>prev\<close> is linked when it
  carries its position, the hash of its predecessor, and its own hash.
\<close>

definition linked_at :: "nat \<Rightarrow> pystr \<Rightarrow> row list \<Rightarrow> nat \<Rightarrow> bool" where
  "linked_at n prev rows i \<longleftrightarrow>
     r_chain_index (rows ! i) = int (n + i) \<and>
     r_prev_hash (rows ! i) = (if i = 0 then prev else r_entry_hash (rows ! (i - 1))) \<and>
     compute_entry_hash (rows ! i) = Inr (r_entry_hash (rows ! i))"

definition linked :: "row list \<Rightarrow> nat \<Rightarrow> bool" where
  "linked rows i \<longleftrightarrow> linked_at 0 GENESIS_PREV_HASH rows i"

definition chain_ok :: "row list \<Rightarrow> bool" where
  "chain_ok rows \<longleftrightarrow> (\<forall>i < length rows. linked rows i)"

text \<open>
  A row that was written with a \<open>bool\<close> as server sequence number: it stores 1 or 0, and its
  hash was taken of the text with \<open>true\<close> or \<open>false\<close>.
\<close>

definition boolean_hash :: "row \<Rightarrow> bool" where
  "boolean_hash r \<longleftrightarrow> (\<exists>b. r_tc_seq r = Some (if b then 1 else 0) \<and>
     unsaved_entry_hash (Some b) r = Inr (r_entry_hash r))"

text \<open>
  What every append keeps: positions and links. The recomputed hash is kept when
  \<open>honest\<close>, that is when no such row was written.
\<close>

definition kept_at :: "bool \<Rightarrow> row list \<Rightarrow> nat \<Rightarrow> bool" where
  "kept_at honest rows i \<longleftrightarrow>
     r_chain_index (rows ! i) = int i \<and>
     r_prev_hash (rows ! i) = (if i = 0 then GENESIS_PREV_HASH else r_entry_hash (rows ! (i - 1))) \<and>
     (compute_entry_hash (rows ! i) = Inr (r_entry_hash (rows ! i)) \<or> \<not> honest \<and> boolean_hash (rows ! i))"

definition chain_kept :: "bool \<Rightarrow> row list \<Rightarrow> bool" where
  "chain_kept honest rows \<longleftrightarrow> (\<forall>i < length rows. kept_at honest rows i)"

lemma kept_linked: "kept_at True rows i \<longleftrightarrow> linked rows i"
  by (simp add: kept_at_def linked_def linked_at_def)

lemma chain_kept_True [simp]: "chain_kept True rows \<longleftrightarrow> chain_ok rows"
  by (simp add: chain_kept_def chain_ok_def kept_linked)

definition head_after :: "pystr \<Rightarrow> row list \<Rightarrow> pystr" where
  "head_after prev rows = (if rows = [] then prev else r_entry_hash (last rows))"

lemma linked_at_Cons:
  "linked_at n prev (r # rs) (Suc i) = linked_at (Suc n) (r_entry_hash r) rs i"
  by (cases i) (simp_all add: linked_at_def)

lemma linked_at_0: "linked_at n prev (r # rs) 0 \<longleftrightarrow> r_chain_index r = int n \<and>
    r_prev_hash r = prev \<and> compute_entry_hash r = Inr (r_entry_hash r)"
  by (simp add: linked_at_def)

lemma all_linked_Cons: "(\<forall>i < length (r # rs). linked_at n prev (r # rs) i) \<longleftrightarrow>
    linked_at n prev (r # rs) 0 \<and> (\<forall>i < length rs. linked_at (Suc n) (r_entry_hash r) rs i)"
  by (auto simp: linked_at_Cons less_Suc_eq_0_disj)

text \<open>Why a row breaks the chain, in the order of the checks.\<close>

definition break_kind :: "nat \<Rightarrow> pystr \<Rightarrow> row \<Rightarrow> BreakKind" where
  "break_kind position prev r =
     (if r_chain_index r \<noteq> int position then INDEX_GAP
      else if r_prev_hash r \<noteq> prev then (if position = 0 then BAD_GENESIS else LINK_MISMATCH)
      else HASH_MISMATCH)"

definition is_break :: "nat \<Rightarrow> nat \<Rightarrow> pystr \<Rightarrow> row list \<Rightarrow> VerifyResult \<Rightarrow> bool" where
  "is_break i n prev rows v \<longleftrightarrow>
     v_status v = BROKEN \<and> v_records_checked v = n + i \<and> v_head_hash v = None \<and>
     (\<exists>b. v_first_break v = Some b \<and> b_chain_index b = r_chain_index (rows ! i) \<and>
        b_activity_id b = r_activity_id (rows ! i) \<and>
        b_kind b = break_kind (n + i) (if i = 0 then prev else r_entry_hash (rows ! (i - 1))) (rows ! i))"

lemma is_break_Cons: "is_break i (Suc n) (r_entry_hash r) rs v = is_break (Suc i) n prev (r # rs) v"
  by (cases i) (simp_all add: is_break_def)

lemma verify_rows_linked: "(\<forall>i < length rows. linked_at n prev rows i) \<Longrightarrow>
    verify_rows n prev rows = Inr \<lparr>v_status = VALID, v_records_checked = n + length rows,
      v_head_hash = Some (head_after prev rows), v_first_break = None\<rparr>"
proof (induction rows arbitrary: n prev)
  case (Cons r rs)
  have "linked_at n prev (r # rs) 0" "\<forall>i < length rs. linked_at (Suc n) (r_entry_hash r) rs i"
    using Cons.prems all_linked_Cons by blast+
  then show ?case using Cons.IH [of "Suc n" "r_entry_hash r"]
    by (simp add: linked_at_0 head_after_def)
qed (simp add: head_after_def)

lemma verify_rows_break:
  assumes "\<forall>r \<in> set rows. storable_row r" and "i < length rows"
    and "\<forall>j < i. linked_at n prev rows j" and "\<not> linked_at n prev rows i"
  shows "\<exists>v. verify_rows n prev rows = Inr v \<and> is_break i n prev rows v"
  using assms
proof (induction i arbitrary: n prev rows)
  case 0
  then obtain r rs where rows: "rows = r # rs" by (cases rows) auto
  obtain h where h: "compute_entry_hash r = Inr h" using compute_entry_hash_ok 0(1) rows by auto
  show ?case
    using 0(4) h by (auto simp: rows linked_at_0 is_break_def broken_def break_kind_def)
next
  case (Suc i)
  then obtain r rs where rows: "rows = r # rs" by (cases rows) auto
  have "linked_at n prev (r # rs) 0" using Suc.prems(3) rows by blast
  moreover have "\<forall>j < i. linked_at (Suc n) (r_entry_hash r) rs j"
    using Suc.prems(3) linked_at_Cons [where n = n and prev = prev and r = r and rs = rs] rows
    by (metis Suc_less_eq)
  ultimately show ?case
    using Suc.IH [of rs "Suc n" "r_entry_hash r"] Suc.prems(1,2,4)
    by (simp add: rows linked_at_0 linked_at_Cons is_break_Cons [of _ n r rs _ prev])
qed

lemma first_unlinked:
  "(\<forall>i < length rows. linked_at n prev rows i) \<or>
   (\<exists>i < length rows. (\<forall>j < i. linked_at n prev rows j) \<and> \<not> linked_at n prev rows i)"
proof (cases "\<forall>i < length rows. linked_at n prev rows i")
  case False
  then have "\<exists>i. i < length rows \<and> \<not> linked_at n prev rows i" by blast
  then obtain i where i: "i < length rows" "\<not> linked_at n prev rows i"
      "\<forall>j < i. \<not> (j < length rows \<and> \<not> linked_at n prev rows j)"
    unfolding exists_least_iff [of "\<lambda>i. i < length rows \<and> \<not> linked_at n prev rows i"] by blast
  then have "\<forall>j < i. linked_at n prev rows j" by (meson less_trans)
  then show ?thesis using i by blast
qed blast

section \<open>Order of the rows\<close>

lemma sort_key_increasing: "sorted_wrt (\<lambda>x y. (f x :: int) \<le> f y) xs \<Longrightarrow> sort_key f xs = xs"
  by (induction xs) (simp_all add: insort_is_Cons)

lemma chain_kept_index: "chain_kept h rows \<Longrightarrow> i < length rows \<Longrightarrow> r_chain_index (rows ! i) = int i"
  by (simp add: chain_kept_def kept_at_def)

lemma chain_kept_ordered: "chain_kept h rows \<Longrightarrow> sort_key r_chain_index rows = rows"
  by (rule sort_key_increasing) (simp add: sorted_wrt_iff_nth_less chain_kept_index)

lemma chain_kept_snoc: "chain_kept h (rows @ [r]) \<longleftrightarrow> chain_kept h rows \<and>
    r_chain_index r = int (length rows) \<and> r_prev_hash r = head_after GENESIS_PREV_HASH rows \<and>
    (compute_entry_hash r = Inr (r_entry_hash r) \<or> \<not> h \<and> boolean_hash r)"
proof -
  have "kept_at h (rows @ [r]) i = kept_at h rows i" if "i < length rows" for i
    using that by (auto simp: kept_at_def nth_append)
  moreover have "kept_at h (rows @ [r]) (length rows) \<longleftrightarrow> r_chain_index r = int (length rows) \<and>
      r_prev_hash r = head_after GENESIS_PREV_HASH rows \<and>
      (compute_entry_hash r = Inr (r_entry_hash r) \<or> \<not> h \<and> boolean_hash r)"
    by (cases rows rule: rev_cases) (simp_all add: kept_at_def head_after_def nth_append)
  ultimately show ?thesis by (auto simp: chain_kept_def less_Suc_eq)
qed

lemmas chain_ok_index = chain_kept_index [where h = True, unfolded chain_kept_True]
lemmas chain_ok_ordered = chain_kept_ordered [where h = True, unfolded chain_kept_True]
lemmas chain_ok_snoc = chain_kept_snoc [where h = True, unfolded chain_kept_True not_True_eq_False simp_thms]

end
