(* ===== verification/Nonce.thy ===== *)
theory Nonce
  imports Db Canonical
begin

text \<open>
  \<open>identity/nonce.py\<close>: the durable counters. The abstract contract is the locale
  \<open>counter\<close>: a value per key that an issue raises strictly and an observation never
  lowers; the store is an instance of it, and what the signing paths rely on
  follows for every sequence of calls.
\<close>

section \<open>The operations\<close>

definition scope_for_room :: "pystr \<Rightarrow> pystr" where
  "scope_for_room room = room"

definition scope_for_kv :: "pystr \<Rightarrow> pystr" where
  "scope_for_kv ns = str_lit ''kv:'' @ ns"

record Reservation =
  rv_agent_did :: pystr
  rv_scope :: pystr
  rv_nonce :: int

definition current :: "pystr \<Rightarrow> pystr \<Rightarrow> int dbop" where
  "current agent scope d =
     (case select_nonce agent scope d of
        (Inl e, d') \<Rightarrow> (Inl e, d')
      | (Inr row, d') \<Rightarrow> (Inr (case row of None \<Rightarrow> 0 | Some n \<Rightarrow> n), d'))"

definition non_empty_str :: "pyval \<Rightarrow> nonce_reason \<Rightarrow> exn + pystr" where
  "non_empty_str v r = (case v of VStr s \<Rightarrow> if s = [] then Inl (NonceError r) else Inr s
     | _ \<Rightarrow> Inl (NonceError r))"

definition exhausted :: "exn + int \<Rightarrow> exn + int" where
  "exhausted r = (case r of Inl (CanonicalisationError _) \<Rightarrow> Inl (NonceError NonceExhausted)
     | _ \<Rightarrow> r)"

definition reserve_body :: "pystr \<Rightarrow> pystr \<Rightarrow> int \<Rightarrow> int dbop" where
  "reserve_body agent scope floor d =
     (case current agent scope d of
        (Inl e, d1) \<Rightarrow> (Inl e, d1)
      | (Inr stored, d1) \<Rightarrow>
          (let nxt = max stored floor + 1 in
           if nxt > MAX_STORABLE_NONCE then (Inl (NonceError NonceExhausted), d1)
           else case exhausted (validate_nonce (VInt nxt)) of
             Inl e \<Rightarrow> (Inl e, d1)
           | Inr _ \<Rightarrow>
             (case upsert_nonce agent scope nxt d1 of
                (Inl e, d2) \<Rightarrow> (Inl e, d2)
              | (Inr _, d2) \<Rightarrow> (Inr nxt, d2))))"

definition reserve :: "pyval \<Rightarrow> pyval \<Rightarrow> int \<Rightarrow> Reservation dbop" where
  "reserve agent scope floor d =
     (case rbind (non_empty_str agent DidEmpty) (\<lambda>a.
           rbind (non_empty_str scope ScopeEmpty) (\<lambda>s.
           rbind (unless_raise (0 \<le> floor) (NonceError FloorNegative)) (\<lambda>_. Inr (a, s)))) of
        Inl e \<Rightarrow> (Inl e, d)
      | Inr (a, s) \<Rightarrow>
          (case immediate (reserve_body a s floor) d of
             (Inl e, d') \<Rightarrow> (Inl e, d')
           | (Inr n, d') \<Rightarrow> (Inr \<lparr>rv_agent_did = a, rv_scope = s, rv_nonce = n\<rparr>, d')))"

definition observe_body :: "pystr \<Rightarrow> pystr \<Rightarrow> int \<Rightarrow> int dbop" where
  "observe_body agent scope nonce d =
     (case current agent scope d of
        (Inl e, d1) \<Rightarrow> (Inl e, d1)
      | (Inr stored, d1) \<Rightarrow>
          if nonce \<le> stored then (Inr stored, d1)
          else (case upsert_nonce agent scope nonce d1 of
                  (Inl e, d2) \<Rightarrow> (Inl e, d2)
                | (Inr _, d2) \<Rightarrow> (Inr nonce, d2)))"

definition observe :: "pystr \<Rightarrow> pystr \<Rightarrow> pyval \<Rightarrow> int dbop" where
  "observe agent scope nonce d =
     (case validate_nonce nonce of
        Inl e \<Rightarrow> (Inl e, d)
      | Inr n \<Rightarrow> immediate (observe_body agent scope n) d)"

section \<open>What each operation does\<close>

text \<open>The counter of a key; a missing row counts as zero.\<close>

definition last_nonce :: "db \<Rightarrow> pystr \<times> pystr \<Rightarrow> int" where
  "last_nonce d k = (case nonces d k of None \<Rightarrow> 0 | Some n \<Rightarrow> n)"

definition text_key :: "pystr \<Rightarrow> pystr \<Rightarrow> bool" where
  "text_key a s \<longleftrightarrow> scalar_str a \<and> scalar_str s"

lemma current_eq: "current a s d =
    (if text_key a s then (Inr (last_nonce d (a, s)), d) else (Inl UnicodeEncodeError, d))"
  by (auto simp: current_def select_nonce_def bind_text_def last_nonce_def text_key_def
      unless_raise_def split: sum.splits)

lemma validate_small: "0 \<le> n \<Longrightarrow> n \<le> MAX_STORABLE_NONCE \<Longrightarrow> validate_nonce (VInt n) = Inr n"
  by (simp add: validate_nonce_Inr valid_nonce_def MAX_STORABLE_NONCE_def)

lemma upsert_small: "text_key a s \<Longrightarrow> 0 \<le> n \<Longrightarrow> n \<le> MAX_STORABLE_NONCE \<Longrightarrow>
    upsert_nonce a s n d = (Inr (), d\<lparr>nonces := (nonces d)((a, s) \<mapsto> n)\<rparr>)"
  using upsert_nonce_Inr [of a s n d "()"]
  by (simp add: text_key_def MAX_STORABLE_NONCE_def int64_ok_def)

text \<open>The next nonce of a key, when there is one.\<close>

definition next_nonce :: "db \<Rightarrow> pystr \<times> pystr \<Rightarrow> int \<Rightarrow> int" where
  "next_nonce d k floor = max (last_nonce d k) floor + 1"

lemma reserve_body_eq:
  assumes "text_key a s" and "0 \<le> floor"
  shows "reserve_body a s floor d =
    (if next_nonce d (a, s) floor \<le> MAX_STORABLE_NONCE
     then (Inr (next_nonce d (a, s) floor),
           d\<lparr>nonces := (nonces d)((a, s) \<mapsto> next_nonce d (a, s) floor)\<rparr>)
     else (Inl (NonceError NonceExhausted), d))"
  using assms validate_small [of "next_nonce d (a, s) floor"]
    upsert_small [of a s "next_nonce d (a, s) floor" d]
  by (simp add: reserve_body_def current_eq next_nonce_def Let_def exhausted_def)

lemma reserve_body_not_text: "\<not> text_key a s \<Longrightarrow> reserve_body a s floor d = (Inl UnicodeEncodeError, d)"
  by (simp add: reserve_body_def current_eq)

lemma reserve_eq:
  assumes "a \<noteq> []" and "s \<noteq> []" and "text_key a s" and "0 \<le> floor"
  shows "reserve (VStr a) (VStr s) floor d =
    (if locked d then (Inl (OperationalError DatabaseLocked), d)
     else if next_nonce d (a, s) floor \<le> MAX_STORABLE_NONCE
     then (Inr \<lparr>rv_agent_did = a, rv_scope = s, rv_nonce = next_nonce d (a, s) floor\<rparr>,
           d\<lparr>nonces := (nonces d)((a, s) \<mapsto> next_nonce d (a, s) floor)\<rparr>)
     else (Inl (NonceError NonceExhausted), d))"
  using assms by (simp add: reserve_def non_empty_str_def immediate_def reserve_body_eq)

lemma reserve_Inr:
  assumes "reserve agent scope floor d = (Inr r, d')"
  obtains a s where "agent = VStr a" "scope = VStr s" "a \<noteq> []" "s \<noteq> []" "text_key a s"
    "0 \<le> floor" "\<not> locked d" "next_nonce d (a, s) floor \<le> MAX_STORABLE_NONCE"
    "r = \<lparr>rv_agent_did = a, rv_scope = s, rv_nonce = next_nonce d (a, s) floor\<rparr>"
    "d' = d\<lparr>nonces := (nonces d)((a, s) \<mapsto> next_nonce d (a, s) floor)\<rparr>"
proof -
  obtain a s where as: "agent = VStr a" "scope = VStr s" "a \<noteq> []" "s \<noteq> []" and f: "0 \<le> floor"
    using assms
    by (auto simp: reserve_def rbind_eq_Inr non_empty_str_def split: sum.splits pyval.splits if_splits)
  have tk: "text_key a s"
  proof (rule ccontr)
    assume "\<not> text_key a s"
    then show False using assms as f
      by (simp add: reserve_def non_empty_str_def immediate_def reserve_body_not_text split: if_splits)
  qed
  then show thesis using that [of a s] as f assms reserve_eq [OF as(3,4) tk f, of d]
    by (simp split: if_splits)
qed

lemma reserve_Inl: "reserve agent scope floor d = (Inl e, d') \<Longrightarrow> d' = d"
  by (auto simp: reserve_def immediate_rolls_back split: sum.splits prod.splits)

lemma observe_Inl: "observe a s v d = (Inl e, d') \<Longrightarrow> d' = d"
  by (auto simp: observe_def immediate_rolls_back split: sum.splits)

lemma observe_body_eq:
  assumes "text_key a s" and "0 \<le> n"
  shows "observe_body a s n d =
    (if n \<le> last_nonce d (a, s) then (Inr (last_nonce d (a, s)), d)
     else if n \<le> MAX_STORABLE_NONCE then (Inr n, d\<lparr>nonces := (nonces d)((a, s) \<mapsto> n)\<rparr>)
     else (Inl OverflowError, d))"
  using assms upsert_small [of a s n d]
  by (auto simp: observe_body_def current_eq upsert_nonce_def text_key_def bind_text_def bind_int_def
      int64_ok_def MAX_STORABLE_NONCE_def)

lemma observe_body_not_text: "\<not> text_key a s \<Longrightarrow> observe_body a s n d = (Inl UnicodeEncodeError, d)"
  by (simp add: observe_body_def current_eq)

lemma observe_Inr:
  assumes "observe a s v d = (Inr m, d')"
  obtains n where "v = VInt n" "valid_nonce n" "text_key a s" "m = max (last_nonce d (a, s)) n"
    "d' = (if n \<le> last_nonce d (a, s) then d else d\<lparr>nonces := (nonces d)((a, s) \<mapsto> n)\<rparr>)"
proof -
  obtain n where n: "v = VInt n" "valid_nonce n" "observe_body a s n d = (Inr m, d')"
    using assms by (auto simp: observe_def validate_nonce_Inr immediate_Inr split: sum.splits)
  then have tk: "text_key a s" by (cases "text_key a s") (simp_all add: observe_body_not_text)
  have "0 \<le> n" using n(2) by (simp add: valid_nonce_def)
  then have "m = max (last_nonce d (a, s)) n \<and>
      d' = (if n \<le> last_nonce d (a, s) then d else d\<lparr>nonces := (nonces d)((a, s) \<mapsto> n)\<rparr>)"
    using n(3) by (auto simp: observe_body_eq [OF tk] split: if_splits)
  then show thesis using that [OF n(1,2) tk] by simp
qed

section \<open>The contract of a counter\<close>

text \<open>Calls of a client, and what they return when they succeed.\<close>

datatype 'k call = Issue 'k int | Observe 'k int

datatype 'k event = Issued (ev_key: 'k) (ev_val: int) | Observed (ev_key: 'k) (ev_val: int)

fun is_issued :: "'k event \<Rightarrow> bool" where
  "is_issued (Issued _ _) = True"
| "is_issued (Observed _ _) = False"

fun run_calls :: "('k \<Rightarrow> int \<Rightarrow> 's \<Rightarrow> (exn + int) \<times> 's) \<Rightarrow> ('k \<Rightarrow> int \<Rightarrow> 's \<Rightarrow> (exn + int) \<times> 's) \<Rightarrow>
    'k call list \<Rightarrow> 's \<Rightarrow> 'k event list \<times> 's" where
  "run_calls issue note [] s = ([], s)"
| "run_calls issue note (Issue k f # cs) s =
     (case issue k f s of
        (Inl _, s1) \<Rightarrow> run_calls issue note cs s1
      | (Inr n, s1) \<Rightarrow> (case run_calls issue note cs s1 of (evs, s2) \<Rightarrow> (Issued k n # evs, s2)))"
| "run_calls issue note (Observe k m # cs) s =
     (case note k m s of
        (Inl _, s1) \<Rightarrow> run_calls issue note cs s1
      | (Inr _, s1) \<Rightarrow> (case run_calls issue note cs s1 of (evs, s2) \<Rightarrow> (Observed k m # evs, s2)))"

locale counter =
  fixes issue :: "'k \<Rightarrow> int \<Rightarrow> 's \<Rightarrow> (exn + int) \<times> 's"
    and note_seen :: "'k \<Rightarrow> int \<Rightarrow> 's \<Rightarrow> (exn + int) \<times> 's"
    and val :: "'s \<Rightarrow> 'k \<Rightarrow> int"
  assumes issue_Inr: "issue k f s = (Inr n, s') \<Longrightarrow> val s k < n \<and> f < n \<and> val s' = (val s)(k := n)"
    and issue_Inl: "issue k f s = (Inl e, s') \<Longrightarrow> val s' = val s"
    and note_Inr: "note_seen k m s = (Inr n, s') \<Longrightarrow> val s' = (val s)(k := max (val s k) m)"
    and note_Inl: "note_seen k m s = (Inl e, s') \<Longrightarrow> val s' = val s"
begin

lemma run_step:
  assumes "run_calls issue note_seen (c # cs) s = (evs, s')"
  obtains (Event) e evs1 s1 where "evs = e # evs1" "run_calls issue note_seen cs s1 = (evs1, s')"
      "val s1 = (val s)(ev_key e := max (val s (ev_key e)) (ev_val e))"
      "is_issued e \<longrightarrow> val s (ev_key e) < ev_val e"
    | (Raised) s1 where "run_calls issue note_seen cs s1 = (evs, s')" "val s1 = val s"
proof (cases c)
  case (Issue k f)
  obtain r s1 where r: "issue k f s = (r, s1)" by fastforce
  show thesis
  proof (cases r)
    case (Inl e)
    then show thesis using assms Issue r Raised issue_Inl by simp
  next
    case (Inr n)
    obtain evs1 where "run_calls issue note_seen cs s1 = (evs1, s')" "evs = Issued k n # evs1"
      using assms Issue r Inr by (simp split: prod.splits)
    then show thesis
      using Event [of "Issued k n" evs1 s1] issue_Inr [of k f s n s1] r Inr by simp
  qed
next
  case (Observe k m)
  obtain r s1 where r: "note_seen k m s = (r, s1)" by fastforce
  show thesis
  proof (cases r)
    case (Inl e)
    then show thesis using assms Observe r Raised note_Inl by simp
  next
    case (Inr n)
    obtain evs1 where "run_calls issue note_seen cs s1 = (evs1, s')" "evs = Observed k m # evs1"
      using assms Observe r Inr by (simp split: prod.splits)
    then show thesis
      using Event [of "Observed k m" evs1 s1] note_Inr [of k m s n s1] r Inr by simp
  qed
qed

lemma never_lowered: "run_calls issue note_seen cs s = (evs, s') \<Longrightarrow> val s k \<le> val s' k"
proof (induction cs arbitrary: s evs)
  case (Cons c cs)
  from Cons.prems show ?case
  proof (cases rule: run_step)
    case (Event e evs1 s1)
    then have "val s k \<le> val s1 k" by simp
    then show ?thesis using Cons.IH [OF Event(2)] by simp
  next
    case (Raised s1)
    then show ?thesis using Cons.IH [OF Raised(1)] by simp
  qed
qed simp

lemma events_bounded: "run_calls issue note_seen cs s = (evs, s') \<Longrightarrow> e \<in> set evs \<Longrightarrow>
    ev_val e \<le> val s' (ev_key e) \<and> (is_issued e \<longrightarrow> val s (ev_key e) < ev_val e)"
proof (induction cs arbitrary: s evs)
  case (Cons c cs)
  from Cons.prems(1) show ?case
  proof (cases rule: run_step)
    case (Event e1 evs1 s1)
    have "val s (ev_key e) \<le> val s1 (ev_key e)" by (simp add: Event(3))
    moreover have "ev_val e1 \<le> val s' (ev_key e1)"
      using never_lowered [OF Event(2), of "ev_key e1"] by (simp add: Event(3))
    ultimately show ?thesis
      using Cons.IH [OF Event(2)] Cons.prems(2) Event(1,4) by auto
  next
    case (Raised s1)
    then show ?thesis using Cons.IH [OF Raised(1)] Cons.prems(2) by simp
  qed
qed simp

lemma issued_after: "run_calls issue note_seen cs s = (evs, s') \<Longrightarrow>
    sorted_wrt (\<lambda>e e'. ev_key e = ev_key e' \<longrightarrow> is_issued e' \<longrightarrow> ev_val e < ev_val e') evs"
proof (induction cs arbitrary: s evs)
  case (Cons c cs)
  from Cons.prems show ?case
  proof (cases rule: run_step)
    case (Event e evs1 s1)
    have "ev_val e < ev_val e'" if "e' \<in> set evs1" "ev_key e = ev_key e'" "is_issued e'" for e'
      using events_bounded [OF Event(2) that(1)] that(2,3) by (simp add: Event(3))
    then show ?thesis using Cons.IH [OF Event(2)] Event(1) by simp
  next
    case (Raised s1)
    then show ?thesis using Cons.IH [OF Raised(1)] by simp
  qed
qed simp

lemma issued_distinct: "run_calls issue note_seen cs s = (evs, s') \<Longrightarrow> distinct (filter is_issued evs)"
proof -
  assume "run_calls issue note_seen cs s = (evs, s')"
  then have "sorted_wrt (\<lambda>e e'. ev_key e = ev_key e' \<longrightarrow> is_issued e' \<longrightarrow> ev_val e < ev_val e')
      (filter is_issued evs)"
    using issued_after sorted_wrt_filter by blast
  then show ?thesis by (induction evs) (auto split: if_splits)
qed

end

text \<open>The store as a counter per \<open>(did, scope)\<close>.\<close>

definition issue_nonce :: "pystr \<times> pystr \<Rightarrow> int \<Rightarrow> int dbop" where
  "issue_nonce k floor d =
     (case reserve (VStr (fst k)) (VStr (snd k)) floor d of
        (Inl e, d') \<Rightarrow> (Inl e, d') | (Inr r, d') \<Rightarrow> (Inr (rv_nonce r), d'))"

definition observe_nonce :: "pystr \<times> pystr \<Rightarrow> int \<Rightarrow> int dbop" where
  "observe_nonce k n d = observe (fst k) (snd k) (VInt n) d"

lemma last_nonce_upd: "last_nonce (d\<lparr>nonces := (nonces d)(k \<mapsto> n)\<rparr>) = (last_nonce d)(k := n)"
  by (auto simp: last_nonce_def)

lemma issue_nonce_Inr:
  assumes "issue_nonce k f d = (Inr n, d')"
  shows "0 \<le> f \<and> \<not> locked d \<and> n = next_nonce d k f \<and> n \<le> MAX_STORABLE_NONCE \<and>
    d' = d\<lparr>nonces := (nonces d)(k \<mapsto> n)\<rparr>"
proof -
  obtain r where r: "reserve (VStr (fst k)) (VStr (snd k)) f d = (Inr r, d')" "n = rv_nonce r"
    using assms by (auto simp: issue_nonce_def split: prod.splits sum.splits)
  from r(1) show ?thesis by (rule reserve_Inr) (auto simp: r(2))
qed

lemma issue_nonce_Inl: "issue_nonce k f d = (Inl e, d') \<Longrightarrow> d' = d"
  by (auto simp: issue_nonce_def split: prod.splits sum.splits dest: reserve_Inl)

lemma observe_nonce_Inr:
  assumes "observe_nonce k n d = (Inr m, d')"
  shows "m = max (last_nonce d k) n \<and> last_nonce d' = (last_nonce d)(k := m)"
  using assms unfolding observe_nonce_def
  by (rule observe_Inr) (auto simp: last_nonce_upd max_def)

interpretation store: counter issue_nonce observe_nonce last_nonce
proof
  fix k f d n d' assume "issue_nonce k f d = (Inr n, d')"
  then show "last_nonce d k < n \<and> f < n \<and> last_nonce d' = (last_nonce d)(k := n)"
    by (auto simp: next_nonce_def last_nonce_upd dest!: issue_nonce_Inr)
next
  fix k f d and e :: exn and d' assume "issue_nonce k f d = (Inl e, d')"
  then have "d' = d" by (rule issue_nonce_Inl)
  then show "last_nonce d' = last_nonce d" by simp
next
  fix k n d m d' assume "observe_nonce k n d = (Inr m, d')"
  then show "last_nonce d' = (last_nonce d)(k := max (last_nonce d k) n)"
    using observe_nonce_Inr by blast
next
  fix k n d and e :: exn and d' assume "observe_nonce k n d = (Inl e, d')"
  then have "d' = d" unfolding observe_nonce_def by (rule observe_Inl)
  then show "last_nonce d' = last_nonce d" by simp
qed

section \<open>The properties\<close>

text \<open>
  C38. The behaviour of \<open>reserve\<close> on every branch: it refuses an empty or non-string
  key and a negative floor before it touches the database, fails without effect
  when the write lock cannot be taken or the 64-bit ceiling is reached, and otherwise returns
  one more than the larger of the stored value and the floor, having stored
  exactly that.
\<close>

theorem reserve_functional:
  "reserve agent scope floor d =
    (case (agent, scope) of
       (VStr a, VStr s) \<Rightarrow>
         if a = [] then (Inl (NonceError DidEmpty), d)
         else if s = [] then (Inl (NonceError ScopeEmpty), d)
         else if floor < 0 then (Inl (NonceError FloorNegative), d)
         else if locked d then (Inl (OperationalError DatabaseLocked), d)
         else if \<not> text_key a s then (Inl UnicodeEncodeError, d)
         else let n = max (last_nonce d (a, s)) floor + 1
              in if n > MAX_STORABLE_NONCE then (Inl (NonceError NonceExhausted), d)
                 else (Inr \<lparr>rv_agent_did = a, rv_scope = s, rv_nonce = n\<rparr>,
                       d\<lparr>nonces := (nonces d)((a, s) \<mapsto> n)\<rparr>)
     | (VStr a, _) \<Rightarrow>
         if a = [] then (Inl (NonceError DidEmpty), d) else (Inl (NonceError ScopeEmpty), d)
     | _ \<Rightarrow> (Inl (NonceError DidEmpty), d))"
proof (cases "\<exists>a s. agent = VStr a \<and> scope = VStr s \<and> a \<noteq> [] \<and> s \<noteq> [] \<and> 0 \<le> floor")
  case True
  then obtain a s where as: "agent = VStr a" "scope = VStr s" "a \<noteq> []" "s \<noteq> []" "0 \<le> floor"
    by blast
  show ?thesis
  proof (cases "text_key a s")
    case True
    then show ?thesis using as by (simp add: reserve_eq next_nonce_def Let_def)
  next
    case False
    then show ?thesis using as
      by (simp add: reserve_def non_empty_str_def immediate_def reserve_body_not_text)
  qed
next
  case False
  then show ?thesis
    by (cases agent; cases scope)
       (auto simp: reserve_def non_empty_str_def split: if_splits)
qed

text \<open>
  C11. No nonce is issued twice and none regresses. For every sequence of reservations
  and observations over any keys, an issued nonce exceeds every nonce that was issued or
  observed before it for the same \<open>(did, scope)\<close>, exceeds the stored value the run
  started from, and the issued pairs are pairwise distinct; failed calls in between
  change nothing.
\<close>

theorem issued_nonces_strictly_increase:
  assumes "run_calls issue_nonce observe_nonce calls d = (events, d')"
  shows "sorted_wrt (\<lambda>e e'. ev_key e = ev_key e' \<longrightarrow> is_issued e' \<longrightarrow> ev_val e < ev_val e') events
    \<and> (\<forall>e \<in> set events. is_issued e \<longrightarrow> last_nonce d (ev_key e) < ev_val e)
    \<and> distinct (filter is_issued events)
    \<and> (\<forall>k. last_nonce d k \<le> last_nonce d' k)"
  using store.issued_after [OF assms] store.events_bounded [OF assms]
    store.issued_distinct [OF assms] store.never_lowered [OF assms] by blast

definition example_key :: "pystr \<times> pystr" where
  "example_key = (str_lit ''did:key:zA'', str_lit ''lobby'')"

lemma example_key_ok: "fst example_key \<noteq> []" "snd example_key \<noteq> []"
    "text_key (fst example_key) (snd example_key)"
  by (simp_all add: example_key_def text_key_def str_lit_def is_scalar_ascii)

lemma example_run:
  "\<exists>d'. run_calls issue_nonce observe_nonce
     [Issue example_key 0, Observe example_key 5, Issue example_key 0] empty_db =
     ([Issued example_key 1, Observed example_key 5, Issued example_key 6], d')"
  using example_key_ok
  by (simp add: issue_nonce_def observe_nonce_def reserve_eq next_nonce_def last_nonce_def
      empty_db_def MAX_STORABLE_NONCE_def observe_def validate_small immediate_def observe_body_eq)

theorem issued_nonces_strictly_increase_witness:
  "sorted_wrt (\<lambda>e e'. ev_key e = ev_key e' \<longrightarrow> is_issued e' \<longrightarrow> ev_val e < ev_val e')
     [Issued example_key 1, Observed example_key 5, Issued example_key 6]"
  using example_run issued_nonces_strictly_increase by blast

text \<open>
  A nonce the server reports may lie between the largest storable integer and the
  19-digit limit of the protocol. \<open>observe\<close> then passes its own validation and the
  database driver raises \<open>OverflowError\<close>; nothing is stored.
\<close>

theorem observe_overflows_past_int64:
  assumes "text_key a s" and "2 ^ 63 \<le> n" and "n < 10 ^ 19" and "\<not> locked d"
    and "last_nonce d (a, s) \<le> MAX_STORABLE_NONCE"
  shows "validate_nonce (VInt n) = Inr n \<and> observe a s (VInt n) d = (Inl OverflowError, d)"
proof -
  have v: "validate_nonce (VInt n) = Inr n"
    using assms(2,3) by (simp add: validate_nonce_Inr valid_nonce_def)
  moreover have "observe_body a s n d = (Inl OverflowError, d)"
    using assms(2,5) observe_body_eq [OF assms(1), of n d] by (simp add: MAX_STORABLE_NONCE_def)
  ultimately show ?thesis using assms(4) by (simp add: observe_def immediate_def)
qed

theorem observe_overflows_past_int64_witness:
  "observe (fst example_key) (snd example_key) (VInt (2 ^ 63)) empty_db = (Inl OverflowError, empty_db)"
  using observe_overflows_past_int64 [OF example_key_ok(3), of "2 ^ 63" empty_db]
  by (simp add: empty_db_def last_nonce_def MAX_STORABLE_NONCE_def)

text \<open>
  The scope of a note namespace is described as unable to collide with a room, yet
  a room may be called \<open>kv:ns\<close>: \<open>validate_room\<close> accepts the name, and the room and
  the namespace then share one counter.
\<close>

theorem kv_scope_collides_with_a_room:
  assumes "validate_name (VStr ns) = Inr ns" and "last ns \<noteq> 10"
  shows "validate_room (VStr (scope_for_kv ns)) = Inr (scope_for_kv ns) \<and>
    scope_for_room (scope_for_kv ns) = scope_for_kv ns"
proof -
  have name: "technocore_name ns"
    using assms by (auto simp: validate_name_Inr NAME_RE_match_def)
  have "33 \<le> c \<and> c \<le> 126 \<and> c \<notin> {124, 47, 63, 35}" if "c \<in> set (scope_for_kv ns)" for c
    using that technocore_name_chars [OF name] name_char_graphic
    by (auto simp: scope_for_kv_def str_lit_def)
  then have "clean_text (scope_for_kv ns)" "\<forall>c \<in> {124, 47, 63, 35}. c \<notin> set (scope_for_kv ns)"
    by (blast intro: clean_text_graphic, blast)
  moreover have "length (scope_for_kv ns) \<le> 128" "scope_for_kv ns \<noteq> []"
    using name by (simp_all add: scope_for_kv_def technocore_name_def str_lit_def)
  ultimately show ?thesis
    by (simp add: validate_room_Inr valid_room_def scope_for_room_def)
qed

theorem kv_scope_collides_with_a_room_witness:
  "validate_room (VStr (str_lit ''kv:flop'')) = Inr (str_lit ''kv:flop'')"
  using kv_scope_collides_with_a_room [of "str_lit ''flop''"]
  by (simp add: validate_name_Inr NAME_RE_match_def technocore_name_def name_start_def name_char_def
      str_lit_def scope_for_kv_def)

end
