(* ===== verification/LedgerSafety.thy ===== *)
theory LedgerSafety
  imports Ledger Nonce
begin

text \<open>
  What the ledger guarantees: the program's own operations keep the database consistent, the
  verifier accepts exactly the consistent chains and locates the first break, and a
  changed record is noticed or exhibits a collision of SHA-256. The limits are stated
  too: removing the newest records is not noticed, and the secret scan can be evaded.
\<close>

section \<open>The verifier\<close>

lemma select_ordered_simps [simp]:
  "select_ordered d = [] \<longleftrightarrow> activities d = []"
  "length (select_ordered d) = length (activities d)"
  "set (select_ordered d) = set (activities d)"
proof -
  show len: "length (select_ordered d) = length (activities d)"
    by (simp add: select_ordered_def)
  show "select_ordered d = [] \<longleftrightarrow> activities d = []"
    using len by (metis length_0_conv)
qed (simp add: select_ordered_def)

lemma verify_chain_empty: "activities d = [] \<Longrightarrow> verify_chain d =
    Inr \<lparr>v_status = EMPTY, v_records_checked = 0, v_head_hash = None, v_first_break = None\<rparr>"
  by (simp add: verify_chain_def select_ordered_def)

lemma verify_chain_valid:
  assumes "chain_ok (select_ordered d)" and "activities d \<noteq> []"
  shows "verify_chain d = Inr \<lparr>v_status = VALID, v_records_checked = length (activities d),
    v_head_hash = Some (r_entry_hash (last (select_ordered d))), v_first_break = None\<rparr>"
  using verify_rows_linked [of "select_ordered d" 0 GENESIS_PREV_HASH] assms
  by (simp add: verify_chain_def Let_def chain_ok_def linked_def head_after_def)

lemma verify_chain_break:
  assumes "\<forall>r \<in> set (activities d). storable_row r" and "i < length (select_ordered d)"
    and "\<forall>j < i. linked (select_ordered d) j" and "\<not> linked (select_ordered d) i"
  shows "\<exists>v. verify_chain d = Inr v \<and> is_break i 0 GENESIS_PREV_HASH (select_ordered d) v"
  using verify_rows_break [of "select_ordered d" i 0 GENESIS_PREV_HASH] assms
  by (auto simp: verify_chain_def Let_def linked_def)

lemma chain_dichotomy: "chain_ok rows \<or>
    (\<exists>i < length rows. (\<forall>j < i. linked rows j) \<and> \<not> linked rows i)"
  using first_unlinked [of rows 0 GENESIS_PREV_HASH] by (simp add: chain_ok_def linked_def)

text \<open>
  C7. The verifier is complete and locates the first break. On any table whose values SQLite
  can hold it returns: EMPTY for no rows, VALID exactly when every record carries
  its position, the hash of its predecessor and its own recomputed hash, and otherwise BROKEN
  with the first record that does not, its identity, the reason, and the number of
  records before it.
\<close>

theorem verify_locates_the_first_break:
  assumes "\<forall>r \<in> set (activities d). storable_row r"
  shows "\<exists>v. verify_chain d = Inr v \<and>
    (v_status v = EMPTY \<longleftrightarrow> activities d = []) \<and>
    (v_status v = VALID \<longleftrightarrow> activities d \<noteq> [] \<and> chain_ok (select_ordered d)) \<and>
    (v_status v = VALID \<longrightarrow> v_records_checked v = length (activities d) \<and>
       v_head_hash v = Some (r_entry_hash (last (select_ordered d)))) \<and>
    (v_status v = BROKEN \<longrightarrow> (\<exists>i < length (select_ordered d).
       (\<forall>j < i. linked (select_ordered d) j) \<and> \<not> linked (select_ordered d) i \<and>
       is_break i 0 GENESIS_PREV_HASH (select_ordered d) v))"
proof (cases "activities d = []")
  case True
  then show ?thesis by (simp add: verify_chain_empty)
next
  case False
  show ?thesis
  proof (cases "chain_ok (select_ordered d)")
    case True
    then show ?thesis using verify_chain_valid [OF True False] False by simp
  next
    case nok: False
    then obtain i where i: "i < length (select_ordered d)" "\<forall>j < i. linked (select_ordered d) j"
        "\<not> linked (select_ordered d) i"
      using chain_dichotomy by blast
    obtain v where v: "verify_chain d = Inr v" "is_break i 0 GENESIS_PREV_HASH (select_ordered d) v"
      using verify_chain_break [OF assms i] by blast
    then have "v_status v = BROKEN" by (simp add: is_break_def)
    then show ?thesis using v i nok False by auto
  qed
qed

theorem verify_locates_the_first_break_witness:
  "\<exists>v. verify_chain (empty_db\<lparr>activities := [example_row]\<rparr>) = Inr v \<and> v_status v \<noteq> EMPTY"
  using verify_locates_the_first_break [of "empty_db\<lparr>activities := [example_row]\<rparr>"] storable_example
  by auto

section \<open>Appending\<close>

text \<open>
  A ledger that every program run keeps: the constraints of the schema, the positions and
  the links. \<open>ledger_ok\<close> asks for the hashes too.
\<close>

definition ledger_kept :: "bool \<Rightarrow> db \<Rightarrow> bool" where
  "ledger_kept honest d \<longleftrightarrow> db_ok d \<and> chain_kept honest (activities d)"

abbreviation ledger_ok :: "db \<Rightarrow> bool" where
  "ledger_ok \<equiv> ledger_kept True"

lemma ledger_ok_def: "ledger_ok d \<longleftrightarrow> db_ok d \<and> chain_ok (activities d)"
  by (simp add: ledger_kept_def)

lemma ledger_kept_empty: "ledger_kept h empty_db"
  by (simp add: ledger_kept_def db_ok_def nonces_ok_def chain_kept_def empty_db_def)

lemmas ledger_ok_empty = ledger_kept_empty [of True]

lemma ledger_ok_kept: "ledger_ok d \<Longrightarrow> ledger_kept h d"
  by (auto simp: ledger_kept_def chain_kept_def kept_linked chain_ok_def) (simp add: kept_linked [symmetric] kept_at_def)

lemma ledger_kept_ordered: "ledger_kept h d \<Longrightarrow> select_ordered d = activities d"
  unfolding ledger_kept_def select_ordered_def by (blast intro: chain_kept_ordered)

lemma rows_ok_storable: "rows_ok rows \<Longrightarrow> r \<in> set rows \<Longrightarrow> storable_row r"
  by (induction rows) auto

lemma ledger_kept_storable: "ledger_kept h d \<Longrightarrow> \<forall>r \<in> set (activities d). storable_row r"
  using rows_ok_storable [of "rev (activities d)"] by (auto simp: ledger_kept_def db_ok_def)

text \<open>The row that an activity becomes after the rows that are there.\<close>

definition next_row :: "pystr \<Rightarrow> pystr \<Rightarrow> pystr option \<Rightarrow> Activity \<Rightarrow> row list \<Rightarrow> row" where
  "next_row i t m a rows =
     activity_row i t (int (length rows)) (head_after GENESIS_PREV_HASH rows) m a"

lemma ledger_head: "ledger_kept h d \<Longrightarrow> select_head d = (if activities d = [] then None else Some (last (activities d)))"
  by (cases "activities d" rule: rev_cases) (simp_all add: select_head_def ledger_kept_ordered)

lemma append_body_eq:
  assumes "ledger_kept h d"
  shows "append_body i t m a d =
    (let row = next_row i t m a (activities d) in
     case rbind (ref_exists (a_ref_activity_id a) d)
        (\<lambda>_. unsaved_entry_hash (seq_bool (a_tc_seq a)) row) of
       Inl e \<Rightarrow> (Inl e, d)
     | Inr h \<Rightarrow> (case insert_activity (row\<lparr>r_entry_hash := h\<rparr>) d of
          (Inl e, d') \<Rightarrow> (Inl e, d')
        | (Inr _, d') \<Rightarrow>
            (Inr \<lparr>lr_activity_id = i, lr_chain_index = int (length (activities d)),
               lr_prev_hash = head_after GENESIS_PREV_HASH (activities d), lr_entry_hash = h,
               lr_recorded_at = t\<rparr>, d')))"
proof -
  have idx: "(case select_head d of None \<Rightarrow> 0 | Some h \<Rightarrow> r_chain_index h + 1) =
      int (length (activities d))"
  proof (cases "activities d" rule: rev_cases)
    case (snoc rows r)
    then have "r_chain_index r = int (length rows)"
      using assms chain_kept_index [of h "activities d" "length rows"] by (simp add: ledger_kept_def)
    then show ?thesis by (simp add: ledger_head [OF assms] snoc)
  qed (simp add: ledger_head [OF assms])
  have prev: "(case select_head d of None \<Rightarrow> GENESIS_PREV_HASH | Some h \<Rightarrow> r_entry_hash h) =
      head_after GENESIS_PREV_HASH (activities d)"
    by (simp add: ledger_head [OF assms] head_after_def)
  show ?thesis unfolding append_body_def Let_def idx prev next_row_def by (rule refl)
qed

lemma append_body_Inr:
  assumes "ledger_kept h d" and "append_body i t m a d = (Inr lr, d')"
  obtains h where "unsaved_entry_hash (seq_bool (a_tc_seq a)) (next_row i t m a (activities d)) = Inr h"
    "insert_activity ((next_row i t m a (activities d))\<lparr>r_entry_hash := h\<rparr>) d = (Inr (), d')"
    "lr = \<lparr>lr_activity_id = i, lr_chain_index = int (length (activities d)),
       lr_prev_hash = head_after GENESIS_PREV_HASH (activities d), lr_entry_hash = h, lr_recorded_at = t\<rparr>"
  using assms(2) unfolding append_body_eq [OF assms(1)]
  by (auto simp: Let_def rbind_eq_Inr split: sum.splits prod.splits)

lemma append_activity_Inr:
  "append_activity i t a d = (Inr lr, d') \<longleftrightarrow>
     (\<exists>m. validate_activity a = Inr () \<and> meta_text a = Inr m \<and> refuse_secrets a m = Inr () \<and>
       \<not> locked d \<and> append_body i t m a d = (Inr lr, d'))"
  by (auto simp: append_activity_def rbind_eq_Inr immediate_Inr split: sum.splits)

lemma append_activity_Inl: "append_activity i t a d = (Inl e, d') \<Longrightarrow> d' = d"
  by (auto simp: append_activity_def immediate_rolls_back split: sum.splits)

text \<open>An activity whose \<open>tc_seq\<close> is no \<open>bool\<close> is hashed as it is stored.\<close>

definition plain_seq :: "Activity \<Rightarrow> bool" where
  "plain_seq a \<longleftrightarrow> seq_bool (a_tc_seq a) = None"

lemma plain_seq_hash [simp]: "plain_seq a \<Longrightarrow>
    unsaved_entry_hash (seq_bool (a_tc_seq a)) r = compute_entry_hash r"
  by (simp add: plain_seq_def unsaved_entry_hash_def)

lemma boolean_hash_next:
  assumes "seq_bool (a_tc_seq a) = Some b" and r: "r = next_row i t m a rows"
    and "unsaved_entry_hash (Some b) r = Inr e"
  shows "boolean_hash (r\<lparr>r_entry_hash := e\<rparr>)"
proof -
  have "a_tc_seq a = Some (SeqBool b)"
    using assms(1) by (cases "a_tc_seq a" rule: seq_bool.cases) auto
  then have "r_tc_seq r = Some (if b then 1 else 0)" by (simp add: r next_row_def activity_row_def)
  moreover have "unsaved_entry_hash (Some b) (r\<lparr>r_entry_hash := e\<rparr>) = Inr e"
    using assms(3) unfolding unsaved_entry_hash_Some chained_members_entry_hash .
  ultimately show ?thesis unfolding boolean_hash_def by (intro exI [where x = b]) simp
qed

lemma append_keeps_ledger:
  assumes "ledger_kept h d" and "h \<Longrightarrow> plain_seq a" and "append_activity i t a d = (Inr lr, d')"
  shows "ledger_kept h d'"
proof -
  obtain m where m: "append_body i t m a d = (Inr lr, d')"
    using assms(3) append_activity_Inr by blast
  let ?r = "next_row i t m a (activities d)"
  from assms(1) m obtain e where e: "unsaved_entry_hash (seq_bool (a_tc_seq a)) ?r = Inr e"
      "insert_activity (?r\<lparr>r_entry_hash := e\<rparr>) d = (Inr (), d')"
    by (rule append_body_Inr)
  then have d': "d' = d\<lparr>activities := activities d @ [?r\<lparr>r_entry_hash := e\<rparr>]\<rparr>"
    using insert_activity_Inr by blast
  have "db_ok d'" using insert_activity_db_ok e(2) assms(1) ledger_kept_def by blast
  moreover have "r_chain_index (?r\<lparr>r_entry_hash := e\<rparr>) = int (length (activities d))"
      "r_prev_hash (?r\<lparr>r_entry_hash := e\<rparr>) = head_after GENESIS_PREV_HASH (activities d)"
    by (simp_all add: next_row_def activity_row_def)
  moreover have "compute_entry_hash (?r\<lparr>r_entry_hash := e\<rparr>) = Inr e \<or>
      \<not> h \<and> boolean_hash (?r\<lparr>r_entry_hash := e\<rparr>)"
  proof (cases "seq_bool (a_tc_seq a)")
    case None
    then show ?thesis using e(1) by (simp add: unsaved_entry_hash_def)
  next
    case (Some b)
    then have "\<not> h" using assms(2) by (auto simp: plain_seq_def)
    then show ?thesis using boolean_hash_next [OF Some refl e(1) [unfolded Some]] by simp
  qed
  ultimately show ?thesis
    using assms(1) by (simp add: d' chain_kept_snoc ledger_kept_def)
qed

lemma append_activity_functional:
  assumes "ledger_kept h d" and "append_activity i t a d = (Inr lr, d')"
  obtains m h where "validate_activity a = Inr ()" "meta_text a = Inr m" "refuse_secrets a m = Inr ()"
    "unsaved_entry_hash (seq_bool (a_tc_seq a)) (next_row i t m a (activities d)) = Inr h"
    "d' = d\<lparr>activities := activities d @ [(next_row i t m a (activities d))\<lparr>r_entry_hash := h\<rparr>]\<rparr>"
    "lr = \<lparr>lr_activity_id = i, lr_chain_index = int (length (activities d)),
       lr_prev_hash = head_after GENESIS_PREV_HASH (activities d), lr_entry_hash = h, lr_recorded_at = t\<rparr>"
proof -
  obtain m where m: "validate_activity a = Inr ()" "meta_text a = Inr m" "refuse_secrets a m = Inr ()"
      "append_body i t m a d = (Inr lr, d')"
    using assms(2) append_activity_Inr by blast
  from assms(1) m(4) show thesis
    by (rule append_body_Inr) (use m that insert_activity_Inr in blast)
qed

text \<open>
  C8. A successful append adds exactly one record, at the end: it carries the next
  position, the hash of the previous record (or the genesis value), the fields of the
  activity, and the hash returned to the caller; counters are untouched, the table stays
  consistent, and the verifier then reports VALID with one more record and that hash as head.
  A failed append leaves the database as it was. The activity must not carry a \<open>bool\<close>
  as server sequence number.
\<close>

theorem append_extends_a_valid_chain:
  assumes "ledger_ok d" and "plain_seq a"
  shows "case append_activity i t a d of
      (Inl e, d') \<Rightarrow> d' = d
    | (Inr lr, d') \<Rightarrow> ledger_ok d' \<and> nonces d' = nonces d \<and>
        (\<exists>m. meta_text a = Inr m \<and>
          activities d' = activities d @
            [(activity_row i t (int (count d)) (lr_prev_hash lr) m a)\<lparr>r_entry_hash := lr_entry_hash lr\<rparr>]) \<and>
        lr_chain_index lr = int (count d) \<and>
        lr_prev_hash lr = (if activities d = [] then GENESIS_PREV_HASH else r_entry_hash (last (activities d))) \<and>
        verify_chain d' = Inr \<lparr>v_status = VALID, v_records_checked = count d + 1,
          v_head_hash = Some (lr_entry_hash lr), v_first_break = None\<rparr>"
proof (cases "append_activity i t a d")
  case (Pair res d')
  show ?thesis
  proof (cases res)
    case (Inl e)
    then show ?thesis using append_activity_Inl Pair by simp
  next
    case (Inr lr)
    then have ap: "append_activity i t a d = (Inr lr, d')" using Pair by simp
    then have ok: "ledger_ok d'" using append_keeps_ledger [OF assms(1) assms(2) ap] by blast
    from assms(1) ap obtain m h where r: "meta_text a = Inr m"
        "d' = d\<lparr>activities := activities d @ [(next_row i t m a (activities d))\<lparr>r_entry_hash := h\<rparr>]\<rparr>"
        "lr = \<lparr>lr_activity_id = i, lr_chain_index = int (length (activities d)),
          lr_prev_hash = head_after GENESIS_PREV_HASH (activities d), lr_entry_hash = h, lr_recorded_at = t\<rparr>"
      by (rule append_activity_functional)
    then have "verify_chain d' = Inr \<lparr>v_status = VALID, v_records_checked = count d + 1,
        v_head_hash = Some h, v_first_break = None\<rparr>"
      using ok verify_chain_valid [of d'] ledger_kept_ordered [OF ok]
      by (simp add: ledger_ok_def count_def)
    then show ?thesis using Pair Inr ok r by (simp add: next_row_def count_def head_after_def)
  qed
qed

section \<open>Every run of the program\<close>

text \<open>
  One step of any code that uses the database through the program: an append, a
  reservation, an observation, or an attempt to update or delete rows, each with any
  arguments and any outcome; the lock may be taken or released by others in between. The
  appends of an \<open>honest\<close> run have no \<open>bool\<close> as server sequence number; other runs may, as the
  answer of a server goes into the ledger as it comes.
\<close>

inductive ledger_step :: "bool \<Rightarrow> db \<Rightarrow> db \<Rightarrow> bool" for honest where
  step_append: "(honest \<Longrightarrow> plain_seq a) \<Longrightarrow> append_activity i t a d = (r, d') \<Longrightarrow> ledger_step honest d d'"
| step_reserve: "reserve agent scope floor d = (r, d') \<Longrightarrow> ledger_step honest d d'"
| step_observe: "observe agent_did nonce_scope nonce d = (r, d') \<Longrightarrow> ledger_step honest d d'"
| step_update: "update_activities hit change d = (r, d') \<Longrightarrow> ledger_step honest d d'"
| step_delete: "delete_activities hit d = (r, d') \<Longrightarrow> ledger_step honest d d'"
| step_lock: "ledger_step honest d (d\<lparr>locked := b\<rparr>)"

inductive reachable :: "bool \<Rightarrow> db \<Rightarrow> bool" for honest where
  reachable_empty: "reachable honest empty_db"
| reachable_step: "reachable honest d \<Longrightarrow> ledger_step honest d d' \<Longrightarrow> reachable honest d'"

lemma reserve_db: "reserve agent scope floor d = (r, d') \<Longrightarrow> db_ok d \<Longrightarrow>
    db_ok d' \<and> activities d' = activities d"
proof (cases r)
  case (Inl e)
  assume "reserve agent scope floor d = (r, d')" "db_ok d"
  then show ?thesis using reserve_Inl Inl by blast
next
  case (Inr rv)
  assume r: "reserve agent scope floor d = (r, d')" and ok: "db_ok d"
  from r Inr obtain k n where n: "0 \<le> last_nonce d k \<or> True" "0 \<le> floor" "n = next_nonce d k floor"
      "n \<le> MAX_STORABLE_NONCE" "d' = d\<lparr>nonces := (nonces d)(k \<mapsto> n)\<rparr>"
    by (auto elim!: reserve_Inr)
  then have "0 \<le> n" by (simp add: next_nonce_def)
  then show ?thesis using n ok by (auto simp: db_ok_def nonces_ok_def)
qed

lemma observe_db: "observe agent scope v d = (r, d') \<Longrightarrow> db_ok d \<Longrightarrow>
    db_ok d' \<and> activities d' = activities d"
proof (cases r)
  case (Inl e)
  assume "observe agent scope v d = (r, d')" "db_ok d"
  then show ?thesis using observe_Inl Inl by blast
next
  case (Inr m)
  assume r: "observe agent scope v d = (r, d')" and ok: "db_ok d"
  then obtain n where n: "validate_nonce v = Inr n" "observe_body agent scope n d = (Inr m, d')"
    using Inr by (auto simp: observe_def immediate_Inr split: sum.splits)
  then have tk: "text_key agent scope" by (cases "text_key agent scope") (simp_all add: observe_body_not_text)
  have "0 \<le> n" using n(1) by (simp add: validate_nonce_Inr valid_nonce_def)
  then show ?thesis
    using n(2) ok by (auto simp: observe_body_eq [OF tk] db_ok_def nonces_ok_def split: if_splits)
qed

lemma update_activities_same: "update_activities hit change d = (r, d') \<Longrightarrow> d' = d"
proof -
  have "\<forall>x \<in> set xs. \<not> hit x \<Longrightarrow> map (\<lambda>r. if hit r then change r else r) xs = xs" for xs
    by (induction xs) auto
  then show "update_activities hit change d = (r, d') \<Longrightarrow> d' = d"
    by (auto simp: update_activities_def split: if_splits)
qed

lemma delete_activities_same: "delete_activities hit d = (r, d') \<Longrightarrow> d' = d"
  by (auto simp: delete_activities_def filter_id_conv split: if_splits)

lemma ledger_step_extends:
  assumes "ledger_step h d d'" and "ledger_kept h d"
  shows "ledger_kept h d' \<and> (\<exists>new. activities d' = activities d @ new)"
  using assms(1)
proof (cases rule: ledger_step.cases)
  case (step_append a i t r)
  show ?thesis
  proof (cases r)
    case (Inl e)
    then show ?thesis using step_append append_activity_Inl assms(2) by blast
  next
    case (Inr lr)
    then have ap: "append_activity i t a d = (Inr lr, d')" using step_append by simp
    from assms(2) ap have "\<exists>new. activities d' = activities d @ new"
      by (rule append_activity_functional) simp
    then show ?thesis using append_keeps_ledger [OF assms(2) step_append(1) ap] by blast
  qed
next
  case (step_reserve agent scope floor r)
  then show ?thesis using reserve_db assms(2) by (simp add: ledger_kept_def)
next
  case (step_observe agent scope nonce r)
  then show ?thesis using observe_db assms(2) by (simp add: ledger_kept_def)
next
  case (step_update hit change r)
  then show ?thesis using update_activities_same assms(2) by blast
next
  case (step_delete hit r)
  then show ?thesis using delete_activities_same assms(2) by blast
next
  case (step_lock b)
  then show ?thesis using assms(2) by (simp add: ledger_kept_def db_ok_def)
qed

lemma reachable_ledger_kept: "reachable h d \<Longrightarrow> ledger_kept h d"
  by (induction rule: reachable.induct) (use ledger_kept_empty ledger_step_extends in blast)+

lemma ledger_ok_verifies: "ledger_ok d \<Longrightarrow> \<exists>v. verify_chain d = Inr v \<and> verify_ok v \<and>
    v_records_checked v = count d"
  using verify_chain_valid [of d] verify_chain_empty [of d]
  by (cases "activities d = []")
     (simp_all add: verify_ok_def count_def ledger_kept_ordered, simp add: ledger_ok_def)

text \<open>The verdict on a row that was written with a \<open>bool\<close>, the first one whose hash does not fit.\<close>

definition broken_by_boolean :: "db \<Rightarrow> VerifyResult \<Rightarrow> bool" where
  "broken_by_boolean d v \<longleftrightarrow> (\<exists>i < count d. boolean_hash (activities d ! i) \<and>
     (\<forall>j < i. linked (activities d) j) \<and> v_status v = BROKEN \<and> v_records_checked v = i \<and>
     (\<exists>b. v_first_break v = Some b \<and> b_kind b = HASH_MISMATCH \<and>
        b_activity_id b = r_activity_id (activities d ! i)))"

lemma ledger_kept_verdict:
  assumes "ledger_kept h d"
  shows "\<exists>v. verify_chain d = Inr v \<and>
    (verify_ok v \<and> v_records_checked v = count d \<or> \<not> h \<and> broken_by_boolean d v)"
proof (cases "chain_ok (activities d)")
  case True
  then have "ledger_ok d" using assms by (simp add: ledger_ok_def ledger_kept_def)
  then show ?thesis using ledger_ok_verifies by blast
next
  case False
  then obtain i where i: "i < length (activities d)" "\<forall>j < i. linked (activities d) j"
      "\<not> linked (activities d) i"
    using chain_dichotomy by blast
  have kept: "kept_at h (activities d) i" using assms i(1) by (simp add: ledger_kept_def chain_kept_def)
  with i(3) have bool: "\<not> h" "boolean_hash (activities d ! i)"
    by (auto simp: kept_at_def linked_def linked_at_def)
  have kind: "break_kind i (if i = 0 then GENESIS_PREV_HASH else r_entry_hash (activities d ! (i - 1)))
      (activities d ! i) = HASH_MISMATCH"
    using kept by (simp add: break_kind_def kept_at_def)
  from verify_chain_break [OF ledger_kept_storable [OF assms], of i] i
  obtain v where "verify_chain d = Inr v" "is_break i 0 GENESIS_PREV_HASH (activities d) v"
    unfolding ledger_kept_ordered [OF assms] by auto
  then show ?thesis
    using bool kind i by (auto simp: broken_by_boolean_def is_break_def count_def)
qed

text \<open>
  C1. Append-only. In every state the program can reach, by any interleaving of appends,
  nonce operations and attempted updates and deletions, the table satisfies all
  constraints of the schema, and a further step keeps every record in place, adding at most
  new ones at the end. The verifier always answers. It accepts all records of a run in which
  no server sequence number was a \<open>bool\<close>; otherwise it may instead report a hash mismatch,
  exactly at the first record written with a \<open>bool\<close> whose hash does not fit.
\<close>

theorem reachable_ledgers_verify_and_only_grow:
  assumes "reachable honest d"
  shows "db_ok d \<and>
    (\<exists>v. verify_chain d = Inr v \<and>
       (verify_ok v \<and> v_records_checked v = count d \<or> \<not> honest \<and> broken_by_boolean d v)) \<and>
    (\<forall>d'. ledger_step honest d d' \<longrightarrow> (\<exists>new. activities d' = activities d @ new))"
  using reachable_ledger_kept [OF assms] ledger_kept_verdict ledger_step_extends
  unfolding ledger_kept_def by blast

section \<open>Tamper evidence\<close>

text \<open>Two rows whose serialisations are a collision of SHA-256.\<close>

definition rows_collide :: "row \<Rightarrow> row \<Rightarrow> bool" where
  "rows_collide r q \<longleftrightarrow> (\<exists>b b'. canonical_bytes r = Inr b \<and> canonical_bytes q = Inr b' \<and>
     sha256_collision b b')"

lemma same_hash_same_row:
  assumes "compute_entry_hash r = Inr (r_entry_hash r)" and "compute_entry_hash q = Inr (r_entry_hash q)"
    and "r_entry_hash r = r_entry_hash q"
  shows "r = q \<or> rows_collide r q"
proof -
  have "r\<lparr>r_entry_hash := r_entry_hash r\<rparr> = q\<lparr>r_entry_hash := r_entry_hash r\<rparr> \<or> rows_collide r q"
    using compute_entry_hash_commits [of r "r_entry_hash r" q] assms by (simp add: rows_collide_def)
  moreover have "r\<lparr>r_entry_hash := r_entry_hash r\<rparr> = r" "q\<lparr>r_entry_hash := r_entry_hash q\<rparr> = q"
    by simp_all
  ultimately show ?thesis using assms(3) by metis
qed

lemma chain_last: "chain_ok rows \<Longrightarrow> rows \<noteq> [] \<Longrightarrow>
    compute_entry_hash (last rows) = Inr (r_entry_hash (last rows))"
  by (cases rows rule: rev_cases) (simp_all add: chain_ok_snoc)

text \<open>The head determines the history.\<close>

lemma head_determines_rows:
  "chain_ok xs \<Longrightarrow> chain_ok ys \<Longrightarrow> xs \<noteq> [] \<Longrightarrow> ys \<noteq> [] \<Longrightarrow>
   r_entry_hash (last xs) = r_entry_hash (last ys) \<Longrightarrow>
   xs = ys \<or> (\<exists>r \<in> set xs. \<exists>q \<in> set ys. rows_collide r q)"
proof (induction xs arbitrary: ys rule: rev_induct)
  case (snoc x xs)
  obtain ys' y where ys: "ys = ys' @ [y]" using snoc.prems(4) by (cases ys rule: rev_cases) auto
  have "x = y \<or> rows_collide x y"
    using same_hash_same_row [of x y] snoc.prems by (simp add: ys chain_ok_snoc)
  then show ?case
  proof
    assume xy: "x = y"
    have len: "length xs = length ys'"
      using snoc.prems(1,2) xy by (simp add: ys chain_ok_snoc)
    show ?thesis
    proof (cases "xs = []")
      case True
      then show ?thesis using len xy ys by simp
    next
      case False
      then have "ys' \<noteq> []" using len by auto
      moreover have "r_entry_hash (last xs) = r_entry_hash (last ys')"
        using snoc.prems(1,2) xy False \<open>ys' \<noteq> []\<close> by (auto simp: ys chain_ok_snoc head_after_def)
      ultimately have "xs = ys' \<or> (\<exists>r \<in> set xs. \<exists>q \<in> set ys'. rows_collide r q)"
        using snoc.IH [of ys'] snoc.prems(1,2) False by (simp add: ys chain_ok_snoc)
      then show ?thesis using xy ys by auto
    qed
  qed (use ys in auto)
qed simp

text \<open>
  C16. The head hash commits to the whole ledger: two ledgers that both verify with the same
  head hash are record for record the same, or somewhere two of their records collide under
  SHA-256. Keeping the head outside the file therefore detects every rewriting of
  history, including edits after which the whole chain was recomputed.
\<close>

theorem head_hash_commits_to_the_ledger:
  assumes "verify_chain d = Inr v" and "verify_chain d' = Inr v'"
    and "v_status v = VALID" and "v_status v' = VALID" and "v_head_hash v = v_head_hash v'"
    and "\<forall>r \<in> set (activities d) \<union> set (activities d'). storable_row r"
  shows "select_ordered d = select_ordered d' \<or>
    (\<exists>r \<in> set (activities d). \<exists>q \<in> set (activities d'). rows_collide r q)"
proof -
  have valid: "chain_ok (select_ordered e) \<and> activities e \<noteq> [] \<and>
      v_head_hash w = Some (r_entry_hash (last (select_ordered e)))"
    if "verify_chain e = Inr w" "v_status w = VALID" "\<forall>r \<in> set (activities e). storable_row r" for e w
  proof -
    have ne: "activities e \<noteq> []" using that(1,2) by (auto simp: verify_chain_empty)
    have ok: "chain_ok (select_ordered e)"
    proof (rule ccontr)
      assume "\<not> chain_ok (select_ordered e)"
      then obtain i where "i < length (select_ordered e)" "\<forall>j < i. linked (select_ordered e) j"
          "\<not> linked (select_ordered e) i"
        using chain_dichotomy by blast
      then show False using verify_chain_break [OF that(3)] that(1,2) by (fastforce simp: is_break_def)
    qed
    show ?thesis using verify_chain_valid [OF ok ne] ok ne that(1) by auto
  qed
  then have "chain_ok (select_ordered d)" "chain_ok (select_ordered d')"
      "activities d \<noteq> []" "activities d' \<noteq> []"
      "r_entry_hash (last (select_ordered d)) = r_entry_hash (last (select_ordered d'))"
    using assms by auto
  then show ?thesis using head_determines_rows [of "select_ordered d" "select_ordered d'"] by simp
qed

text \<open>Replacing a row and keeping the positions keeps the order of the rows.\<close>

lemma edited_ordered:
  assumes "ledger_ok d" and "i < count d" and "r_chain_index r' = int i"
  shows "select_ordered (d\<lparr>activities := (activities d)[i := r']\<rparr>) = (activities d)[i := r']"
proof -
  have "r_chain_index ((activities d)[i := r'] ! j) = int j" if "j < count d" for j
    using that assms chain_ok_index [of "activities d" j]
    by (cases "j = i") (simp_all add: ledger_ok_def count_def)
  then have "sort_key r_chain_index ((activities d)[i := r']) = (activities d)[i := r']"
    by (intro sort_key_increasing) (simp add: sorted_wrt_iff_nth_less count_def)
  then show ?thesis by (simp add: select_ordered_def)
qed

lemma edited_linked:
  assumes "ledger_ok d" and "j < i" and "i < count d"
  shows "linked ((activities d)[i := r']) j"
proof -
  have "linked (activities d) j"
    using assms by (simp add: ledger_ok_def chain_ok_def count_def)
  then show ?thesis
    using assms by (cases j) (simp_all add: linked_def linked_at_def)
qed

text \<open>
  Editing a record in place is detected at that record. If a stored record is replaced by one
  with a different content under the same position and the same \<open>entry_hash\<close>, the
  verifier answers BROKEN after checking exactly the records before it, unless the edit is a
  collision of SHA-256 with the original.
\<close>

theorem edited_record_is_located:
  assumes "ledger_ok d" and "i < count d" and "storable_row r'"
    and "r' \<noteq> activities d ! i" and "r_chain_index r' = int i"
    and "r_entry_hash r' = r_entry_hash (activities d ! i)"
  shows "(\<exists>v. verify_chain (d\<lparr>activities := (activities d)[i := r']\<rparr>) = Inr v \<and>
      v_status v = BROKEN \<and> v_records_checked v = i) \<or>
    rows_collide (activities d ! i) r'"
proof (cases "rows_collide (activities d ! i) r'")
  case False
  let ?d = "d\<lparr>activities := (activities d)[i := r']\<rparr>"
  have ord: "select_ordered ?d = (activities d)[i := r']" by (rule edited_ordered [OF assms(1,2,5)])
  have "linked (activities d) i" using assms(1,2) by (simp add: ledger_ok_def chain_ok_def count_def)
  then have "compute_entry_hash (activities d ! i) = Inr (r_entry_hash (activities d ! i))"
    by (simp add: linked_def linked_at_def)
  then have "compute_entry_hash r' \<noteq> Inr (r_entry_hash r')"
    using same_hash_same_row [of "activities d ! i" r'] assms(4,6) False by metis
  then have "\<not> linked (select_ordered ?d) i"
    using assms(2) by (simp add: ord linked_def linked_at_def count_def)
  moreover have "\<forall>j < i. linked (select_ordered ?d) j"
    using edited_linked [OF assms(1) _ assms(2)] by (simp add: ord)
  moreover have "\<forall>r \<in> set (activities ?d). storable_row r"
    using ledger_kept_storable [OF assms(1)] assms(3) set_update_subset_insert by fastforce
  ultimately obtain v where "verify_chain ?d = Inr v" "is_break i 0 GENESIS_PREV_HASH (select_ordered ?d) v"
    using verify_chain_break [of ?d i] assms(2) by (auto simp: count_def)
  then show ?thesis by (auto simp: is_break_def)
qed simp

text \<open>
  A boolean sequence number breaks the chain. The row is hashed while \<open>tc_seq\<close> is
  still \<open>True\<close> or \<open>False\<close>, but SQLite stores 1 or 0: the append succeeds and the
  verifier then reports that very record as a hash mismatch, unless SHA-256 collides. A server
  whose answer holds \<open>"seq": true\<close> can so damage the ledger of the publisher.
\<close>

theorem boolean_seq_breaks_the_chain:
  assumes "ledger_ok d" and "a_tc_seq a = Some (SeqBool b)"
    and "append_activity i t a d = (Inr lr, d')"
  shows "(\<exists>v k. verify_chain d' = Inr v \<and> v_status v = BROKEN \<and> v_records_checked v = count d \<and>
      v_first_break v = Some k \<and> b_kind k = HASH_MISMATCH \<and> b_activity_id k = i) \<or>
    (\<exists>r x y. r \<in> set (activities d') \<and> canonical_bytes r = Inr x \<and> sha256_collision x y)"
proof -
  from assms(1,3) obtain m h where
    h: "unsaved_entry_hash (seq_bool (a_tc_seq a)) (next_row i t m a (activities d)) = Inr h"
    and d': "d' = d\<lparr>activities := activities d @ [(next_row i t m a (activities d))\<lparr>r_entry_hash := h\<rparr>]\<rparr>"
    by (rule append_activity_functional)
  let ?r = "next_row i t m a (activities d)"
  let ?rows = "activities d @ [?r\<lparr>r_entry_hash := h\<rparr>]"
  let ?n = "length (activities d)"
  have fields: "r_chain_index ?r = int ?n" "r_prev_hash ?r = head_after GENESIS_PREV_HASH (activities d)"
    "r_activity_id ?r = i" "r_tc_seq ?r = Some (if b then 1 else 0)"
    using assms(2) by (simp_all add: next_row_def activity_row_def)
  show ?thesis
  proof (cases "compute_entry_hash ?r = Inr h")
    case True
    with unsaved_entry_hash_differs [of b ?r h] h fields(4) assms(2)
    obtain x y where "canonical_bytes ?r = Inr x" "sha256_collision x y" by auto
    then have "?r\<lparr>r_entry_hash := h\<rparr> \<in> set (activities d') \<and>
        canonical_bytes (?r\<lparr>r_entry_hash := h\<rparr>) = Inr x \<and> sha256_collision x y"
      by (simp add: d' canonical_bytes_entry_hash)
    then show ?thesis by blast
  next
    case False
    have old: "linked ?rows j" if "j < ?n" for j
      using that assms(1) by (auto simp: ledger_ok_def chain_ok_def linked_def linked_at_def nth_append)
    have "\<forall>j < length ?rows. r_chain_index (?rows ! j) = int j"
      using assms(1) chain_ok_index [of "activities d"] fields(1)
      by (auto simp: ledger_ok_def nth_append less_Suc_eq)
    then have "sort_key r_chain_index ?rows = ?rows"
      by (intro sort_key_increasing) (simp add: sorted_wrt_iff_nth_less del: length_append)
    then have ord: "select_ordered d' = ?rows" by (simp add: select_ordered_def d')
    have new: "\<not> linked ?rows ?n" using False by (simp add: linked_def linked_at_def nth_append)
    have "db_ok d'"
      using append_body_Inr assms(1,3) append_activity_Inr insert_activity_db_ok
      by (metis (no_types, lifting) ledger_ok_def)
    then have "\<forall>r \<in> set (activities d'). storable_row r"
      using rows_ok_storable [of "rev (activities d')"] by (simp add: db_ok_def)
    then obtain v where v: "verify_chain d' = Inr v" "is_break ?n 0 GENESIS_PREV_HASH ?rows v"
      using verify_chain_break [of d' ?n] old new unfolding ord by auto
    have "break_kind ?n (if ?n = 0 then GENESIS_PREV_HASH else r_entry_hash (?rows ! (?n - 1)))
        (?rows ! ?n) = HASH_MISMATCH"
      using fields(1,2) by (simp add: break_kind_def head_after_def last_conv_nth nth_append)
    with v show ?thesis by (auto simp: is_break_def count_def fields(3) nth_append)
  qed
qed

definition without_row :: "nat \<Rightarrow> db \<Rightarrow> db" where
  "without_row i d = d\<lparr>activities := take i (activities d) @ drop (Suc i) (activities d)\<rparr>"

lemma without_row_ordered:
  assumes "ledger_ok d" and "i < count d"
  shows "select_ordered (without_row i d) = take i (activities d) @ drop (Suc i) (activities d)"
proof -
  have "sorted_wrt (\<lambda>x y. r_chain_index x \<le> r_chain_index y) (activities d)"
    using assms(1) by (simp add: sorted_wrt_iff_nth_less ledger_ok_def chain_ok_index)
  then have "sorted_wrt (\<lambda>x y. r_chain_index x \<le> r_chain_index y)
      (take i (activities d) @ activities d ! i # drop (Suc i) (activities d))"
    using assms(2) by (simp add: id_take_nth_drop [symmetric] count_def)
  then have "sort_key r_chain_index (take i (activities d) @ drop (Suc i) (activities d)) =
      take i (activities d) @ drop (Suc i) (activities d)"
    by (intro sort_key_increasing) (simp add: sorted_wrt_append)
  then show ?thesis by (simp add: select_ordered_def without_row_def)
qed

text \<open>
  Removing a record is detected at its position unless it is the newest. After the
  removal of record \<open>i\<close> from a consistent ledger the verifier reports an index gap with
  \<open>i\<close> records checked; after the removal of the last record it reports VALID, or EMPTY
  when there was only one: a truncated ledger verifies.
\<close>

theorem removal_is_detected_except_at_the_end:
  assumes "ledger_ok d" and "i < count d"
  shows "\<exists>v. verify_chain (without_row i d) = Inr v \<and> v_records_checked v = i \<and>
    (if i + 1 < count d
     then v_status v = BROKEN \<and> (\<exists>b. v_first_break v = Some b \<and> b_kind b = INDEX_GAP \<and>
       b_chain_index b = int i + 1)
     else v_status v = (if i = 0 then EMPTY else VALID))"
proof (cases "i + 1 < count d")
  case True
  let ?rows = "take i (activities d) @ drop (Suc i) (activities d)"
  note ord = without_row_ordered [OF assms]
  have idx: "r_chain_index (?rows ! i) = int i + 1"
    using True assms(1) chain_ok_index [of "activities d" "Suc i"]
    by (simp add: nth_append count_def ledger_ok_def)
  then have broken_at: "\<not> linked ?rows i" by (simp add: linked_def linked_at_def)
  have before: "\<forall>j < i. linked ?rows j"
  proof (intro allI impI)
    fix j assume "j < i"
    then have "linked (activities d) j"
      using assms by (simp add: ledger_ok_def chain_ok_def count_def)
    then show "linked ?rows j" using \<open>j < i\<close> assms(2)
      by (cases j) (simp_all add: linked_def linked_at_def nth_append count_def)
  qed
  have storable: "\<forall>r \<in> set (activities (without_row i d)). storable_row r"
    using ledger_kept_storable [OF assms(1)]
    by (auto simp: without_row_def dest: in_set_takeD in_set_dropD)
  have "i < length ?rows" using True by (simp add: count_def)
  then obtain v where "verify_chain (without_row i d) = Inr v"
      "is_break i 0 GENESIS_PREV_HASH ?rows v"
    using verify_chain_break [OF storable, of i, unfolded ord] before broken_at by blast
  then show ?thesis using True idx by (auto simp: is_break_def break_kind_def)
next
  case False
  then have i: "count d = Suc i" using assms(2) by simp
  obtain rows r where rows: "activities d = rows @ [r]" "length rows = i"
    using i by (cases "activities d" rule: rev_cases) (auto simp: count_def)
  then have "activities (without_row i d) = rows" "select_ordered (without_row i d) = rows"
    using without_row_ordered [OF assms] by (simp_all add: without_row_def)
  moreover have "chain_ok rows" using assms(1) by (simp add: ledger_ok_def rows chain_ok_snoc)
  moreover have "rows = [] \<longleftrightarrow> i = 0" using rows(2) by auto
  ultimately show ?thesis
    using False rows(2) verify_chain_empty [of "without_row i d"] verify_chain_valid [of "without_row i d"]
    by (cases "rows = []") auto
qed

section \<open>Secrets\<close>

lemma refuse_secrets_Inr: "refuse_secrets a m = Inr u \<longleftrightarrow>
    (\<forall>s \<in> set (secret_parts a m). scan_text s ledger_write_path = [])"
  by (auto simp: refuse_secrets_def Let_def)

text \<open>
  A string without the marker that no rule matches, and a row all of whose strings are such,
  except the four that the ledger makes itself: the identifier, the time and the hashes.
\<close>

definition free_of_secrets :: "pystr \<Rightarrow> bool" where
  "free_of_secrets s \<longleftrightarrow> sublist ALLOW_MARKER s \<or> (\<forall>r \<in> set RULES. \<not> matches_in (pattern r) s)"

definition LEDGER_MADE :: "pystr list" where
  "LEDGER_MADE = map str_lit [''activity_id'', ''recorded_at'', ''prev_hash'', ''entry_hash'']"

definition clean_row :: "row \<Rightarrow> bool" where
  "clean_row r \<longleftrightarrow> (\<forall>(column, v) \<in> set (row_dict r). column \<notin> set LEDGER_MADE \<longrightarrow>
     (\<forall>s. v = JStr s \<longrightarrow> free_of_secrets s))"

lemma scanned_free: "scan_text s path = [] \<Longrightarrow> free_of_secrets s"
  using scan_text_complete [of _ s path] by (force simp: free_of_secrets_def)

lemma caller_values: "map snd (filter (\<lambda>m. fst m \<notin> set LEDGER_MADE) (row_dict r)) =
    [JInt (r_chain_index r), JStr (r_agent_did r), JStr (r_activity_type r), opt_str (r_task_id r),
     opt_str (r_ref_activity_id r), opt_str (r_tc_room r), opt_int (r_tc_seq r), opt_int (r_tc_nonce r),
     opt_str (r_signed_payload_hash r), opt_str (r_signature r), opt_str (r_result_hash r),
     opt_str (r_provider_id r), opt_str (r_model r), opt_str (r_cost_amount r), JStr (r_cost_unit r),
     JStr (r_occurred_at r), opt_str (r_meta_json r)]"
  by (simp add: row_dict_def LEDGER_MADE_def)

lemma caller_string: "(column, v) \<in> set (row_dict r) \<Longrightarrow> column \<notin> set LEDGER_MADE \<Longrightarrow>
    v \<in> set (map snd (filter (\<lambda>m. fst m \<notin> set LEDGER_MADE) (row_dict r)))"
  by force

text \<open>Every string of the new row was scanned.\<close>

lemma row_strings_scanned:
  assumes "(column, JStr s) \<in> set (row_dict ((next_row i t m a rows)\<lparr>r_entry_hash := e\<rparr>))"
    and "column \<notin> set LEDGER_MADE" and "s \<noteq> []"
  shows "s \<in> set (secret_parts a m)"
proof -
  have int: "JStr s = opt_int n \<longleftrightarrow> False" for n by (simp add: opt_int_def split: option.splits)
  have str: "JStr s = opt_str v \<longleftrightarrow> v = Some s" for v by (auto simp: opt_str_def split: option.splits)
  from caller_string [OF assms(1,2)] have "s \<in> {a_agent_did a, a_activity_type a, a_cost_unit a, a_occurred_at a} \<or>
      Some s \<in> {a_task_id a, a_ref_activity_id a, a_tc_room a, a_signed_payload_hash a, a_signature a,
        a_result_hash a, a_provider_id a, a_model a, cost_text (a_cost_amount a), m}"
    unfolding caller_values by (simp add: next_row_def activity_row_def int str) (elim disjE; simp)
  then show ?thesis
    using assms(3)
    by (auto simp: secret_parts_def str_values_def opt_list_def cost_text_def split: pyval.splits)
qed

lemma append_activity_clean:
  assumes "ledger_kept h d" and "append_activity i t a d = (Inr lr, d')"
  shows "\<exists>r. activities d' = activities d @ [r] \<and> clean_row r"
proof -
  obtain m e where m: "refuse_secrets a m = Inr ()"
    and d': "d' = d\<lparr>activities := activities d @ [(next_row i t m a (activities d))\<lparr>r_entry_hash := e\<rparr>]\<rparr>"
    using append_activity_functional [OF assms] by metis
  have "free_of_secrets s"
    if "(column, JStr s) \<in> set (row_dict ((next_row i t m a (activities d))\<lparr>r_entry_hash := e\<rparr>))"
      "column \<notin> set LEDGER_MADE" for column s
  proof (cases "s = []")
    case True
    then show ?thesis using short_text_clean [of s] scanned_free by simp
  next
    case False
    then show ?thesis using row_strings_scanned [OF that False] m refuse_secrets_Inr scanned_free by blast
  qed
  then have "clean_row ((next_row i t m a (activities d))\<lparr>r_entry_hash := e\<rparr>)"
    by (auto simp: clean_row_def)
  then show ?thesis by (auto simp: d')
qed

lemma ledger_step_clean:
  assumes "ledger_step h d d'" and "ledger_kept h d" and "\<forall>r \<in> set (activities d). clean_row r"
  shows "\<forall>r \<in> set (activities d'). clean_row r"
  using assms(1)
proof (cases rule: ledger_step.cases)
  case (step_append a i t r)
  show ?thesis
  proof (cases r)
    case (Inl e)
    then show ?thesis using step_append append_activity_Inl assms(3) by blast
  next
    case (Inr lr)
    with step_append have "append_activity i t a d = (Inr lr, d')" by simp
    from append_activity_clean [OF assms(2) this] show ?thesis using assms(3) by auto
  qed
next
  case (step_reserve agent scope floor r)
  then show ?thesis using reserve_db assms(2,3) by (simp add: ledger_kept_def)
next
  case (step_observe agent scope nonce r)
  then show ?thesis using observe_db assms(2,3) by (simp add: ledger_kept_def)
qed (use assms(3) update_activities_same delete_activities_same in \<open>auto dest: update_activities_same delete_activities_same\<close>)

text \<open>
  C35. No recognisable secret is stored. In every ledger the program can reach, no string
  of any record that came from a caller, the serialised metadata included, matches any of the
  scanner's rules, unless that very string carries the allow marker.
\<close>

theorem stored_strings_match_no_secret_rule:
  assumes "reachable honest d" and "r \<in> set (activities d)"
    and "(column, JStr s) \<in> set (row_dict r)" and "column \<notin> set LEDGER_MADE"
    and "\<not> sublist ALLOW_MARKER s" and "rule \<in> set RULES"
  shows "\<not> matches_in (pattern rule) s"
proof -
  from assms(1) have "\<forall>r \<in> set (activities d). clean_row r"
  proof (induction rule: reachable.induct)
    case reachable_empty
    then show ?case by (simp add: empty_db_def)
  next
    case (reachable_step d d')
    then show ?case using ledger_step_clean reachable_ledger_kept by blast
  qed
  with assms(2) have "clean_row r" by blast
  with assms(3,4) have "free_of_secrets s" by (auto simp: clean_row_def)
  with assms(5,6) show ?thesis by (simp add: free_of_secrets_def)
qed

text \<open>
  An activity that passes validation and holds the header of a PEM private key in any
  of its strings is refused with \<open>SecretMaterialRefused\<close>, and the database is untouched, unless
  that string carries the allow marker.
\<close>

theorem private_key_in_an_activity_is_refused:
  assumes "validate_activity a = Inr ()" and "meta_text a = Inr m" and "s \<in> set (secret_parts a m)"
    and "pem_label l" and "s = u @ str_lit ''-----BEGIN '' @ l @ str_lit ''PRIVATE KEY-----'' @ v"
    and "\<not> sublist ALLOW_MARKER s"
  shows "append_activity i t a d = (Inl SecretMaterialRefused, d)"
proof -
  have "scan_text s ledger_write_path \<noteq> []"
    using scan_text_flags_pem [OF assms(4-6), of ledger_write_path] by force
  then have "refuse_secrets a m = Inl SecretMaterialRefused"
    using assms(3) by (auto simp: refuse_secrets_def Let_def)
  then show ?thesis using assms(1,2) by (simp add: append_activity_def)
qed

text \<open>A first record.\<close>

definition example_with :: "seq_value option \<Rightarrow> pystr option \<Rightarrow> Activity" where
  "example_with seq task =
     \<lparr>a_agent_did = str_lit ''did:key:z6Mk'', a_activity_type = str_lit ''note'',
      a_occurred_at = str_lit ''2026'', a_task_id = task, a_ref_activity_id = None,
      a_tc_room = None, a_tc_seq = seq, a_tc_nonce = None, a_signed_payload_hash = None,
      a_signature = None, a_result_hash = None, a_provider_id = None, a_model = None,
      a_cost_amount = VNone, a_cost_unit = str_lit ''NONE'', a_meta = None\<rparr>"

abbreviation example_activity :: "pystr option \<Rightarrow> Activity" where
  "example_activity task \<equiv> example_with None task"

lemma example_plain: "plain_seq (example_activity task)"
  by (simp add: plain_seq_def example_with_def)

lemma example_validates: "validate_activity (example_with seq task) = Inr ()"
  "meta_text (example_with seq task) = Inr None"
  by (simp_all add: validate_activity_def example_with_def ACTIVITY_TYPES_def VALID_COST_UNITS_def
      str_NONE_def meta_text_def unless_raise_def str_lit_def)

lemma activities_empty: "activities empty_db = []"
  by (simp add: empty_db_def)

lemma storable_entry_hash: "storable_row r \<Longrightarrow> scalar_str h \<Longrightarrow> storable_row (r\<lparr>r_entry_hash := h\<rparr>)"
  by (simp add: storable_row_def row_dict_def)

lemma scalar_hex: "scalar_str (sha256_hex b)"
  using set_hex_bytes by (fastforce simp: sha256_hex_def scalar_str_def intro: is_scalar_ascii)

lemma append_to_empty:
  assumes valid: "validate_activity a = Inr ()" and m: "meta_text a = Inr m"
    and secrets: "refuse_secrets a m = Inr ()" and ref: "a_ref_activity_id a = None"
    and storable: "storable_row (next_row i t m a [])"
  shows "\<exists>lr d'. append_activity i t a empty_db = (Inr lr, d')"
proof -
  let ?r = "next_row i t m a []"
  obtain h where h: "unsaved_entry_hash (seq_bool (a_tc_seq a)) ?r = Inr h"
    using unsaved_entry_hash_ok [OF storable] by auto
  then obtain bytes where hex: "h = sha256_hex bytes" using unsaved_entry_hash_hex by blast
  have "storable_row (?r\<lparr>r_entry_hash := h\<rparr>)"
    unfolding hex by (rule storable_entry_hash [OF storable scalar_hex])
  moreover have "a_cost_unit a \<in> set VALID_COST_UNITS"
    using valid by (auto simp: validate_activity_def rbind_eq_Inr)
  ultimately have ins: "insert_activity (?r\<lparr>r_entry_hash := h\<rparr>) empty_db =
      (Inr (), empty_db\<lparr>activities := [?r\<lparr>r_entry_hash := h\<rparr>]\<rparr>)"
    using hex ref
    by (simp add: insert_activity_Inr row_checks_def unique_ok_def ref_ok_def empty_db_def next_row_def
        activity_row_def head_after_def GENESIS_PREV_HASH_def)
  have "\<exists>lr. append_body i t m a empty_db =
      (Inr lr, empty_db\<lparr>activities := [?r\<lparr>r_entry_hash := h\<rparr>]\<rparr>)"
    using h ins ref
    by (simp add: append_body_eq [OF ledger_ok_empty] activities_empty Let_def ref_exists_def)
  then show ?thesis
    by (auto simp: append_activity_def valid m immediate_def secrets empty_db_def)
qed

lemma int64_ok_bit: "int64_ok (if b then 1 else 0)"
  by (simp add: int64_ok_def)

lemma example_parts: "secret_parts (example_with seq task) None =
    [str_lit ''did:key:z6Mk'', str_lit ''note'', str_lit ''2026''] @ opt_list task @ [str_lit ''NONE'']"
  by (simp add: secret_parts_def str_values_def example_with_def opt_list_def del: str_lit_Cons)

lemma example_appends:
  assumes "case task of None \<Rightarrow> True | Some s \<Rightarrow> scalar_str s \<and> scan_text s ledger_write_path = []"
    and "\<forall>i. seq \<noteq> Some (SeqInt i)"
  shows "\<exists>lr d'. append_activity [49] [50] (example_with seq task) empty_db = (Inr lr, d')"
proof (rule append_to_empty)
  have "\<forall>s \<in> set (secret_parts (example_with seq task) None). scan_text s ledger_write_path = []"
    using assms(1) by (auto simp: example_parts opt_list_def short_text_clean split: option.splits)
  then show "refuse_secrets (example_with seq task) None = Inr ()"
    by (simp add: refuse_secrets_Inr)
  have opt: "json_ok (opt_str task)" using assms(1) by (simp add: opt_str_def split: option.splits)
  have seq: "json_ok (opt_int (map_option seq_int seq))"
    using assms(2) by (cases seq; simp add: opt_int_def) (metis int64_ok_bit seq_int.simps(2) seq_value.exhaust)
  show "storable_row (next_row [49] [50] None (example_with seq task) [])"
    using opt seq
    by (simp add: storable_row_def row_dict_def next_row_def activity_row_def example_with_def
        head_after_def GENESIS_PREV_HASH_def str_lit_def is_scalar_ascii int64_ok_def cost_text_def
        scalar_str_def)
       (simp add: opt_str_def opt_int_def)
  show "a_ref_activity_id (example_with seq task) = None" by (simp add: example_with_def)
qed (rule example_validates)+

section \<open>Limits of the scan\<close>

definition marked_pem :: pystr where
  "marked_pem = example_pem @ [32] @ ALLOW_MARKER"

lemma marked_pem_facts: "matches_in pem_private_key_block marked_pem" "scalar_str marked_pem"
    "scan_text marked_pem path = []"
proof -
  show "matches_in pem_private_key_block marked_pem"
    using pem_matches [of "[]" "[]" "[32] @ ALLOW_MARKER"]
    by (simp add: marked_pem_def example_pem_def pem_label_def del: str_lit_Cons)
  show "scalar_str marked_pem"
    by (simp add: marked_pem_def example_pem_def ALLOW_MARKER_def is_scalar_ascii)
  have "list_all (\<lambda>c. \<not> line_break c) marked_pem"
    by (simp add: marked_pem_def example_pem_def ALLOW_MARKER_def line_break_def)
  moreover have "sublist ALLOW_MARKER marked_pem"
    unfolding marked_pem_def sublist_def
    by (rule exI [of _ "example_pem @ [32]"], rule exI [of _ "[]"]) simp
  ultimately show "scan_text marked_pem path = []" by (rule marked_line_clean)
qed

text \<open>
  The marker that excuses examples in source files also works inside the ledger: an activity
  whose task identifier is the header of a private key followed by the marker is
  accepted and stored.
\<close>

theorem marker_lets_a_private_key_into_the_ledger:
  "matches_in pem_private_key_block marked_pem \<and>
   (\<exists>lr d'. append_activity [49] [50] (example_activity (Some marked_pem)) empty_db = (Inr lr, d') \<and>
      map r_task_id (activities d') = [Some marked_pem])"
proof -
  obtain lr d' where ap:
      "append_activity [49] [50] (example_activity (Some marked_pem)) empty_db = (Inr lr, d')"
    using example_appends [of "Some marked_pem" None] marked_pem_facts by auto
  from ledger_ok_empty ap have "map r_task_id (activities d') = [Some marked_pem]"
    by (rule append_activity_functional)
       (simp add: empty_db_def next_row_def activity_row_def example_with_def)
  then show ?thesis
    by (intro conjI exI) (rule marked_pem_facts(1), rule ap, assumption)
qed

lemma seed_line_needs_start:
  assumes "10 \<notin> set u" and "u \<noteq> []"
  shows "mt (seed_line n) (rev u, v) = []"
proof -
  have "hd (rev u) \<noteq> 10" using assms by (metis hd_in_set rev_is_Nil_conv set_rev)
  then show ?thesis using assms(2) by (simp add: seed_line_def line_start_def)
qed

lemma seed_line_not_object: "0 < n \<Longrightarrow> mt (seed_line n) ([], 123 # v) = []"
proof -
  assume "0 < n"
  then obtain k where n: "n = Suc k" by (cases n) auto
  show ?thesis
    by (simp add: n seed_line_def regex_eval numeral_eq_Suc lower_def del: mt.simps)
qed

text \<open>
  Seed phrases in metadata are never found. The rule for mnemonics wants a whole line of
  words, but the metadata is scanned as one line of JSON that starts with a brace: whatever
  text an activity's metadata holds, the rule does not match.
\<close>

theorem metadata_hides_seed_phrases:
  assumes "a_meta a = Some (JObj ms)" and "no_float_members ms" and "meta_text a = Inr (Some t)"
  shows "\<not> matches_in seed_mnemonic_phrase t"
proof
  have render: "render (JObj (sort_keys_members ms)) = Inr t"
    using assms(1,3) by (auto simp: meta_text_def dumps_def rbind_eq_Inr)
  then have nl: "10 \<notin> set t"
    using render_no_newline(1) assms(2) no_float_sort_keys(3) by (metis no_float.simps(3))
  obtain t' where t: "t = 123 # t'" using render by (auto simp: rbind_eq_Inr)
  assume "matches_in seed_mnemonic_phrase t"
  then obtain u v where "t = u @ v" "mt seed_mnemonic_phrase (rev u, v) \<noteq> []"
    by (auto simp: matches_in_def)
  then show False
    using nl t seed_line_needs_start [of u _ v] seed_line_not_object [of _ t']
    by (cases "u = []") (auto simp: seed_mnemonic_phrase_def)
qed

theorem metadata_hides_seed_phrases_witness:
  "\<exists>t. dumps (JObj [(str_lit ''seed'', JStr (str_lit ''abandon ability''))]) = Inr t \<and>
     \<not> matches_in seed_mnemonic_phrase t"
proof -
  let ?m = "JObj [(str_lit ''seed'', JStr (str_lit ''abandon ability''))]"
  obtain t where t: "dumps ?m = Inr t"
    using dumps_ok [of ?m] by (auto simp: is_scalar_ascii)
  then show ?thesis
    using metadata_hides_seed_phrases [of "(example_activity None)\<lparr>a_meta := Some ?m\<rparr>" _ t]
    by (simp add: meta_text_def)
qed

section \<open>Witnesses\<close>

text \<open>A ledger of one record, written by the program.\<close>

lemma one_record: "\<exists>lr d. append_activity [49] [50] (example_activity None) empty_db = (Inr lr, d) \<and>
    ledger_ok d \<and> count d = 1"
proof -
  obtain lr d where ap: "append_activity [49] [50] (example_activity None) empty_db = (Inr lr, d)"
    using example_appends [of None None] by auto
  from ledger_ok_empty ap have "count d = 1"
    by (rule append_activity_functional) (simp add: empty_db_def count_def)
  then show ?thesis
    using append_keeps_ledger [OF ledger_ok_empty example_plain ap] by (intro exI conjI) (rule ap)
qed

text \<open>A run with one record, and a run that wrote a \<open>bool\<close>.\<close>

theorem reachable_ledgers_verify_and_only_grow_witness:
  "(\<exists>d v. reachable True d \<and> count d = 1 \<and> verify_chain d = Inr v \<and> verify_ok v) \<and>
   (\<exists>d v. reachable False d \<and> count d = 1 \<and> verify_chain d = Inr v \<and> (verify_ok v \<or> broken_by_boolean d v))"
proof
  obtain lr d where ap: "append_activity [49] [50] (example_activity None) empty_db = (Inr lr, d)"
    and one: "count d = 1" using one_record by blast
  have run: "reachable True d"
    by (rule reachable_step [OF reachable_empty step_append [OF example_plain ap]])
  with reachable_ledgers_verify_and_only_grow [OF run] one
  show "\<exists>d v. reachable True d \<and> count d = 1 \<and> verify_chain d = Inr v \<and> verify_ok v" by blast
next
  obtain lr d where ap:
    "append_activity [49] [50] (example_with (Some (SeqBool True)) None) empty_db = (Inr lr, d)"
    using example_appends [of None "Some (SeqBool True)"] by auto
  have run: "reachable False d" by (rule reachable_step [OF reachable_empty step_append [OF _ ap]]) simp
  from ledger_ok_empty ap have "count d = 1"
    by (rule append_activity_functional) (simp add: empty_db_def count_def)
  with run reachable_ledgers_verify_and_only_grow [OF run]
  show "\<exists>d v. reachable False d \<and> count d = 1 \<and> verify_chain d = Inr v \<and>
      (verify_ok v \<or> broken_by_boolean d v)" by blast
qed

theorem append_extends_a_valid_chain_witness:
  "\<exists>lr d. append_activity [49] [50] (example_activity None) empty_db = (Inr lr, d) \<and>
     lr_prev_hash lr = GENESIS_PREV_HASH \<and> is_ok (verify_chain d)"
proof -
  obtain lr d where ap: "append_activity [49] [50] (example_activity None) empty_db = (Inr lr, d)"
    using one_record by blast
  then have "lr_prev_hash lr = GENESIS_PREV_HASH \<and> is_ok (verify_chain d)"
    using append_extends_a_valid_chain [OF ledger_ok_empty example_plain [of None], where i = "[49]" and t = "[50]"]
    by (simp add: empty_db_def)
  then show ?thesis using ap by blast
qed

theorem boolean_seq_breaks_the_chain_witness:
  "\<exists>lr d'. append_activity [49] [50] (example_with (Some (SeqBool True)) None) empty_db = (Inr lr, d') \<and>
     ((\<exists>v. verify_chain d' = Inr v \<and> v_status v = BROKEN) \<or>
      (\<exists>x y. sha256_collision x y))"
proof -
  obtain lr d' where ap:
    "append_activity [49] [50] (example_with (Some (SeqBool True)) None) empty_db = (Inr lr, d')"
    using example_appends [of None "Some (SeqBool True)"] by auto
  have "a_tc_seq (example_with (Some (SeqBool True)) None) = Some (SeqBool True)"
    by (simp add: example_with_def)
  from boolean_seq_breaks_the_chain [OF ledger_ok_empty this ap] ap show ?thesis by blast
qed

theorem stored_strings_match_no_secret_rule_witness:
  "\<exists>d r. reachable True d \<and> r \<in> set (activities d) \<and> r_agent_did r = str_lit ''did:key:z6Mk'' \<and>
     (\<forall>rule \<in> set RULES. \<not> matches_in (pattern rule) (r_agent_did r))"
proof -
  let ?who = "str_lit ''did:key:z6Mk''"
  obtain lr d where ap: "append_activity [49] [50] (example_activity None) empty_db = (Inr lr, d)"
    using one_record by blast
  have run: "reachable True d"
    by (rule reachable_step [OF reachable_empty step_append [OF example_plain ap]])
  from ledger_ok_empty ap obtain m e where d: "d = empty_db\<lparr>activities := activities empty_db @
      [(next_row [49] [50] m (example_activity None) (activities empty_db))\<lparr>r_entry_hash := e\<rparr>]\<rparr>"
    by (rule append_activity_functional)
  define r where "r = (next_row [49] [50] m (example_activity None) (activities empty_db))\<lparr>r_entry_hash := e\<rparr>"
  have r: "r \<in> set (activities d)" "r_agent_did r = ?who"
    by (simp add: d r_def) (simp add: r_def next_row_def activity_row_def example_with_def)
  have column: "(str_lit ''agent_did'', JStr ?who) \<in> set (row_dict r)"
    by (simp add: row_dict_def r(2) del: str_lit_Cons)
  have caller: "str_lit ''agent_did'' \<notin> set LEDGER_MADE" by (simp add: LEDGER_MADE_def)
  have unmarked: "\<not> sublist ALLOW_MARKER ?who"
    using sublist_length_le [of ALLOW_MARKER ?who] by (auto simp: ALLOW_MARKER_def)
  have "\<not> matches_in (pattern rule) ?who" if "rule \<in> set RULES" for rule
    by (rule stored_strings_match_no_secret_rule [OF run r(1) column caller unmarked that])
  then show ?thesis using run r by (intro exI [where x = d] exI [where x = r]) (simp del: str_lit_Cons)
qed

theorem private_key_in_an_activity_is_refused_witness:
  "append_activity [49] [50] (example_activity (Some example_pem)) empty_db =
     (Inl SecretMaterialRefused, empty_db)"
  using private_key_in_an_activity_is_refused
    [OF example_validates [of None "Some example_pem"], where s = example_pem and l = "[]" and u = "[]" and v = "[]" and i = "[49]" and t = "[50]" and d = empty_db]
    example_pem_unmarked
  by (simp add: example_parts opt_list_def pem_label_def example_pem_def del: str_lit_Cons)

theorem head_hash_commits_to_the_ledger_witness:
  "\<exists>d v. verify_chain d = Inr v \<and> v_status v = VALID \<and>
     (select_ordered d = select_ordered (d\<lparr>locked := True\<rparr>) \<or>
      (\<exists>r \<in> set (activities d). \<exists>q \<in> set (activities (d\<lparr>locked := True\<rparr>)). rows_collide r q))"
proof -
  obtain d where d: "ledger_ok d" "count d = 1" using one_record by blast
  then have "activities d \<noteq> []" by (auto simp: count_def)
  then obtain v where v: "verify_chain d = Inr v" "v_status v = VALID"
    using verify_chain_valid [of d] d(1) by (auto simp: ledger_kept_ordered) (simp add: ledger_ok_def)
  have "select_ordered (d\<lparr>locked := True\<rparr>) = select_ordered d" by (simp add: select_ordered_def)
  then have v': "verify_chain (d\<lparr>locked := True\<rparr>) = Inr v" using v(1) by (simp add: verify_chain_def)
  have "\<forall>r \<in> set (activities d) \<union> set (activities (d\<lparr>locked := True\<rparr>)). storable_row r"
    using ledger_kept_storable [OF d(1)] by simp
  from head_hash_commits_to_the_ledger [OF v(1) v' v(2) v(2) refl this] show ?thesis
    using v by blast
qed

theorem removal_is_detected_except_at_the_end_witness:
  "\<exists>d v. count d = 1 \<and> verify_chain (without_row 0 d) = Inr v \<and> v_status v = EMPTY"
proof -
  obtain d where d: "ledger_ok d" "count d = 1" using one_record by blast
  then show ?thesis using removal_is_detected_except_at_the_end [of d 0] by auto
qed

theorem edited_record_is_located_witness:
  "\<exists>d r. (\<exists>v. verify_chain (d\<lparr>activities := (activities d)[0 := r]\<rparr>) = Inr v \<and> v_status v = BROKEN) \<or>
     rows_collide (activities d ! 0) r"
proof -
  obtain d where d: "ledger_ok d" "count d = 1" using one_record by blast
  define q where "q = activities d ! 0"
  define r where "r = q\<lparr>r_model := (if r_model q = None then Some [] else None)\<rparr>"
  have "q \<in> set (activities d)" using d(2) by (simp add: count_def q_def)
  then have "storable_row q" using ledger_kept_storable [OF d(1)] by blast
  then have "storable_row r" by (simp add: storable_row_def row_dict_def r_def) (simp add: opt_str_def)
  moreover have "r_chain_index q = 0" using d chain_ok_index [of "activities d" 0]
    by (simp add: ledger_ok_def count_def q_def)
  then have "r_chain_index r = int 0" "r_entry_hash r = r_entry_hash q" by (simp_all add: r_def)
  moreover have "r_model r \<noteq> r_model q" by (cases "r_model q") (simp_all add: r_def)
  then have "r \<noteq> q" by blast
  ultimately have "(\<exists>v. verify_chain (d\<lparr>activities := (activities d)[0 := r]\<rparr>) = Inr v \<and>
      v_status v = BROKEN) \<or> rows_collide (activities d ! 0) r"
    using edited_record_is_located [OF d(1), of 0 r] d(2) unfolding q_def by auto
  then show ?thesis by (intro exI)
qed

end
