(* ===== verification/NonceConc.thy ===== *)
theory NonceConc
  imports Nonce
begin

text \<open>
  Concurrent processes on one nonce store. \<open>Nonce\<close> treats a call as one step; here
  every SQL statement of \<open>NonceStore.reserve\<close> and \<open>NonceStore.observe\<close> is a step of
  its own, interleaved with those of other processes, any of which may crash at any
  time. The write lock that \<open>BEGIN IMMEDIATE\<close> takes makes every interleaving
  equivalent to a sequence of atomic calls.
\<close>

section \<open>Statement-level steps\<close>

type_synonym pid = nat
type_synonym key = "pystr \<times> pystr"

text \<open>Where a process stands in \<open>with immediate(conn)\<close>: the value it read, then the value to commit.\<close>

datatype pc =
    Idle
  | Begun "key call"
  | HasRead "key call" int
  | Ready "key event" "int option"

fun call_key :: "key call \<Rightarrow> key" where
  "call_key (Issue k _) = k"
| "call_key (Observe k _) = k"

text \<open>The checks before the transaction opens.\<close>

fun admissible :: "key call \<Rightarrow> bool" where
  "admissible (Issue k floor) \<longleftrightarrow> fst k \<noteq> [] \<and> snd k \<noteq> [] \<and> text_key (fst k) (snd k) \<and> 0 \<le> floor"
| "admissible (Observe k n) \<longleftrightarrow> text_key (fst k) (snd k) \<and> validate_nonce (VInt n) = Inr n"

text \<open>
  What the code does with the value it read: the event it will report and the value it writes, if
  any; \<open>None\<close> when it raises.
\<close>

fun decide :: "key call \<Rightarrow> int \<Rightarrow> (key event \<times> int option) option" where
  "decide (Issue k floor) stored =
     (let nxt = max stored floor + 1 in
      if nxt > MAX_STORABLE_NONCE then None else Some (Issued k nxt, Some nxt))"
| "decide (Observe k n) stored =
     (if n \<le> stored then Some (Observed k n, None)
      else if n > MAX_STORABLE_NONCE then None else Some (Observed k n, Some n))"

record world =
  table :: "key \<Rightarrow> int option"
  owner :: "pid option"
  pcs :: "pid \<Rightarrow> pc"
  log :: "key event list"

definition initial :: world where
  "initial = \<lparr>table = (\<lambda>_. None), owner = None, pcs = (\<lambda>_. Idle), log = []\<rparr>"

definition stored_in :: "(key \<Rightarrow> int option) \<Rightarrow> key \<Rightarrow> int" where
  "stored_in t k = (case t k of None \<Rightarrow> 0 | Some n \<Rightarrow> n)"

definition write_back :: "key event \<Rightarrow> int option \<Rightarrow> (key \<Rightarrow> int option) \<Rightarrow> (key \<Rightarrow> int option)" where
  "write_back e w t = (case w of None \<Rightarrow> t | Some n \<Rightarrow> t(ev_key e \<mapsto> n))"

inductive proc_step :: "pid \<Rightarrow> world \<Rightarrow> world \<Rightarrow> bool" for p where
  proc_begin: "pcs w p = Idle \<Longrightarrow> owner w = None \<Longrightarrow> admissible c \<Longrightarrow>
    proc_step p w (w\<lparr>owner := Some p, pcs := (pcs w)(p := Begun c)\<rparr>)"
| proc_select: "pcs w p = Begun c \<Longrightarrow>
    proc_step p w (w\<lparr>pcs := (pcs w)(p := HasRead c (stored_in (table w) (call_key c)))\<rparr>)"
| proc_decide: "pcs w p = HasRead c stored \<Longrightarrow> decide c stored = Some (e, v) \<Longrightarrow>
    proc_step p w (w\<lparr>pcs := (pcs w)(p := Ready e v)\<rparr>)"
| proc_raise: "pcs w p = HasRead c stored \<Longrightarrow> decide c stored = None \<Longrightarrow>
    proc_step p w (w\<lparr>owner := None, pcs := (pcs w)(p := Idle)\<rparr>)"
| proc_commit: "pcs w p = Ready e v \<Longrightarrow>
    proc_step p w (w\<lparr>table := write_back e v (table w), owner := None, pcs := (pcs w)(p := Idle),
      log := log w @ [e]\<rparr>)"

inductive conc_step :: "world \<Rightarrow> world \<Rightarrow> bool" where
  conc_proc: "proc_step p w w' \<Longrightarrow> conc_step w w'"
| conc_crash: "pcs w p \<noteq> Idle \<Longrightarrow>
    conc_step w (w\<lparr>owner := None, pcs := (pcs w)(p := Idle)\<rparr>)"

inductive conc_reachable :: "world \<Rightarrow> bool" where
  conc_initial: "conc_reachable initial"
| conc_next: "conc_reachable w \<Longrightarrow> conc_step w w' \<Longrightarrow> conc_reachable w'"

section \<open>The invariant\<close>

text \<open>
  Only the owner of the lock is inside a transaction, and what it read is still what the
  table holds.
\<close>

fun pc_ok :: "(key \<Rightarrow> int option) \<Rightarrow> pc \<Rightarrow> bool" where
  "pc_ok t Idle = True"
| "pc_ok t (Begun c) = admissible c"
| "pc_ok t (HasRead c stored) = (admissible c \<and> stored = stored_in t (call_key c))"
| "pc_ok t (Ready e v) =
     (\<exists>c. admissible c \<and> decide c (stored_in t (call_key c)) = Some (e, v))"

definition lock_ok :: "world \<Rightarrow> bool" where
  "lock_ok w \<longleftrightarrow> (\<forall>p. pcs w p \<noteq> Idle \<longrightarrow> owner w = Some p) \<and> (\<forall>p. pc_ok (table w) (pcs w p))"

text \<open>The committed table and the log are those of a run of atomic calls.\<close>

definition atomic :: "world \<Rightarrow> bool" where
  "atomic w \<longleftrightarrow> (\<exists>calls d. run_calls issue_nonce observe_nonce calls empty_db = (log w, d) \<and>
     nonces d = table w \<and> \<not> locked d)"

lemma run_calls_append: "run_calls issue note_seen (cs @ cs') s =
    (case run_calls issue note_seen cs s of (es, s1) \<Rightarrow>
       case run_calls issue note_seen cs' s1 of (es', s2) \<Rightarrow> (es @ es', s2))"
proof (induction cs arbitrary: s)
  case (Cons c cs)
  then show ?case by (cases c) (auto split: sum.splits prod.splits)
qed (simp split: prod.splits)

lemma stored_in_last_nonce: "nonces d = t \<Longrightarrow> last_nonce d k = stored_in t k"
  by (simp add: last_nonce_def stored_in_def)

text \<open>An atomic call does what the decision says.\<close>

lemma decided_call:
  assumes "admissible c" and "decide c (stored_in (nonces d) (call_key c)) = Some (e, v)"
    and "\<not> locked d"
  shows "run_calls issue_nonce observe_nonce [c] d = ([e], d\<lparr>nonces := write_back e v (nonces d)\<rparr>)"
proof (cases c)
  case (Issue k floor)
  then have e: "e = Issued k (next_nonce d k floor)" "v = Some (next_nonce d k floor)"
      "next_nonce d k floor \<le> MAX_STORABLE_NONCE"
    using assms(2) by (auto simp: Let_def next_nonce_def stored_in_last_nonce [OF refl] split: if_splits)
  have "issue_nonce k floor d = (Inr (next_nonce d k floor), d\<lparr>nonces := (nonces d)(k \<mapsto> next_nonce d k floor)\<rparr>)"
    using assms(1,3) e(3) Issue by (simp add: issue_nonce_def reserve_eq)
  then show ?thesis by (simp add: Issue e write_back_def)
next
  case (Observe k n)
  then have adm: "text_key (fst k) (snd k)" "validate_nonce (VInt n) = Inr n" using assms(1) by simp_all
  then have "0 \<le> n" by (simp add: validate_nonce_Inr valid_nonce_def)
  then have "observe_nonce k n d =
      (if n \<le> last_nonce d k then (Inr (last_nonce d k), d)
       else if n \<le> MAX_STORABLE_NONCE then (Inr n, d\<lparr>nonces := (nonces d)(k \<mapsto> n)\<rparr>)
       else (Inl OverflowError, d))"
    using adm assms(3) by (simp add: observe_nonce_def observe_def immediate_def observe_body_eq)
  then show ?thesis using assms(2) Observe
    by (auto simp: write_back_def stored_in_last_nonce [OF refl] split: if_splits)
qed

lemma lock_exclusive: "lock_ok w \<Longrightarrow> pcs w p \<noteq> Idle \<Longrightarrow> q \<noteq> p \<Longrightarrow> pcs w q = Idle"
  by (metis lock_ok_def option.inject)

lemma lock_free: "lock_ok w \<Longrightarrow> owner w = None \<Longrightarrow> pcs w q = Idle"
  by (metis lock_ok_def option.distinct(1))

lemma lock_owner: "lock_ok w \<Longrightarrow> pcs w p \<noteq> Idle \<Longrightarrow> owner w = Some p"
  by (simp add: lock_ok_def)

lemma lock_pc: "lock_ok w \<Longrightarrow> pc_ok (table w) (pcs w p)"
  by (simp add: lock_ok_def)

lemma lock_okI:
  assumes "\<And>q. q \<noteq> p \<Longrightarrow> pcs w q = Idle" and "pcs w p \<noteq> Idle \<Longrightarrow> owner w = Some p"
    and "pc_ok (table w) (pcs w p)"
  shows "lock_ok w"
  unfolding lock_ok_def by (metis assms pc_ok.simps(1))

lemma proc_step_lock_ok: "proc_step p w w' \<Longrightarrow> lock_ok w \<Longrightarrow> lock_ok w'"
proof (induction rule: proc_step.induct)
  case (proc_begin w c)
  then show ?case by (intro lock_okI [of p]) (simp_all add: lock_free)
next
  case (proc_select w c)
  then show ?case using lock_pc [of w p] lock_owner [of w p] lock_exclusive [of w p]
    by (intro lock_okI [of p]) simp_all
next
  case (proc_decide w c stored e v)
  then show ?case using lock_pc [of w p] lock_owner [of w p] lock_exclusive [of w p]
    by (intro lock_okI [of p]) auto
next
  case (proc_raise w c stored)
  then show ?case using lock_exclusive [of w p] by (intro lock_okI [of p]) simp_all
next
  case (proc_commit w e v)
  then show ?case using lock_exclusive [of w p] by (intro lock_okI [of p]) simp_all
qed

lemma conc_step_lock_ok: "conc_step w w' \<Longrightarrow> lock_ok w \<Longrightarrow> lock_ok w'"
proof (induction rule: conc_step.induct)
  case (conc_crash w p)
  then show ?case using lock_exclusive [of w p] by (intro lock_okI [of p]) simp_all
qed (rule proc_step_lock_ok)

lemma proc_step_atomic: "proc_step p w w' \<Longrightarrow> lock_ok w \<Longrightarrow> atomic w \<Longrightarrow> atomic w'"
proof (induction rule: proc_step.induct)
  case (proc_commit w e v)
  obtain c where c: "admissible c" "decide c (stored_in (table w) (call_key c)) = Some (e, v)"
    using lock_pc [OF proc_commit(2), of p] proc_commit(1) by auto
  obtain calls d where d: "run_calls issue_nonce observe_nonce calls empty_db = (log w, d)"
      "nonces d = table w" "\<not> locked d"
    using proc_commit(3) by (auto simp: atomic_def)
  have "run_calls issue_nonce observe_nonce (calls @ [c]) empty_db =
      (log w @ [e], d\<lparr>nonces := write_back e v (table w)\<rparr>)"
    using decided_call [OF c(1) _ d(3)] c(2) d(1,2) by (simp add: run_calls_append)
  then show ?case using d(3) unfolding atomic_def
    by (intro exI [of _ "calls @ [c]"] exI [of _ "d\<lparr>nonces := write_back e v (table w)\<rparr>"]) simp
qed (simp_all add: atomic_def)

lemma conc_step_atomic: "conc_step w w' \<Longrightarrow> lock_ok w \<Longrightarrow> atomic w \<Longrightarrow> atomic w'"
  by (induction rule: conc_step.induct) (auto simp: proc_step_atomic, simp add: atomic_def)

lemma conc_invariant: "conc_reachable w \<Longrightarrow> lock_ok w \<and> atomic w"
proof (induction rule: conc_reachable.induct)
  case conc_initial
  have "run_calls issue_nonce observe_nonce [] empty_db = ([], empty_db)" by simp
  then show ?case
    by (auto simp: lock_ok_def atomic_def initial_def empty_db_def intro!: exI [of _ "[]"])
next
  case (conc_next w w')
  then show ?case using conc_step_lock_ok conc_step_atomic by blast
qed

section \<open>The properties\<close>

text \<open>
  C4. Linearizability. However the statements of concurrent reservations and observations
  interleave, and wherever processes crash, the committed table and the results
  returned so far are those of some sequence of atomic calls of
  \<open>NonceStore.reserve\<close> and \<open>NonceStore.observe\<close>.
\<close>

theorem interleavings_refine_atomic_calls:
  assumes "conc_reachable w"
  shows "\<exists>calls d. run_calls issue_nonce observe_nonce calls empty_db = (log w, d) \<and> nonces d = table w"
  using conc_invariant [OF assms] by (auto simp: atomic_def)

text \<open>
  C19. Under every interleaving no two processes are issued the same nonce for a key, and
  each nonce issued exceeds all that were issued or observed before it for that key.
\<close>

theorem concurrent_nonces_are_distinct:
  assumes "conc_reachable w"
  shows "distinct (filter is_issued (log w)) \<and>
    sorted_wrt (\<lambda>e e'. ev_key e = ev_key e' \<longrightarrow> is_issued e' \<longrightarrow> ev_val e < ev_val e') (log w)"
proof -
  obtain calls d where "run_calls issue_nonce observe_nonce calls empty_db = (log w, d)"
    using conc_invariant [OF assms] by (auto simp: atomic_def)
  then show ?thesis using store.issued_distinct store.issued_after by blast
qed

section \<open>Progress\<close>

lemma step_then: "proc_step p w w1 \<Longrightarrow> (proc_step p ^^ n) w1 w' \<Longrightarrow> (proc_step p ^^ Suc n) w w'"
  by (metis relpowp_Suc_I2)

lemma four_steps:
  assumes "proc_step p a b" and "proc_step p b c" and "proc_step p c d" and "proc_step p d e"
  shows "(proc_step p ^^ 4) a e"
proof -
  have "(proc_step p ^^ 0) e e" by simp
  from step_then [OF assms(1) step_then [OF assms(2) step_then [OF assms(3) step_then [OF assms(4) this]]]]
  have "(proc_step p ^^ Suc (Suc (Suc (Suc 0)))) a e" .
  moreover have "(4 :: nat) = Suc (Suc (Suc (Suc 0)))" by simp
  ultimately show ?thesis by (simp only:)
qed

lemma ready_finishes: "pcs w p = Ready e v \<Longrightarrow> \<exists>w'. (proc_step p ^^ 1) w w' \<and> owner w' = None"
  using proc_commit [of w p e v] by (intro exI conjI) (auto simp only: relpowp_1, simp)

lemma read_finishes: "pcs w p = HasRead c stored \<Longrightarrow>
    \<exists>n w'. n \<le> 2 \<and> (proc_step p ^^ n) w w' \<and> owner w' = None"
proof (cases "decide c stored")
  case None
  assume "pcs w p = HasRead c stored"
  from proc_raise [OF this None] have "(proc_step p ^^ 1) w (w\<lparr>owner := None, pcs := (pcs w)(p := Idle)\<rparr>)"
    by (simp only: relpowp_1)
  then show ?thesis
    by (intro exI [of _ 1] exI [of _ "w\<lparr>owner := None, pcs := (pcs w)(p := Idle)\<rparr>"]) simp
next
  case (Some ev)
  assume r: "pcs w p = HasRead c stored"
  obtain e v where ev: "ev = (e, v)" by fastforce
  let ?w = "w\<lparr>pcs := (pcs w)(p := Ready e v)\<rparr>"
  obtain w' where "(proc_step p ^^ 1) ?w w'" "owner w' = None"
    using ready_finishes [of ?w p e v] by auto
  then have "(proc_step p ^^ Suc 1) w w'" "owner w' = None"
    using step_then [OF proc_decide [OF r]] Some ev by blast+
  then show ?thesis by (intro exI [of _ 2] exI [of _ w']) (simp add: numeral_2_eq_2)
qed

lemma owner_inside: "conc_reachable w \<Longrightarrow> owner w = Some p \<Longrightarrow> pcs w p \<noteq> Idle"
proof (induction arbitrary: p rule: conc_reachable.induct)
  case (conc_next w w')
  have proc: "pcs w' p \<noteq> Idle" if "proc_step q w w'" "owner w' = Some p" for q
    using that conc_next.IH [of p] by (cases rule: proc_step.cases) auto
  show ?case
    using conc_next.hyps(2)
  proof (cases rule: conc_step.cases)
    case (conc_proc q)
    then show ?thesis using proc conc_next.prems by blast
  next
    case (conc_crash q)
    then show ?thesis using conc_next.prems by simp
  qed
qed (simp add: initial_def)

text \<open>
  C30. Progress. The lock is never lost: from every reachable state the process that holds it
  finishes by at most three steps of its own, and the lock is free afterwards. While the lock is
  free, an idle process that asks for a nonce that exists has it committed by four steps
  of its own.
\<close>

theorem nonce_requests_make_progress:
  assumes "conc_reachable w"
  shows "(owner w = Some p \<longrightarrow> (\<exists>n w'. n \<le> 3 \<and> (proc_step p ^^ n) w w' \<and> owner w' = None)) \<and>
    (owner w = None \<and> admissible (Issue k floor) \<and>
       max (stored_in (table w) k) floor < MAX_STORABLE_NONCE \<longrightarrow>
     (\<exists>w'. (proc_step p ^^ 4) w w' \<and> owner w' = None \<and>
       log w' = log w @ [Issued k (max (stored_in (table w) k) floor + 1)] \<and>
       table w' k = Some (max (stored_in (table w) k) floor + 1)))"
proof (intro conjI impI)
  assume "owner w = Some p"
  then have "pcs w p \<noteq> Idle" using owner_inside assms by blast
  then consider c where "pcs w p = Begun c" | c st where "pcs w p = HasRead c st"
    | e v where "pcs w p = Ready e v" by (cases "pcs w p") auto
  then show "\<exists>n w'. n \<le> 3 \<and> (proc_step p ^^ n) w w' \<and> owner w' = None"
  proof cases
    case (1 c)
    obtain n w' where n: "n \<le> 2"
        "(proc_step p ^^ n) (w\<lparr>pcs := (pcs w)(p := HasRead c (stored_in (table w) (call_key c)))\<rparr>) w'"
        "owner w' = None"
      using read_finishes [of "w\<lparr>pcs := (pcs w)(p := HasRead c (stored_in (table w) (call_key c)))\<rparr>" p] by auto
    then show ?thesis using step_then [OF proc_select [OF 1] n(2)]
      by (intro exI [of _ "Suc n"] exI [of _ w']) simp
  next
    case (2 c st)
    obtain n w' where "n \<le> 2" "(proc_step p ^^ n) w w'" "owner w' = None"
      using read_finishes [OF 2] by blast
    then show ?thesis by (intro exI [of _ n] exI [of _ w']) simp
  next
    case (3 e v)
    then show ?thesis using ready_finishes [OF 3] by (metis one_le_numeral)
  qed
next
  assume a: "owner w = None \<and> admissible (Issue k floor) \<and>
    max (stored_in (table w) k) floor < MAX_STORABLE_NONCE"
  let ?c = "Issue k floor" and ?n = "max (stored_in (table w) k) floor + 1"
  let ?w1 = "w\<lparr>owner := Some p, pcs := (pcs w)(p := Begun ?c)\<rparr>"
  let ?w2 = "?w1\<lparr>pcs := (pcs ?w1)(p := HasRead ?c (stored_in (table ?w1) (call_key ?c)))\<rparr>"
  let ?w3 = "?w2\<lparr>pcs := (pcs ?w2)(p := Ready (Issued k ?n) (Some ?n))\<rparr>"
  let ?w4 = "?w3\<lparr>table := write_back (Issued k ?n) (Some ?n) (table ?w3), owner := None,
    pcs := (pcs ?w3)(p := Idle), log := log ?w3 @ [Issued k ?n]\<rparr>"
  have idle: "pcs w p = Idle" using conc_invariant [OF assms] lock_free a by blast
  have "proc_step p w ?w1" by (rule proc_begin) (use a idle in simp_all)
  moreover have "proc_step p ?w1 ?w2" by (rule proc_select) simp
  moreover have "proc_step p ?w2 ?w3"
    by (rule proc_decide [of _ _ ?c "stored_in (table w) k"]) (use a in \<open>simp_all add: Let_def max_def\<close>)
  moreover have "proc_step p ?w3 ?w4" by (rule proc_commit) simp
  ultimately have "(proc_step p ^^ 4) w ?w4" by (rule four_steps)
  then show "\<exists>w'. (proc_step p ^^ 4) w w' \<and> owner w' = None \<and> log w' = log w @ [Issued k ?n] \<and>
      table w' k = Some ?n"
    by (intro exI [of _ ?w4]) (simp add: write_back_def)
qed

section \<open>Witnesses\<close>

lemma example_admissible: "admissible (Issue example_key 0)"
  using example_key_ok by simp

lemma conc_example: "\<exists>w. conc_reachable w \<and> owner w = Some 1 \<and> log w = []"
proof -
  have "conc_step initial (initial\<lparr>owner := Some 1, pcs := (pcs initial)(1 := Begun (Issue example_key 0))\<rparr>)"
    by (rule conc_proc [of 1], rule proc_begin) (simp_all add: initial_def example_admissible del: admissible.simps)
  then show ?thesis using conc_next [OF conc_initial] by (fastforce simp: initial_def)
qed

theorem interleavings_refine_atomic_calls_witness:
  "\<exists>w calls d. conc_reachable w \<and> owner w = Some 1 \<and>
     run_calls issue_nonce observe_nonce calls empty_db = (log w, d) \<and> nonces d = table w"
  using conc_example interleavings_refine_atomic_calls by blast

theorem concurrent_nonces_are_distinct_witness:
  "\<exists>w. conc_reachable w \<and> owner w = Some 1 \<and> distinct (filter is_issued (log w))"
  using conc_example concurrent_nonces_are_distinct by blast

theorem nonce_requests_make_progress_witness:
  "\<exists>w'. (proc_step 7 ^^ 4) initial w' \<and> log w' = [Issued example_key 1]"
  using nonce_requests_make_progress [OF conc_initial, of 7 example_key 0] example_admissible
  by (auto simp: initial_def stored_in_def MAX_STORABLE_NONCE_def simp del: admissible.simps)

end
