(* ===== verification/Settings.thy ===== *)
theory Settings
  imports Did
begin

text \<open>
  \<open>config/settings.py\<close> and \<open>config/public_identity.py\<close>: the committed
  public identity and the settings read from the environment. The environment is an
  association list of names and values, \<open>os.environ\<close> an argument. What \<open>pathlib\<close>
  answers about a path, or raises, is a \<open>filesystem\<close>; a \<open>Path\<close> is the text it was built
  from.
\<close>

section \<open>Letter case\<close>

text \<open>
  \<open>str.upper\<close> and \<open>str.lower\<close> as far as their results can hold ASCII
  letters, which is all the program compares them with: the ASCII letters, and the
  non-ASCII characters whose mapping contains an ASCII letter. Every other
  character is left as it is.
\<close>

definition upper_special :: "(nat \<times> string) list" where
  "upper_special =
     [(0xDF, ''SS''), (0x131, ''I''), (0x17F, ''S''), (0xFB00, ''FF''), (0xFB01, ''FI''),
      (0xFB02, ''FL''), (0xFB03, ''FFI''), (0xFB04, ''FFL''), (0xFB05, ''ST''), (0xFB06, ''ST'')]"

definition upper_split :: "(nat \<times> nat list) list" where
  "upper_split =
     [(0x149, [0x2BC, 78]), (0x1F0, [74, 0x30C]), (0x1E96, [72, 0x331]), (0x1E97, [84, 0x308]),
      (0x1E98, [87, 0x30A]), (0x1E99, [89, 0x30A]), (0x1E9A, [65, 0x2BE])]"

definition upper_char :: "nat \<Rightarrow> pystr" where
  "upper_char c =
     (if 97 \<le> c \<and> c \<le> 122 then [c - 32]
      else case map_of upper_special c of
        Some s \<Rightarrow> str_lit s
      | None \<Rightarrow> (case map_of upper_split c of Some s \<Rightarrow> s | None \<Rightarrow> [c]))"

definition lower_char :: "nat \<Rightarrow> pystr" where
  "lower_char c =
     (if 65 \<le> c \<and> c \<le> 90 then [c + 32]
      else if c = 0x212A then [107]
      else if c = 0x130 then [105, 0x307]
      else [c])"

definition upper :: "pystr \<Rightarrow> pystr" where "upper s = concat (map upper_char s)"
definition lower :: "pystr \<Rightarrow> pystr" where "lower s = concat (map lower_char s)"

text \<open>\<open>needle in haystack\<close> on strings.\<close>

fun occurs_in :: "'a list \<Rightarrow> 'a list \<Rightarrow> bool" where
  "occurs_in needle [] \<longleftrightarrow> needle = []"
| "occurs_in needle (c # s) \<longleftrightarrow> starts_with needle (c # s) \<or> occurs_in needle s"

section \<open>The committed identity\<close>

definition ROOT_AGENT_DID :: pystr where
  "ROOT_AGENT_DID = str_lit ''did:key:z6MkmjUUh9SLWe66SPFEUgQ4JA2RcbNLgimMzVA8VnvErnCN''"

definition ENV_OVERRIDE :: pystr where
  "ENV_OVERRIDE = str_lit ''FLOPOFFICE_ROOT_AGENT_DID''"

text \<open>\<open>ROOT_AGENT\<close> is built when the module is imported; an invalid text would raise there.\<close>

definition ROOT_AGENT :: "exn + DidKey" where
  "ROOT_AGENT = make_DidKey (VStr ROOT_AGENT_DID)"

section \<open>The file system\<close>

text \<open>
  The answers about one path: each call may raise instead, for instance \<open>OSError\<close> when a
  directory cannot be searched or \<open>RuntimeError\<close> for a loop of symbolic links.
  \<open>pi_inside_repo\<close> is \<open>resolve(strict=False)\<close> followed by the question whether the result is below
  \<open>REPO_ROOT\<close>; \<open>pi_content\<close> is what \<open>read_bytes\<close> returns, if anything.
\<close>

record path_info =
  pi_inside_repo :: "exn + bool"
  pi_is_symlink :: "exn + bool"
  pi_exists :: "exn + bool"
  pi_is_file :: "exn + bool"
  pi_mode :: "exn + 32 word"
  pi_parent_exists :: "exn + bool"
  pi_parent_mode :: "exn + 32 word"
  pi_content :: "bytes option"
  pi_name :: pystr

text \<open>\<open>expanduser\<close> raises \<open>RuntimeError\<close> when it does not find the home directory.\<close>

record filesystem =
  expanduser :: "pystr \<Rightarrow> exn + pystr"
  stat_path :: "pystr \<Rightarrow> path_info"

text \<open>
  \<open>path.resolve(strict=False).relative_to(REPO_ROOT)\<close> under \<open>except ValueError\<close>: a path
  outside makes \<open>relative_to\<close> raise it, and one that \<open>resolve\<close> refuses with a \<open>ValueError\<close>
  counts as outside too.
\<close>

definition is_inside_repo :: "filesystem \<Rightarrow> pystr \<Rightarrow> exn + bool" where
  "is_inside_repo fs path =
     (case pi_inside_repo (stat_path fs path) of
        Inl e \<Rightarrow> if is_ValueError e then Inr False else Inl e
      | Inr inside \<Rightarrow> Inr inside)"

section \<open>Loading the settings\<close>

type_synonym environ = "(pystr \<times> pystr) list"

datatype did_source = Committed | FromEnvironment

record Settings =
  env :: pystr
  ledger_path :: pystr
  root_agent_did :: DidKey
  root_agent_did_source :: did_source
  keystore_path :: "pystr option"
  technocore_base_url :: "pystr option"
  allow_local_write :: bool

definition is_prod :: "Settings \<Rightarrow> bool" where
  "is_prod s \<longleftrightarrow> env s = str_lit ''prod''"

definition root_signer_configured :: "Settings \<Rightarrow> bool" where
  "root_signer_configured s \<longleftrightarrow> keystore_path s \<noteq> None"

definition root_signer_enabled :: "Settings \<Rightarrow> bool" where
  "root_signer_enabled s = False"

definition FORBIDDEN_ENV_SUBSTRINGS :: "pystr list" where
  "FORBIDDEN_ENV_SUBSTRINGS =
     [str_lit ''PRIVATE_KEY'', str_lit ''PASSPHRASE'', str_lit ''SEED'', str_lit ''MNEMONIC'',
      str_lit ''SECRET'']"

definition secret_shaped :: "pystr \<Rightarrow> bool" where
  "secret_shaped name \<longleftrightarrow>
     starts_with (str_lit ''FLOPOFFICE_'') name \<and>
     list_ex (\<lambda>bad. occurs_in bad (upper name)) FORBIDDEN_ENV_SUBSTRINGS"

definition reject_secret_env :: "environ \<Rightarrow> exn + unit" where
  "reject_secret_env os_environ =
     (let offenders = filter secret_shaped (map fst os_environ)
      in unless_raise (offenders = []) (ConfigError SecretEnvironment))"

text \<open>\<open>env_map.get(name) or default\<close>: an empty value counts as absent.\<close>

definition env_or :: "environ \<Rightarrow> pystr \<Rightarrow> pystr \<Rightarrow> pystr" where
  "env_or env_map name dflt =
     (case map_of env_map name of
        None \<Rightarrow> dflt
      | Some v \<Rightarrow> if v = [] then dflt else v)"

definition choose_did :: "environ \<Rightarrow> exn + DidKey \<times> did_source" where
  "choose_did env_map =
     (let override = strip (env_or env_map ENV_OVERRIDE [])
      in if override \<noteq> [] then
           (case make_DidKey (VStr override) of
              Inr d \<Rightarrow> Inr (d, FromEnvironment)
            | Inl e \<Rightarrow> if is_DidKeyError e then Inl (ConfigError OverrideInvalid) else Inl e)
         else rbind ROOT_AGENT (\<lambda>d. Inr (d, Committed)))"

definition choose_keystore :: "filesystem \<Rightarrow> environ \<Rightarrow> exn + pystr option" where
  "choose_keystore fs env_map =
     (let keystore = env_or env_map (str_lit ''FLOPOFFICE_KEYSTORE'') []
      in if keystore = [] then Inr None
         else rbind (expanduser fs keystore) (\<lambda>path.
              rbind (is_inside_repo fs path) (\<lambda>inside.
                if inside then Inl (ConfigError KeystoreInRepo) else Inr (Some path))))"

definition load ::
  "filesystem \<Rightarrow> environ \<Rightarrow> environ option \<Rightarrow> exn + Settings" where
  "load fs os_environ arg =
     (let env_map = (case arg of None \<Rightarrow> os_environ | Some e \<Rightarrow> e) in
      rbind (if arg = None then reject_secret_env os_environ else Inr ()) (\<lambda>_.
      rbind (choose_did env_map) (\<lambda>(root_did, did_source).
      rbind (choose_keystore fs env_map) (\<lambda>keystore.
      let base = strip (env_or env_map (str_lit ''TECHNOCORE_BASE_URL'') []) in
      Inr \<lparr>env = lower (env_or env_map (str_lit ''FLOPOFFICE_ENV'') (str_lit ''dev'')),
           ledger_path = env_or env_map (str_lit ''FLOPOFFICE_LEDGER'') (str_lit ''flopoffice.sqlite''),
           root_agent_did = root_did,
           root_agent_did_source = did_source,
           keystore_path = keystore,
           technocore_base_url = (if base = [] then None else Some base),
           allow_local_write =
             map_of env_map (str_lit ''FLOPOFFICE_ALLOW_LOCAL_WRITE'') = Some (str_lit ''1'')\<rparr>))))"

section \<open>The committed identity is valid\<close>

text \<open>The base58 digits of the committed identifier, evaluated once.\<close>

lemma ROOT_AGENT_digits:
  "b58_accum 0 (str_lit ''6MkmjUUh9SLWe66SPFEUgQ4JA2RcbNLgimMzVA8VnvErnCN'') =
     Inr 7025502352805394048735426634880218033649756029227040573342946043812698898393366463"
  by (simp add: b58_index_def B58_ALPHABET_def)

definition ROOT_KEY :: bytes where
  "ROOT_KEY = [108, 41, 40, 195, 45, 225, 20, 125, 231, 64, 105, 80, 91, 79, 215, 74, 188, 58, 191, 41, 81, 232, 17, 242, 31, 255, 237, 197, 195, 34, 127, 191]"

lemma ROOT_AGENT_bytes:
  "int_to_bytes 7025502352805394048735426634880218033649756029227040573342946043812698898393366463 = ED25519_MULTICODEC @ ROOT_KEY"
  by (simp add: int_to_bytes_def be_digits.simps ROOT_KEY_def ED25519_MULTICODEC_def)

lemma ROOT_AGENT_decodes: "decode_did_key (VStr ROOT_AGENT_DID) = Inr ROOT_KEY"
proof -
  let ?t = "str_lit ''6MkmjUUh9SLWe66SPFEUgQ4JA2RcbNLgimMzVA8VnvErnCN''"
  have s: "ROOT_AGENT_DID = DID_PREFIX @ MULTIBASE_BASE58BTC @ ?t"
    by (simp add: ROOT_AGENT_DID_def DID_PREFIX_def MULTIBASE_BASE58BTC_def)
  have "ascii_encode ?t = Inr ?t" by (simp add: ascii_encode_def)
  moreover have "takeWhile (\<lambda>c. c = 49) ?t = []" and "?t \<noteq> []" by simp_all
  ultimately have "b58decode ?t = Inr (ED25519_MULTICODEC @ ROOT_KEY)"
    by (simp add: b58decode_def ROOT_AGENT_digits ROOT_AGENT_bytes del: str_lit_Cons)
  moreover have "length ROOT_KEY = 32" by (simp add: ROOT_KEY_def)
  ultimately show ?thesis by (simp add: s decode_did_key_text del: str_lit_Cons)
qed

lemma ROOT_AGENT_Inr: "ROOT_AGENT = Inr \<lparr>did = ROOT_AGENT_DID\<rparr>"
  by (simp add: ROOT_AGENT_def make_DidKey_def ROOT_AGENT_decodes)

section \<open>What load returns\<close>

lemma make_DidKey_VStr:
  "make_DidKey (VStr s) =
     (case decode_did_key (VStr s) of Inl e \<Rightarrow> Inl e | Inr _ \<Rightarrow> Inr \<lparr>did = s\<rparr>)"
  by (cases "decode_did_key (VStr s)") (simp_all add: make_DidKey_def)

lemma make_DidKey_VStr_Inr:
  "make_DidKey (VStr s) = Inr d \<longleftrightarrow> d = \<lparr>did = s\<rparr> \<and> (\<exists>key. decode_did_key (VStr s) = Inr key)"
  by (auto simp: make_DidKey_VStr split: sum.splits)

definition override_of :: "environ \<Rightarrow> pystr" where
  "override_of env_map = strip (env_or env_map ENV_OVERRIDE [])"

text \<open>The settings that a successful run returns, given the identity and the keystore.\<close>

definition settings_of :: "environ \<Rightarrow> DidKey \<Rightarrow> did_source \<Rightarrow> pystr option \<Rightarrow> Settings" where
  "settings_of env_map d src keystore =
     (let base = strip (env_or env_map (str_lit ''TECHNOCORE_BASE_URL'') []) in
      \<lparr>env = lower (env_or env_map (str_lit ''FLOPOFFICE_ENV'') (str_lit ''dev'')),
       ledger_path = env_or env_map (str_lit ''FLOPOFFICE_LEDGER'') (str_lit ''flopoffice.sqlite''),
       root_agent_did = d, root_agent_did_source = src, keystore_path = keystore,
       technocore_base_url = (if base = [] then None else Some base),
       allow_local_write =
         map_of env_map (str_lit ''FLOPOFFICE_ALLOW_LOCAL_WRITE'') = Some (str_lit ''1'')\<rparr>)"

lemma choose_did_Inr:
  "choose_did env_map = Inr (d, src) \<longleftrightarrow>
     (if override_of env_map = [] then d = \<lparr>did = ROOT_AGENT_DID\<rparr> \<and> src = Committed
      else make_DidKey (VStr (override_of env_map)) = Inr d \<and> src = FromEnvironment)"
  by (auto simp: choose_did_def override_of_def Let_def ROOT_AGENT_Inr split: sum.splits if_splits)

lemma choose_did_Inl:
  "choose_did env_map = Inl e \<longleftrightarrow>
     override_of env_map \<noteq> [] \<and>
     (\<exists>e'. decode_did_key (VStr (override_of env_map)) = Inl e' \<and>
           e = (if is_DidKeyError e' then ConfigError OverrideInvalid else e'))"
  by (auto simp: choose_did_def override_of_def Let_def ROOT_AGENT_Inr make_DidKey_VStr
      split: sum.splits if_splits)

lemma choose_keystore_Inr:
  "choose_keystore fs env_map = Inr k \<longleftrightarrow>
     (let v = env_or env_map (str_lit ''FLOPOFFICE_KEYSTORE'') [] in
      if v = [] then k = None
      else \<exists>path. expanduser fs v = Inr path \<and> is_inside_repo fs path = Inr False \<and> k = Some path)"
  by (auto simp: choose_keystore_def Let_def rbind_eq_Inr simp del: str_lit_Cons)

lemma choose_keystore_Inl:
  "choose_keystore fs env_map = Inl e \<longleftrightarrow>
     (let v = env_or env_map (str_lit ''FLOPOFFICE_KEYSTORE'') [] in
      v \<noteq> [] \<and> (expanduser fs v = Inl e \<or> (\<exists>path. expanduser fs v = Inr path \<and>
        (is_inside_repo fs path = Inl e \<or> is_inside_repo fs path = Inr True \<and> e = ConfigError KeystoreInRepo))))"
  by (auto simp: choose_keystore_def Let_def rbind_eq_Inl simp del: str_lit_Cons split: if_splits)

definition secrets_present :: "environ \<Rightarrow> environ option \<Rightarrow> bool" where
  "secrets_present os_environ arg \<longleftrightarrow> arg = None \<and> (\<exists>name \<in> fst ` set os_environ. secret_shaped name)"

definition env_map_of :: "environ \<Rightarrow> environ option \<Rightarrow> environ" where
  "env_map_of os_environ arg = (case arg of None \<Rightarrow> os_environ | Some e \<Rightarrow> e)"

lemma reject_secret_env_iff:
  "(if arg = None then reject_secret_env os_environ else Inr ()) =
     unless_raise (\<not> secrets_present os_environ arg) (ConfigError SecretEnvironment)"
proof -
  have "filter secret_shaped (map fst os_environ) = [] \<longleftrightarrow>
      \<not> (\<exists>name \<in> fst ` set os_environ. secret_shaped name)"
    by (simp add: filter_empty_conv)
  then show ?thesis
    by (auto simp: reject_secret_env_def secrets_present_def Let_def unless_raise_def)
qed

lemma load_steps:
  "load fs os_environ arg =
     rbind (unless_raise (\<not> secrets_present os_environ arg) (ConfigError SecretEnvironment)) (\<lambda>_.
     rbind (choose_did (env_map_of os_environ arg)) (\<lambda>(d, src).
     rbind (choose_keystore fs (env_map_of os_environ arg)) (\<lambda>k.
       Inr (settings_of (env_map_of os_environ arg) d src k))))"
  unfolding load_def reject_secret_env_iff env_map_of_def settings_of_def Let_def ..

lemma load_Inr:
  "load fs os_environ arg = Inr s \<longleftrightarrow>
     \<not> secrets_present os_environ arg \<and>
     (\<exists>d src k. choose_did (env_map_of os_environ arg) = Inr (d, src) \<and>
        choose_keystore fs (env_map_of os_environ arg) = Inr k \<and>
        s = settings_of (env_map_of os_environ arg) d src k)"
  by (auto simp: load_steps rbind_eq_Inr split: prod.splits)

section \<open>Properties\<close>

text \<open>
  C24. Whatever \<open>load\<close> returns is well formed: the identity decodes to a
  32-byte Ed25519 key and is the committed one unless the environment names
  another, a keystore path never lies inside the repository, a real environment
  that was accepted holds no secret-shaped variable, local writes are on only for
  the value \<open>1\<close>, and no setting enables the signer.
\<close>

theorem loaded_settings_are_checked:
  assumes "load fs os_environ arg = Inr s"
  shows "(\<exists>key. public_key_bytes (root_agent_did s) = Inr key \<and> length key = 32) \<and>
    (root_agent_did_source s = Committed \<longleftrightarrow> override_of (env_map_of os_environ arg) = []) \<and>
    did (root_agent_did s) =
      (if root_agent_did_source s = Committed then ROOT_AGENT_DID
       else override_of (env_map_of os_environ arg)) \<and>
    (\<forall>p. keystore_path s = Some p \<longrightarrow> is_inside_repo fs p = Inr False) \<and>
    (arg = None \<longrightarrow> (\<forall>name \<in> fst ` set os_environ. \<not> secret_shaped name)) \<and>
    (allow_local_write s \<longleftrightarrow> map_of (env_map_of os_environ arg)
        (str_lit ''FLOPOFFICE_ALLOW_LOCAL_WRITE'') = Some (str_lit ''1'')) \<and>
    \<not> root_signer_enabled s"
proof -
  let ?env = "env_map_of os_environ arg"
  from assms obtain d src k where secrets: "\<not> secrets_present os_environ arg"
    and d: "choose_did ?env = Inr (d, src)" and k: "choose_keystore fs ?env = Inr k"
    and s: "s = settings_of ?env d src k"
    by (auto simp: load_Inr)
  from d have "(\<exists>key. public_key_bytes d = Inr key \<and> length key = 32) \<and>
      (src = Committed \<longleftrightarrow> override_of ?env = []) \<and>
      did d = (if src = Committed then ROOT_AGENT_DID else override_of ?env)"
    using ROOT_AGENT_decodes decode_did_key_length
    by (fastforce simp: choose_did_Inr make_DidKey_VStr_Inr public_key_bytes_def split: if_splits)
  moreover from k have "\<forall>p. k = Some p \<longrightarrow> is_inside_repo fs p = Inr False"
    by (auto simp: choose_keystore_Inr Let_def simp del: str_lit_Cons split: if_splits)
  moreover from secrets have "arg = None \<longrightarrow> (\<forall>name \<in> fst ` set os_environ. \<not> secret_shaped name)"
    by (auto simp: secrets_present_def)
  ultimately show ?thesis
    by (simp add: s settings_of_def Let_def root_signer_enabled_def del: str_lit_Cons)
qed

text \<open>An environment without variables loads the committed identity.\<close>

lemma load_empty:
  "load fs os_environ (Some []) =
     Inr (settings_of [] \<lparr>did = ROOT_AGENT_DID\<rparr> Committed None)"
  by (simp add: load_steps secrets_present_def env_map_of_def choose_did_def choose_keystore_def
      env_or_def strip_def ROOT_AGENT_Inr)

theorem loaded_settings_are_checked_witness:
  "did (root_agent_did (settings_of [] \<lparr>did = ROOT_AGENT_DID\<rparr> Committed None)) = ROOT_AGENT_DID"
  using loaded_settings_are_checked [OF load_empty]
  by (simp add: settings_of_def Let_def del: str_lit_Cons)

text \<open>
  C39. When \<open>load\<close> raises, and what. The checks run in the order of the source: secret
  variables, the override, the keystore. A malformed override is a
  \<open>ConfigError\<close> except when it has a non-ASCII character after
  \<open>did:key:z\<close>, which surfaces as \<open>UnicodeEncodeError\<close>. Of the configured keystore, whatever
  \<open>expanduser\<close> and \<open>resolve\<close> raise escapes, except a \<open>ValueError\<close> of \<open>resolve\<close>; a path inside
  the repository is a \<open>ConfigError\<close>.
\<close>

theorem load_raises_iff:
  "load fs os_environ arg = Inl e \<longleftrightarrow>
     (let env_map = env_map_of os_environ arg;
          override = override_of env_map;
          keystore = env_or env_map (str_lit ''FLOPOFFICE_KEYSTORE'') [] in
      if secrets_present os_environ arg then e = ConfigError SecretEnvironment
      else if override \<noteq> [] \<and> is_valid_did_key (VStr override) = Inl UnicodeEncodeError
        then e = UnicodeEncodeError
      else if override \<noteq> [] \<and> is_valid_did_key (VStr override) = Inr False
        then e = ConfigError OverrideInvalid
      else keystore \<noteq> [] \<and>
        (case expanduser fs keystore of
           Inl e' \<Rightarrow> e = e'
         | Inr path \<Rightarrow> (case pi_inside_repo (stat_path fs path) of
             Inl e' \<Rightarrow> e = e' \<and> \<not> is_ValueError e'
           | Inr inside \<Rightarrow> inside \<and> e = ConfigError KeystoreInRepo)))"
proof -
  let ?env = "env_map_of os_environ arg"
  have verdict: "is_valid_did_key (VStr (override_of ?env)) =
      (case decode_did_key (VStr (override_of ?env)) of Inr _ \<Rightarrow> Inr True
       | Inl e' \<Rightarrow> if is_DidKeyError e' then Inr False else Inl e')"
    by (simp add: is_valid_did_key_def)
  have files: "choose_keystore fs ?env = Inl e \<longleftrightarrow>
      (let keystore = env_or ?env (str_lit ''FLOPOFFICE_KEYSTORE'') [] in keystore \<noteq> [] \<and>
        (case expanduser fs keystore of
           Inl e' \<Rightarrow> e = e'
         | Inr path \<Rightarrow> (case pi_inside_repo (stat_path fs path) of
             Inl e' \<Rightarrow> e = e' \<and> \<not> is_ValueError e'
           | Inr inside \<Rightarrow> inside \<and> e = ConfigError KeystoreInRepo)))"
    unfolding choose_keystore_Inl Let_def is_inside_repo_def
    by (auto simp del: str_lit_Cons split: sum.splits if_splits)
  show ?thesis
  proof (cases "\<not> secrets_present os_environ arg \<and> override_of ?env \<noteq> []")
    case True
    show ?thesis
    proof (cases "decode_did_key (VStr (override_of ?env))")
      case (Inl e')
      then have "choose_did ?env =
          Inl (if is_DidKeyError e' then ConfigError OverrideInvalid else e')"
        using True by (simp add: choose_did_Inl)
      moreover have "is_DidKeyError e' \<or> e' = UnicodeEncodeError"
        using decode_did_key_errors [OF Inl] by blast
      ultimately show ?thesis
        using True Inl verdict
        by (auto simp: load_steps Let_def simp del: str_lit_Cons split: if_splits)
    next
      case (Inr key)
      then have "choose_did ?env = Inr (\<lparr>did = override_of ?env\<rparr>, FromEnvironment)"
        using True by (simp add: choose_did_Inr make_DidKey_VStr_Inr)
      then show ?thesis
        using True Inr verdict
        by (auto simp: load_steps Let_def rbind_eq_Inl files simp del: str_lit_Cons)
    qed
  next
    case False
    then show ?thesis
      using choose_did_Inr [of ?env "\<lparr>did = ROOT_AGENT_DID\<rparr>" Committed]
      by (auto simp: load_steps Let_def rbind_eq_Inl files simp del: str_lit_Cons)
  qed
qed

end
