(* ===== verification/Keystore.thy ===== *)
theory Keystore
  imports Settings Signature
begin

text \<open>
  \<open>identity/keystore.py\<close>: custody of the private key. The
  \<open>cryptography\<close> package is the parameter \<open>ed25519\<close> of every
  definition that uses it: key derivation, signing, verification and the PEM
  loader are fields of a record over an abstract type of private keys.
\<close>

section \<open>The cryptographic backend\<close>

text \<open>
  \<open>load_pem_private_key\<close> raises, returns a key of another type, or returns an
  Ed25519 key. \<open>verify\<close> of a public key returns, raises
  \<open>InvalidSignature\<close> or raises something else.
\<close>

datatype 'key pem = PemRaises | PemOtherKey | PemEd25519 'key

datatype verify_outcome = Verified | RaisesInvalidSignature | RaisesOther

record 'key ed25519 =
  ed_public :: "'key \<Rightarrow> bytes"
  ed_sign :: "'key \<Rightarrow> bytes \<Rightarrow> bytes"
  ed_verify :: "bytes \<Rightarrow> bytes \<Rightarrow> bytes \<Rightarrow> verify_outcome"
  ed_load_pem :: "bytes \<Rightarrow> bytes \<Rightarrow> 'key pem"

text \<open>
  What RFC 8032 and the package promise of it: the sizes, and that a signature
  verifies under the public key of its signer.
\<close>

definition ed25519_ok :: "'key ed25519 \<Rightarrow> bool" where
  "ed25519_ok c \<longleftrightarrow>
     (\<forall>key. length (ed_public c key) = 32) \<and>
     (\<forall>key payload. length (ed_sign c key payload) = 64) \<and>
     (\<forall>key payload. ed_verify c (ed_public c key) (ed_sign c key payload) payload = Verified)"

section \<open>The handle\<close>

record 'key PrivateKeyHandle =
  handle_key :: "'key"
  handle_did :: DidKey
  handle_label :: pystr

definition PrivateKeyHandle_init ::
  "'key ed25519 \<Rightarrow> 'key \<Rightarrow> pystr \<Rightarrow> exn + 'key PrivateKeyHandle" where
  "PrivateKeyHandle_init c key lbl =
     rbind (DidKey_from_public_bytes (VBytes (ed_public c key))) (\<lambda>d.
       Inr \<lparr>handle_key = key, handle_did = d, handle_label = lbl\<rparr>)"

definition handle_sign :: "'key ed25519 \<Rightarrow> 'key PrivateKeyHandle \<Rightarrow> pyval \<Rightarrow> exn + bytes" where
  "handle_sign c h payload =
     (case payload of
        VBytes b \<Rightarrow> Inr (ed_sign c (handle_key h) b)
      | _ \<Rightarrow> Inl (KeystoreError SignPayloadNotBytes))"

text \<open>The four ways the standard library would copy or serialise an object.\<close>

datatype duplication = Reduce | GetState | Copy | DeepCopy

fun handle_duplicate :: "duplication \<Rightarrow> 'key PrivateKeyHandle \<Rightarrow> exn + 'key PrivateKeyHandle" where
  "handle_duplicate Reduce h = Inl (KeystoreError NotSerialisable)"
| "handle_duplicate GetState h = Inl (KeystoreError NotSerialisable)"
| "handle_duplicate Copy h = Inl (KeystoreError NotCopyable)"
| "handle_duplicate DeepCopy h = Inl (KeystoreError NotCopyable)"

text \<open>
  What printing shows of a handle; \<open>label_repr\<close> is \<open>repr(self.__label)\<close>. The key takes no part in it.
\<close>

definition REDACTED :: pystr where "REDACTED = str_lit ''<Ed25519PrivateKey redacted>''"

definition handle_repr :: "(pystr \<Rightarrow> pystr) \<Rightarrow> 'key PrivateKeyHandle \<Rightarrow> pystr" where
  "handle_repr label_repr h =
     str_lit ''PrivateKeyHandle(label='' @ label_repr (handle_label h) @ str_lit '', did='' @
     DidKey_short (handle_did h) @ str_lit '', key='' @ REDACTED @ str_lit '')''"

definition handle_str :: "(pystr \<Rightarrow> pystr) \<Rightarrow> 'key PrivateKeyHandle \<Rightarrow> pystr" where
  "handle_str label_repr h = handle_repr label_repr h"

definition handle_format :: "(pystr \<Rightarrow> pystr) \<Rightarrow> 'key PrivateKeyHandle \<Rightarrow> pystr \<Rightarrow> pystr" where
  "handle_format label_repr h spec = handle_repr label_repr h"

lemma printing_hides_the_key:
  "handle_str label_repr (h\<lparr>handle_key := key\<rparr>) = handle_str label_repr h"
  "handle_format label_repr (h\<lparr>handle_key := key\<rparr>) spec = handle_format label_repr h spec"
  by (simp_all add: handle_str_def handle_format_def handle_repr_def)

definition derive_did :: "'key PrivateKeyHandle \<Rightarrow> DidKey" where
  "derive_did h = handle_did h"

text \<open>\<open>fresh\<close> is the key that \<open>Ed25519PrivateKey.generate()\<close> would return.\<close>

definition generate_ephemeral ::
  "'key ed25519 \<Rightarrow> environ \<Rightarrow> 'key \<Rightarrow> pystr \<Rightarrow> exn + 'key PrivateKeyHandle" where
  "generate_ephemeral c os_environ fresh lbl =
     (let value = (case map_of os_environ (str_lit ''FLOPOFFICE_ENV'') of
                     None \<Rightarrow> str_lit ''dev'' | Some v \<Rightarrow> v)
      in if lower value = str_lit ''prod'' then Inl (KeystoreError EphemeralInProd)
         else PrivateKeyHandle_init c fresh lbl)"

definition save_encrypted_pem :: "'key PrivateKeyHandle \<Rightarrow> pystr \<Rightarrow> pystr \<Rightarrow> exn + pystr" where
  "save_encrypted_pem h path passphrase = Inl (KeyNotWiredError SaveNotImplemented)"

definition production_signer :: "exn + 'key PrivateKeyHandle" where
  "production_signer = Inl (KeyNotWiredError NoRawSigner)"

section \<open>Loading an encrypted key\<close>

definition MIN_PASSPHRASE_LEN :: nat where "MIN_PASSPHRASE_LEN = 12"

definition passphrase_bytes :: "pyval \<Rightarrow> exn + bytes" where
  "passphrase_bytes passphrase =
     (case passphrase of
        VStr s \<Rightarrow> utf8_encode s
      | VBytes b \<Rightarrow> Inr b
      | _ \<Rightarrow> Inl (KeystoreError PassphraseType))"

text \<open>\<open>needle in data\<close> on \<open>bytes\<close>, for the two markers of an encrypted file.\<close>

definition ENCRYPTED_MARKER :: bytes where
  "ENCRYPTED_MARKER = map word_of_nat (str_lit ''ENCRYPTED'')"

definition OPENSSH_MARKER :: bytes where
  "OPENSSH_MARKER = map word_of_nat (str_lit ''-----BEGIN OPENSSH'')"

definition looks_encrypted :: "bytes \<Rightarrow> bool" where
  "looks_encrypted data \<longleftrightarrow> occurs_in ENCRYPTED_MARKER data \<or> occurs_in OPENSSH_MARKER data"

definition group_or_world :: "32 word \<Rightarrow> bool" where
  "group_or_world mode \<longleftrightarrow> and mode 63 \<noteq> 0"

text \<open>The \<open>try\<close> block: \<open>KeystoreError\<close> passes, everything else is hidden.\<close>

definition decrypt_pem :: "'key ed25519 \<Rightarrow> path_info \<Rightarrow> bytes \<Rightarrow> exn + 'key pem" where
  "decrypt_pem c info passphrase =
     (case pi_content info of
        None \<Rightarrow> Inl (KeystoreError CannotDecrypt)
      | Some data \<Rightarrow>
          if \<not> looks_encrypted data then Inl (KeystoreError NotEncrypted)
          else (case ed_load_pem c data passphrase of
              PemRaises \<Rightarrow> Inl (KeystoreError CannotDecrypt)
            | loaded \<Rightarrow> Inr loaded))"

text \<open>\<open>parent.exists() and parent.stat().st_mode & 0o077\<close>.\<close>

definition parent_open :: "path_info \<Rightarrow> exn + bool" where
  "parent_open info =
     rbind (pi_parent_exists info) (\<lambda>there.
       if there then rbind (pi_parent_mode info) (\<lambda>mode. Inr (group_or_world mode)) else Inr False)"

definition load_encrypted_pem ::
  "'key ed25519 \<Rightarrow> filesystem \<Rightarrow> pystr \<Rightarrow> pyval \<Rightarrow> exn + 'key PrivateKeyHandle" where
  "load_encrypted_pem c fs path passphrase =
     rbind (expanduser fs path) (\<lambda>p.
     let info = stat_path fs p in
      rbind (is_inside_repo fs p) (\<lambda>inside.
      rbind (unless_raise (\<not> inside) (KeystoreError InsideRepo)) (\<lambda>_.
      rbind (pi_is_symlink info) (\<lambda>link.
      rbind (unless_raise (\<not> link) (KeystoreError IsSymlink)) (\<lambda>_.
      rbind (pi_exists info) (\<lambda>there.
      rbind (unless_raise there (KeystoreError NotFound)) (\<lambda>_.
      rbind (pi_is_file info) (\<lambda>plain_file.
      rbind (unless_raise plain_file (KeystoreError NotRegularFile)) (\<lambda>_.
      rbind (passphrase_bytes passphrase) (\<lambda>secret.
      rbind (unless_raise (MIN_PASSPHRASE_LEN \<le> length secret) (KeystoreError PassphraseShort)) (\<lambda>_.
      rbind (pi_mode info) (\<lambda>mode.
      rbind (unless_raise (\<not> group_or_world mode) KeystorePermissionError) (\<lambda>_.
      rbind (parent_open info) (\<lambda>shared.
      rbind (unless_raise (\<not> shared) KeystorePermissionError) (\<lambda>_.
      rbind (decrypt_pem c info secret) (\<lambda>loaded.
        (case loaded of
           PemEd25519 key \<Rightarrow> PrivateKeyHandle_init c key (pi_name info)
         | _ \<Rightarrow> Inl (KeystoreError NoEd25519Inside))))))))))))))))))"

section \<open>Facts about handles\<close>

lemma DidKey_from_public_bytes_VBytes:
  assumes "length key = 32"
  shows "DidKey_from_public_bytes (VBytes key) = Inr \<lparr>did = did_key_text key\<rparr>"
proof -
  have enc: "encode_did_key (VBytes key) = Inr (did_key_text key)"
    using assms by (simp add: encode_did_key_VBytes)
  show ?thesis
    by (simp add: DidKey_from_public_bytes_def enc make_DidKey_def did_key.dec_enc [OF enc])
qed

lemma did_key_text_decodes: "length key = 32 \<Longrightarrow> decode_did_key (VStr (did_key_text key)) = Inr key"
  by (rule did_key.dec_enc) (simp add: encode_did_key_VBytes)

text \<open>A handle is well formed when its identity is the one its key derives.\<close>

definition handle_ok :: "'key ed25519 \<Rightarrow> 'key PrivateKeyHandle \<Rightarrow> bool" where
  "handle_ok c h \<longleftrightarrow> handle_did h = \<lparr>did = did_key_text (ed_public c (handle_key h))\<rparr>"

lemma PrivateKeyHandle_init_ok:
  assumes "ed25519_ok c"
  shows "PrivateKeyHandle_init c key lbl = Inr
    \<lparr>handle_key = key, handle_did = \<lparr>did = did_key_text (ed_public c key)\<rparr>, handle_label = lbl\<rparr>"
  using assms by (simp add: PrivateKeyHandle_init_def DidKey_from_public_bytes_VBytes ed25519_ok_def)

lemma handle_ok_init:
  "ed25519_ok c \<Longrightarrow> PrivateKeyHandle_init c key lbl = Inr h \<Longrightarrow> handle_ok c h"
  by (auto simp: PrivateKeyHandle_init_ok handle_ok_def)

lemma handle_ok_public_key:
  assumes "ed25519_ok c" and "handle_ok c h"
  shows "public_key_bytes (handle_did h) = Inr (ed_public c (handle_key h))"
  using assms by (simp add: handle_ok_def public_key_bytes_def did_key_text_decodes ed25519_ok_def)

section \<open>When a keystore opens\<close>

definition path_is_private :: "filesystem \<Rightarrow> pystr \<Rightarrow> bool" where
  "path_is_private fs p \<longleftrightarrow>
     (let info = stat_path fs p in
      is_inside_repo fs p = Inr False \<and> pi_is_symlink info = Inr False \<and> pi_exists info = Inr True \<and>
      pi_is_file info = Inr True \<and> (\<exists>mode. pi_mode info = Inr mode \<and> \<not> group_or_world mode) \<and>
      (pi_parent_exists info = Inr False \<or>
       pi_parent_exists info = Inr True \<and> (\<exists>mode. pi_parent_mode info = Inr mode \<and> \<not> group_or_world mode)))"

lemma parent_open_Inr: "parent_open info = Inr shared \<longleftrightarrow>
    pi_parent_exists info = Inr False \<and> \<not> shared \<or>
    pi_parent_exists info = Inr True \<and> (\<exists>mode. pi_parent_mode info = Inr mode \<and> shared = group_or_world mode)"
  by (auto simp: parent_open_def rbind_eq_Inr)

lemma decrypt_pem_Inr:
  "decrypt_pem c info secret = Inr loaded \<longleftrightarrow>
     loaded \<noteq> PemRaises \<and>
     (\<exists>data. pi_content info = Some data \<and> looks_encrypted data \<and>
             ed_load_pem c data secret = loaded)"
  by (auto simp: decrypt_pem_def split: option.splits pem.splits if_splits)

lemma pem_handle_Inr:
  assumes "ed25519_ok c"
  shows "rbind (decrypt_pem c info secret) (\<lambda>loaded.
      (case loaded of PemEd25519 key \<Rightarrow> PrivateKeyHandle_init c key lbl
       | _ \<Rightarrow> Inl (KeystoreError NoEd25519Inside))) = Inr h \<longleftrightarrow>
    (\<exists>data key. pi_content info = Some data \<and> looks_encrypted data \<and>
       ed_load_pem c data secret = PemEd25519 key \<and>
       h = \<lparr>handle_key = key, handle_did = \<lparr>did = did_key_text (ed_public c key)\<rparr>,
            handle_label = lbl\<rparr>)" (is "?L = ?R")
proof
  assume ?L
  then obtain loaded where loaded: "decrypt_pem c info secret = Inr loaded"
    and h: "(case loaded of PemEd25519 key \<Rightarrow> PrivateKeyHandle_init c key lbl
       | _ \<Rightarrow> Inl (KeystoreError NoEd25519Inside)) = Inr h"
    by (auto simp: rbind_eq_Inr)
  then obtain key where "loaded = PemEd25519 key" by (cases loaded) auto
  with loaded h show ?R
    by (auto simp: decrypt_pem_Inr PrivateKeyHandle_init_ok [OF assms])
next
  assume ?R
  then obtain data key where "pi_content info = Some data" "looks_encrypted data"
      "ed_load_pem c data secret = PemEd25519 key"
      "PrivateKeyHandle_init c key lbl = Inr h"
    by (auto simp: PrivateKeyHandle_init_ok [OF assms])
  then show ?L by (simp add: decrypt_pem_def)
qed

lemma decrypt_pem_Inl:
  "decrypt_pem c info secret = Inl e \<Longrightarrow> e \<in> {KeystoreError CannotDecrypt, KeystoreError NotEncrypted}"
  by (auto simp: decrypt_pem_def split: option.splits pem.splits if_splits)

lemma pem_case_Inl:
  "(case loaded of PemEd25519 key \<Rightarrow> Inr (f key) | _ \<Rightarrow> Inl e') = Inl e \<longleftrightarrow>
     (\<forall>key. loaded \<noteq> PemEd25519 key) \<and> e = e'"
  by (cases loaded) auto

lemma passphrase_bytes_Inl:
  "passphrase_bytes v = Inl e \<longleftrightarrow>
     (\<exists>s. v = VStr s \<and> \<not> is_ok (utf8_encode s) \<and> e = UnicodeEncodeError) \<or>
     \<not> (\<exists>s. v = VStr s) \<and> \<not> (\<exists>b. v = VBytes b) \<and> e = KeystoreError PassphraseType"
  by (cases v) (auto simp: passphrase_bytes_def is_ok_iff dest: utf8_encode_Inl, metis sumE utf8_encode_Inl)

lemma load_encrypted_pem_Inr:
  assumes "ed25519_ok c"
  shows "load_encrypted_pem c fs path passphrase = Inr h \<longleftrightarrow>
    (\<exists>p secret data key. expanduser fs path = Inr p \<and> path_is_private fs p \<and>
       passphrase_bytes passphrase = Inr secret \<and> 12 \<le> length secret \<and>
       pi_content (stat_path fs p) = Some data \<and> looks_encrypted data \<and>
       ed_load_pem c data secret = PemEd25519 key \<and>
       h = \<lparr>handle_key = key, handle_did = \<lparr>did = did_key_text (ed_public c key)\<rparr>,
            handle_label = pi_name (stat_path fs p)\<rparr>)"
proof -
  have "load_encrypted_pem c fs path passphrase = Inr h \<longleftrightarrow>
      (\<exists>p secret. expanduser fs path = Inr p \<and> path_is_private fs p \<and>
        passphrase_bytes passphrase = Inr secret \<and> 12 \<le> length secret \<and>
        rbind (decrypt_pem c (stat_path fs p) secret) (\<lambda>loaded.
          (case loaded of PemEd25519 key \<Rightarrow> PrivateKeyHandle_init c key (pi_name (stat_path fs p))
           | _ \<Rightarrow> Inl (KeystoreError NoEd25519Inside))) = Inr h)"
    unfolding load_encrypted_pem_def Let_def path_is_private_def
      MIN_PASSPHRASE_LEN_def rbind_eq_Inr unless_raise_eq_Inr parent_open_Inr by auto
  then show ?thesis
    unfolding pem_handle_Inr [OF assms] by blast
qed

text \<open>
  C21. A keystore opens exactly when every guard holds: the file is outside the
  repository, a regular file that is no symlink, private to its owner as is its
  directory, the passphrase is a \<open>str\<close> or \<open>bytes\<close> of at least twelve bytes,
  the content looks encrypted and decrypts to an Ed25519 key. The handle then
  carries the identity of that very key.
\<close>

theorem load_encrypted_pem_opens_iff:
  assumes "ed25519_ok c"
  shows "load_encrypted_pem c fs path passphrase = Inr h \<longleftrightarrow>
    (\<exists>p secret data key. expanduser fs path = Inr p \<and> path_is_private fs p \<and>
       passphrase_bytes passphrase = Inr secret \<and> 12 \<le> length secret \<and>
       pi_content (stat_path fs p) = Some data \<and> looks_encrypted data \<and>
       ed_load_pem c data secret = PemEd25519 key \<and>
       h = \<lparr>handle_key = key, handle_did = \<lparr>did = did_key_text (ed_public c key)\<rparr>,
            handle_label = pi_name (stat_path fs p)\<rparr>)"
  by (rule load_encrypted_pem_Inr [OF assms])

text \<open>
  The exceptions that a question about the path raises outside the \<open>try\<close> block: they
  reach the caller as they are.
\<close>

definition path_raises :: "filesystem \<Rightarrow> pystr \<Rightarrow> exn \<Rightarrow> bool" where
  "path_raises fs path e \<longleftrightarrow> expanduser fs path = Inl e \<or>
     (\<exists>p. expanduser fs path = Inr p \<and>
        (let info = stat_path fs p in
         pi_inside_repo info = Inl e \<and> \<not> is_ValueError e \<or> pi_is_symlink info = Inl e \<or>
         pi_exists info = Inl e \<or> pi_is_file info = Inl e \<or> pi_mode info = Inl e \<or>
         pi_parent_exists info = Inl e \<or> pi_parent_exists info = Inr True \<and> pi_parent_mode info = Inl e))"

lemma is_inside_repo_Inl: "is_inside_repo fs p = Inl e \<longleftrightarrow>
    pi_inside_repo (stat_path fs p) = Inl e \<and> \<not> is_ValueError e"
  by (auto simp: is_inside_repo_def split: sum.splits)

lemma parent_open_Inl: "parent_open info = Inl e \<longleftrightarrow>
    pi_parent_exists info = Inl e \<or> pi_parent_exists info = Inr True \<and> pi_parent_mode info = Inl e"
  by (auto simp: parent_open_def rbind_eq_Inl)

text \<open>
  C40. What opening a keystore can raise. Every refusal belongs to the keystore's own
  exceptions. Two kinds of exception escape from outside the \<open>try\<close> block: what
  \<open>expanduser\<close>, \<open>resolve\<close> or a question about the file and its directory raises, and
  \<open>UnicodeEncodeError\<close> for a passphrase that UTF-8 cannot encode, whose message and
  \<open>object\<close> attribute hold the passphrase itself. Reading the file and decrypting it raise
  nothing else.
\<close>

theorem load_encrypted_pem_errors:
  assumes "ed25519_ok c" and "load_encrypted_pem c fs path passphrase = Inl e"
  shows "is_KeystoreError e \<or> path_raises fs path e \<or>
    e = UnicodeEncodeError \<and> (\<exists>s. passphrase = VStr s \<and> (\<exists>ch \<in> set s. \<not> is_scalar ch))"
  using assms(2) utf8_encode_ok_iff
  by (auto simp: load_encrypted_pem_def Let_def rbind_eq_Inl passphrase_bytes_Inl pem_case_Inl
      PrivateKeyHandle_init_ok [OF assms(1)] path_raises_def is_inside_repo_Inl parent_open_Inl
      dest!: decrypt_pem_Inl)

section \<open>A concrete backend\<close>

text \<open>
  An instance of the parameter for the witnesses: one key, whose signature of every
  payload is 64 zero bytes; its key file is the marker itself.
\<close>

definition toy_backend :: "unit ed25519" where
  "toy_backend = \<lparr>ed_public = (\<lambda>_. replicate 32 7), ed_sign = (\<lambda>_ _. replicate 64 0),
     ed_verify = (\<lambda>public raw payload. if raw = replicate 64 0 then Verified else RaisesInvalidSignature),
     ed_load_pem = (\<lambda>data _. if data = ENCRYPTED_MARKER then PemEd25519 () else PemRaises)\<rparr>"

lemma toy_backend_ok: "ed25519_ok toy_backend"
  by (simp add: ed25519_ok_def toy_backend_def)

definition toy_files :: filesystem where
  "toy_files = \<lparr>expanduser = Inr,
     stat_path = (\<lambda>p. \<lparr>pi_inside_repo = Inr False, pi_is_symlink = Inr False, pi_exists = Inr True,
       pi_is_file = Inr True, pi_mode = Inr 0x8180, pi_parent_exists = Inr True, pi_parent_mode = Inr 0x41C0,
       pi_content = Some ENCRYPTED_MARKER, pi_name = p\<rparr>)\<rparr>"

lemma toy_path_private: "path_is_private toy_files p"
  by (simp add: path_is_private_def is_inside_repo_def toy_files_def group_or_world_def)

definition toy_handle :: "pystr \<Rightarrow> unit PrivateKeyHandle" where
  "toy_handle p = \<lparr>handle_key = (), handle_did = \<lparr>did = did_key_text (replicate 32 7)\<rparr>,
     handle_label = p\<rparr>"

theorem load_encrypted_pem_opens_iff_witness:
  "load_encrypted_pem toy_backend toy_files (str_lit ''k'') (VBytes (replicate 12 1)) =
     Inr (toy_handle (str_lit ''k''))"
proof -
  have "looks_encrypted ENCRYPTED_MARKER"
    by (simp add: looks_encrypted_def ENCRYPTED_MARKER_def starts_with_def)
  then show ?thesis
    unfolding load_encrypted_pem_opens_iff [OF toy_backend_ok]
    by (intro exI [where x = "str_lit ''k''"] exI [where x = "replicate 12 1"] exI [where x = ENCRYPTED_MARKER] exI [where x = "()"] conjI
        toy_path_private) (simp_all add: passphrase_bytes_def toy_files_def toy_backend_def toy_handle_def)
qed

lemma lone_surrogate_passphrase:
  "load_encrypted_pem toy_backend toy_files (str_lit ''k'') (VStr [0xD800]) = Inl UnicodeEncodeError"
  by (simp add: load_encrypted_pem_def is_inside_repo_def toy_files_def passphrase_bytes_def
      utf8_encode_def utf8_char_def is_surrogate_def Let_def)

text \<open>A keystore below a directory that the process may not search.\<close>

definition closed_files :: filesystem where
  "closed_files = toy_files\<lparr>stat_path := (\<lambda>p. (stat_path toy_files p)\<lparr>pi_is_symlink := Inl OSError\<rparr>)\<rparr>"

lemma closed_files_raise:
  "load_encrypted_pem toy_backend closed_files (str_lit ''k'') (VStr [0xD800]) = Inl OSError"
  by (simp add: load_encrypted_pem_def is_inside_repo_def closed_files_def toy_files_def Let_def)

theorem load_encrypted_pem_errors_witness:
  "(\<exists>ch \<in> set [0xD800 :: nat]. \<not> is_scalar ch) \<and> path_raises closed_files (str_lit ''k'') OSError"
  using load_encrypted_pem_errors [OF toy_backend_ok lone_surrogate_passphrase]
    load_encrypted_pem_errors [OF toy_backend_ok closed_files_raise]
  by (simp add: path_raises_def toy_files_def)

text \<open>The handle that the concrete keystore gives, for the components above.\<close>

lemma toy_load:
  "load_encrypted_pem toy_backend toy_files (str_lit ''k'') (VBytes (replicate 12 1)) =
     Inr (toy_handle (str_lit ''k''))"
  by (simp add: load_encrypted_pem_def is_inside_repo_def toy_files_def passphrase_bytes_def
      MIN_PASSPHRASE_LEN_def group_or_world_def parent_open_def decrypt_pem_def looks_encrypted_def
      ENCRYPTED_MARKER_def starts_with_def toy_backend_def toy_handle_def Let_def
      PrivateKeyHandle_init_def DidKey_from_public_bytes_VBytes)

end
