(* ===== verification/Signing.thy ===== *)
theory Signing
  imports Keystore Canonical
begin

text \<open>
  The signers of \<open>identity/signer.py\<close> and the verifier of
  \<open>identity/verifier.py\<close>, and the contract between them as a locale.
\<close>

section \<open>The contract of a signature scheme\<close>

text \<open>
  \<open>valid\<close> singles out the signers in a proper state. The law is the only thing a
  client needs: what such a signer signs, the check of its identity accepts.
\<close>

locale signature_scheme =
  fixes valid :: "'signer \<Rightarrow> bool"
    and identity :: "'signer \<Rightarrow> 'id"
    and sign_with :: "'signer \<Rightarrow> 'payload \<Rightarrow> 'e + 'sig"
    and check :: "'id \<Rightarrow> 'sig \<Rightarrow> 'payload \<Rightarrow> 'e + bool"
  assumes sign_check: "valid s \<Longrightarrow> sign_with s p = Inr sig \<Longrightarrow> check (identity s) sig p = Inr True"
begin

text \<open>Rebuilding the payload from the same parts on both sides.\<close>

lemma build_sign_check:
  assumes "valid s" and "rbind built (sign_with s) = Inr sig"
  shows "rbind built (check (identity s) sig) = Inr True"
  using assms sign_check by (auto simp: rbind_eq_Inr)

lemma sign_check_same_payload:
  assumes "valid s" and "sign_with s p = Inr sig" and "built = Inr p"
  shows "rbind built (check (identity s) sig) = Inr True"
  using assms sign_check by simp

end

section \<open>Signers\<close>

datatype did_arg = ADidKey DidKey | AText pystr

definition as_DidKey :: "did_arg \<Rightarrow> exn + DidKey" where
  "as_DidKey d = (case d of ADidKey k \<Rightarrow> Inr k | AText s \<Rightarrow> make_DidKey (VStr s))"

datatype 'key signer = EphemeralSigner "'key PrivateKeyHandle" | NullSigner DidKey

definition EphemeralSigner_init ::
  "'key ed25519 \<Rightarrow> environ \<Rightarrow> 'key \<Rightarrow> 'key PrivateKeyHandle option \<Rightarrow> exn + 'key signer" where
  "EphemeralSigner_init c os_environ fresh handle =
     (case handle of
        Some h \<Rightarrow> Inr (EphemeralSigner h)
      | None \<Rightarrow> rbind (generate_ephemeral c os_environ fresh (str_lit ''ephemeral-test-key''))
                  (\<lambda>h. Inr (EphemeralSigner h)))"

definition NullSigner_init :: "did_arg \<Rightarrow> exn + 'key signer" where
  "NullSigner_init d = rbind (as_DidKey d) (\<lambda>k. Inr (NullSigner k))"

fun signer_did :: "'key signer \<Rightarrow> DidKey" where
  "signer_did (EphemeralSigner h) = handle_did h"
| "signer_did (NullSigner d) = d"

definition ephemeral_sign ::
  "'key ed25519 \<Rightarrow> 'key PrivateKeyHandle \<Rightarrow> pyval \<Rightarrow> exn + pystr" where
  "ephemeral_sign c h payload =
     (if is_untrusted payload then Inl UntrustedInputError
      else case payload of
        VBytes _ \<Rightarrow>
          (case handle_sign c h payload of
             Inl e \<Rightarrow> if is_KeystoreError e then Inl (SignatureError HandleFailed) else Inl e
           | Inr raw \<Rightarrow> encode_signature (VBytes raw))
      | _ \<Rightarrow> Inl (SignatureError SignNotBytes))"

definition null_sign :: "pyval \<Rightarrow> exn + pystr" where
  "null_sign payload = Inl (SignatureError NullSignerRefuses)"

fun signer_sign :: "'key ed25519 \<Rightarrow> 'key signer \<Rightarrow> pyval \<Rightarrow> exn + pystr" where
  "signer_sign c (EphemeralSigner h) payload = ephemeral_sign c h payload"
| "signer_sign c (NullSigner d) payload = null_sign payload"

fun signer_repr :: "'key signer \<Rightarrow> pystr" where
  "signer_repr (EphemeralSigner h) =
     str_lit ''EphemeralSigner(did='' @ DidKey_short (handle_did h) @ str_lit '')''"
| "signer_repr (NullSigner d) = str_lit ''NullSigner(did='' @ DidKey_short d @ str_lit '')''"

section \<open>Verification\<close>

text \<open>An \<open>Ed25519PublicKey\<close> is represented by its raw bytes.\<close>

definition public_key_from_did :: "pyval \<Rightarrow> exn + bytes" where
  "public_key_from_did d = decode_did_key d"

definition verify :: "'key ed25519 \<Rightarrow> pyval \<Rightarrow> pyval \<Rightarrow> pyval \<Rightarrow> exn + bool" where
  "verify c did_text sig payload =
     (case payload of
        VBytes b \<Rightarrow>
          (case rbind (public_key_from_did did_text) (\<lambda>key.
                rbind (decode_signature sig) (\<lambda>raw. Inr (key, raw))) of
             Inl e \<Rightarrow> if is_DidKeyError e \<or> is_SignatureError e then Inr False else Inl e
           | Inr (key, raw) \<Rightarrow>
               (case ed_verify c key raw b of
                  RaisesInvalidSignature \<Rightarrow> Inr False
                | RaisesOther \<Rightarrow> Inr False
                | Verified \<Rightarrow> Inr True))
      | _ \<Rightarrow> Inr False)"

definition verify_message ::
  "'key ed25519 \<Rightarrow> pyval \<Rightarrow> pyval \<Rightarrow> pyval \<Rightarrow> pyval \<Rightarrow> pyval \<Rightarrow> exn + bool" where
  "verify_message c did_text sig room nonce text =
     (case message_payload room nonce text DEFAULT_SWEEP False of
        Inl e \<Rightarrow> if is_ValueError e then Inr False else Inl e
      | Inr payload \<Rightarrow> verify c did_text sig (VBytes payload))"

definition verify_note ::
  "'key ed25519 \<Rightarrow> pyval \<Rightarrow> pyval \<Rightarrow> pyval \<Rightarrow> pyval \<Rightarrow> pyval \<Rightarrow> pyval \<Rightarrow> exn + bool" where
  "verify_note c did_text sig namespace key nonce value =
     (case note_payload namespace key nonce value DEFAULT_SWEEP False of
        Inl e \<Rightarrow> if is_ValueError e then Inr False else Inl e
      | Inr payload \<Rightarrow> verify c did_text sig (VBytes payload))"

section \<open>Signers meet the contract\<close>

fun signer_ok :: "'key ed25519 \<Rightarrow> 'key signer \<Rightarrow> bool" where
  "signer_ok c (EphemeralSigner h) \<longleftrightarrow> handle_ok c h"
| "signer_ok c (NullSigner d) \<longleftrightarrow> True"

lemma signer_sign_Inr:
  "signer_sign c s v = Inr sig \<longleftrightarrow>
     (\<exists>h b. s = EphemeralSigner h \<and> v = VBytes b \<and>
        encode_signature (VBytes (ed_sign c (handle_key h) b)) = Inr sig)"
  by (cases s; cases v) (auto simp: ephemeral_sign_def null_sign_def handle_sign_def)

lemma decode_signature_error: "decode_signature v = Inl e \<Longrightarrow> is_SignatureError e"
  by (auto simp: decode_signature_def split: pyval.splits sum.splits if_splits)

lemma verify_True_iff:
  "verify c d sig (VBytes b) = Inr True \<longleftrightarrow>
     (\<exists>key raw. decode_did_key d = Inr key \<and> decode_signature sig = Inr raw \<and>
        ed_verify c key raw b = Verified)"
  by (cases "decode_did_key d"; cases "decode_signature sig")
    (auto simp: verify_def public_key_from_did_def split: verify_outcome.splits)

lemma signer_sign_verifies:
  assumes "ed25519_ok c" and "signer_ok c s" and "signer_sign c s (VBytes b) = Inr sig"
  shows "verify c (VStr (did (signer_did s))) (VStr sig) (VBytes b) = Inr True"
proof -
  from assms(3) obtain h where s: "s = EphemeralSigner h"
    and sig: "encode_signature (VBytes (ed_sign c (handle_key h) b)) = Inr sig"
    by (auto simp: signer_sign_Inr)
  from signature_text.dec_enc [OF sig]
  have "decode_signature (VStr sig) = Inr (ed_sign c (handle_key h) b)" .
  moreover from assms s have "decode_did_key (VStr (did (signer_did s))) =
      Inr (ed_public c (handle_key h))"
    by (simp add: handle_ok_def did_key_text_decodes ed25519_ok_def)
  ultimately show ?thesis
    using assms(1) by (auto simp: verify_True_iff ed25519_ok_def)
qed

interpretation signing: signature_scheme
  "\<lambda>(c, s). ed25519_ok c \<and> signer_ok c s"
  "\<lambda>(c, s). (c, did (signer_did s))"
  "\<lambda>(c, s) payload. signer_sign c s (VBytes payload)"
  "\<lambda>(c, d) sig payload. verify c (VStr d) (VStr sig) (VBytes payload)"
  by unfold_locales (auto intro: signer_sign_verifies)

lemma ephemeral_sign_total:
  assumes "ed25519_ok c"
  shows "\<exists>sig. signer_sign c (EphemeralSigner h) (VBytes b) = Inr sig \<and> length sig = 86"
proof -
  from assms have "length (ed_sign c (handle_key h) b) = 64" by (simp add: ed25519_ok_def)
  then obtain s where "length s = 86"
    "encode_signature (VBytes (ed_sign c (handle_key h) b)) = Inr (map to_urlsafe s)"
    by (rule encode_signature_shape)
  then show ?thesis by (auto simp: ephemeral_sign_def handle_sign_def)
qed

text \<open>
  What a signer signs. An ephemeral signer answers exactly a \<open>bytes\<close> payload,
  with an 86-character signature that \<open>verify\<close> accepts under its own
  \<open>did:key\<close>; a marked (network-sourced) object or any other type is refused,
  and a \<open>NullSigner\<close> refuses everything.
\<close>

theorem signer_signs_only_bytes:
  assumes "ed25519_ok c" and "signer_ok c s"
  shows "(case s of
      NullSigner d \<Rightarrow> signer_sign c s v = Inl (SignatureError NullSignerRefuses)
    | EphemeralSigner h \<Rightarrow>
        (case v of
           VBytes b \<Rightarrow> (\<exists>sig. signer_sign c s v = Inr sig \<and> length sig = 86 \<and>
             verify c (VStr (did (signer_did s))) (VStr sig) (VBytes b) = Inr True)
         | VUntrusted t \<Rightarrow> signer_sign c s v = Inl UntrustedInputError
         | _ \<Rightarrow> signer_sign c s v = Inl (SignatureError SignNotBytes)))"
proof (cases s)
  case (EphemeralSigner h)
  have "\<exists>sig. signer_sign c s (VBytes b) = Inr sig \<and> length sig = 86 \<and>
      verify c (VStr (did (signer_did s))) (VStr sig) (VBytes b) = Inr True" for b
    using ephemeral_sign_total [OF assms(1), of h b] signer_sign_verifies [OF assms(1,2)]
    unfolding EphemeralSigner by blast
  then show ?thesis
    by (cases v) (simp_all add: EphemeralSigner ephemeral_sign_def)
qed (simp add: null_sign_def)

theorem signer_signs_only_bytes_witness:
  "\<exists>sig. signer_sign toy_backend (EphemeralSigner (toy_handle [107])) (VBytes []) = Inr sig \<and>
     verify toy_backend (VStr (did_key_text (replicate 32 7))) (VStr sig) (VBytes []) = Inr True"
proof -
  have "signer_ok toy_backend (EphemeralSigner (toy_handle [107]))"
    by (simp add: handle_ok_def toy_handle_def toy_backend_def)
  from signer_signs_only_bytes [OF toy_backend_ok this, of "VBytes []"] show ?thesis
    by (auto simp: toy_handle_def)
qed

text \<open>
  What \<open>verify\<close> answers, on every input. It returns \<open>True\<close> exactly when
  the identifier and the signature decode and the backend accepts; it is documented
  never to raise, and does so exactly for an identifier with a non-ASCII character
  after \<open>did:key:z\<close>; in all other cases it returns \<open>False\<close>.
\<close>

theorem verify_answers:
  "(verify c (VStr d) sig payload = Inr True \<longleftrightarrow>
      (\<exists>b key raw. payload = VBytes b \<and> decode_did_key (VStr d) = Inr key \<and>
         decode_signature sig = Inr raw \<and> ed_verify c key raw b = Verified)) \<and>
   (verify c (VStr d) sig payload = Inl e \<longleftrightarrow>
      e = UnicodeEncodeError \<and> (\<exists>b. payload = VBytes b) \<and>
      is_valid_did_key (VStr d) = Inl UnicodeEncodeError)"
proof (cases "\<exists>b. payload = VBytes b")
  case True
  then obtain b where b: "payload = VBytes b" ..
  have "verify c (VStr d) sig (VBytes b) = Inl e \<longleftrightarrow>
      decode_did_key (VStr d) = Inl e \<and> \<not> is_DidKeyError e"
  proof (cases "decode_did_key (VStr d)")
    case (Inl e')
    then show ?thesis
      using decode_did_key_errors [OF Inl] by (auto simp: verify_def public_key_from_did_def)
  next
    case (Inr key)
    then show ?thesis
      using decode_signature_error [of sig]
      by (cases "decode_signature sig")
        (auto simp: verify_def public_key_from_did_def split: verify_outcome.splits)
  qed
  also have "\<dots> \<longleftrightarrow> e = UnicodeEncodeError \<and> is_valid_did_key (VStr d) = Inl UnicodeEncodeError"
    using decode_did_key_errors [of d]
    by (auto simp: is_valid_did_key_def split: sum.splits if_splits)
  finally show ?thesis by (simp add: b verify_True_iff)
next
  case False
  then have "verify c (VStr d) sig payload = Inr False"
    by (cases payload) (simp_all add: verify_def)
  with False show ?thesis by auto
qed

end
