(* ===== verification/Capability.thy ===== *)
theory Capability
  imports Signing
begin

text \<open>
  \<open>identity/capability.py\<close> and \<open>identity/wiring.py\<close>: the signer that
  can express only the two Technocore statements, and the one path from a keystore
  file to it.
\<close>

section \<open>The capability\<close>

record SignedMessage =
  sm_did :: pystr
  sm_room :: pystr
  sm_nonce :: int
  sm_swept_text :: pystr
  sm_signature :: pystr
  sm_payload :: bytes

record SignedNote =
  sn_did :: pystr
  sn_namespace :: pystr
  sn_key :: pystr
  sn_nonce :: int
  sn_swept_value :: pystr
  sn_signature :: pystr
  sn_payload :: bytes

text \<open>The closure \<open>signer.sign\<close> is represented by the signer it is bound to.\<close>

record 'key CapabilitySigner =
  cap_sign :: "'key signer"
  cap_did :: DidKey
  notes_allowed :: bool

definition CapabilitySigner_init :: "'key signer \<Rightarrow> bool \<Rightarrow> 'key CapabilitySigner" where
  "CapabilitySigner_init s allow_notes =
     \<lparr>cap_sign = s, cap_did = signer_did s, notes_allowed = allow_notes\<rparr>"

fun guard_value :: "pyval \<Rightarrow> exn + unit" where
  "guard_value (VUntrusted _) = Inl UntrustedInputError"
| "guard_value (VBytes _) = Inl (CapabilityError RawBytesRefused)"
| "guard_value (VByteArray _) = Inl (CapabilityError RawBytesRefused)"
| "guard_value (VMemoryView _) = Inl (CapabilityError RawBytesRefused)"
| "guard_value (VStr _) = Inr ()"
| "guard_value _ = Inl (CapabilityError ArgumentNotStr)"

fun guard :: "pyval list \<Rightarrow> exn + unit" where
  "guard [] = Inr ()"
| "guard (v # vs) = rbind (guard_value v) (\<lambda>_. guard vs)"

definition sign_technocore_message ::
  "'key ed25519 \<Rightarrow> 'key CapabilitySigner \<Rightarrow> pyval \<Rightarrow> pyval \<Rightarrow> pyval \<Rightarrow> exn + SignedMessage" where
  "sign_technocore_message c cap room nonce text =
     rbind (guard [room, text]) (\<lambda>_.
     rbind (validate_room room) (\<lambda>r.
     rbind (validate_nonce nonce) (\<lambda>n.
     rbind (single_line_sweep text None) (\<lambda>s.
     rbind (require_non_empty s) (\<lambda>swept.
     rbind (unless_raise (length swept \<le> MAX_MESSAGE_CHARS) (CanonicalisationError MessageTooLong)) (\<lambda>_.
     rbind (message_payload (VStr r) (VInt n) (VStr swept) DEFAULT_SWEEP True) (\<lambda>payload.
     rbind (signer_sign c (cap_sign cap) (VBytes payload)) (\<lambda>sig.
       Inr \<lparr>sm_did = did (cap_did cap), sm_room = r, sm_nonce = n, sm_swept_text = swept,
            sm_signature = sig, sm_payload = payload\<rparr>))))))))"

definition sign_technocore_note ::
  "'key ed25519 \<Rightarrow> 'key CapabilitySigner \<Rightarrow> pyval \<Rightarrow> pyval \<Rightarrow> pyval \<Rightarrow> pyval \<Rightarrow> exn + SignedNote" where
  "sign_technocore_note c cap namespace key nonce value =
     rbind (unless_raise (notes_allowed cap) (CapabilityError NotesNotGranted)) (\<lambda>_.
     rbind (guard [namespace, key, value]) (\<lambda>_.
     rbind (validate_name namespace) (\<lambda>ns.
     rbind (validate_name key) (\<lambda>k.
     rbind (validate_nonce nonce) (\<lambda>n.
     rbind (single_line_sweep value None) (\<lambda>s.
     rbind (require_non_empty s) (\<lambda>swept.
     rbind (note_payload (VStr ns) (VStr k) (VInt n) (VStr swept) DEFAULT_SWEEP True) (\<lambda>payload.
     rbind (signer_sign c (cap_sign cap) (VBytes payload)) (\<lambda>sig.
       Inr \<lparr>sn_did = did (cap_did cap), sn_namespace = ns, sn_key = k, sn_nonce = n,
            sn_swept_value = swept, sn_signature = sig, sn_payload = payload\<rparr>)))))))))"

definition capability_repr :: "'key CapabilitySigner \<Rightarrow> pystr" where
  "capability_repr cap =
     str_lit ''CapabilitySigner(did='' @ DidKey_short (cap_did cap) @
     str_lit '', capabilities=['' @ [39] @ str_lit ''message'' @ [39] @
     (if notes_allowed cap then str_lit '', note'' else []) @
     str_lit ''])''"

definition capability_duplicate :: "duplication \<Rightarrow> 'key CapabilitySigner \<Rightarrow> exn + 'key CapabilitySigner" where
  "capability_duplicate how cap = Inl (CapabilityError CapabilityLeak)"

section \<open>The wiring\<close>

definition assert_key_matches_did :: "'key PrivateKeyHandle \<Rightarrow> did_arg \<Rightarrow> exn + DidKey" where
  "assert_key_matches_did h expected =
     rbind (as_DidKey expected) (\<lambda>want.
     let got = handle_did h in
     rbind (public_key_bytes got) (\<lambda>got_bytes.
     rbind (public_key_bytes want) (\<lambda>want_bytes.
       if got_bytes \<noteq> want_bytes then Inl DidMismatchError
       else if did got \<noteq> did want then Inl DidMismatchError
       else Inr got)))"

definition build_capability_signer ::
  "'key ed25519 \<Rightarrow> filesystem \<Rightarrow> pystr \<Rightarrow> pyval \<Rightarrow> did_arg \<Rightarrow> bool \<Rightarrow> bool \<Rightarrow>
     exn + 'key CapabilitySigner" where
  "build_capability_signer c fs path passphrase expected allow_notes reviewed =
     rbind (unless_raise reviewed (KeyNotWiredError ReviewGate)) (\<lambda>_.
     rbind (load_encrypted_pem c fs path passphrase) (\<lambda>h.
     rbind (assert_key_matches_did h expected) (\<lambda>_.
       Inr (CapabilitySigner_init (EphemeralSigner h) allow_notes))))"

definition root_agent_capability_signer ::
  "'key ed25519 \<Rightarrow> filesystem \<Rightarrow> environ \<Rightarrow> pyval \<Rightarrow> bool \<Rightarrow> bool \<Rightarrow> environ option \<Rightarrow>
     exn + 'key CapabilitySigner" where
  "root_agent_capability_signer c fs os_environ passphrase enable allow_notes arg =
     rbind (unless_raise enable (KeyNotWiredError RootDisabled)) (\<lambda>_.
     rbind (unless_raise (passphrase \<noteq> VNone) (KeystoreError PassphraseMissing)) (\<lambda>_.
     rbind (load fs os_environ arg) (\<lambda>settings.
       (case keystore_path settings of
          None \<Rightarrow> Inl (ConfigError KeystoreUnset)
        | Some path \<Rightarrow>
            build_capability_signer c fs path passphrase (ADidKey (root_agent_did settings))
              allow_notes True))))"

section \<open>What a capability signs\<close>

lemma guard_Inr [simp]: "guard vs = Inr u \<longleftrightarrow> (\<forall>v \<in> set vs. \<exists>s. v = VStr s)"
proof -
  have one: "guard_value v = Inr u \<longleftrightarrow> (\<exists>s. v = VStr s)" for v u
    by (cases v) simp_all
  show ?thesis by (induction vs) (auto simp: rbind_eq_Inr one)
qed

lemma DEFAULT_SWEEP_idem [simp]:
  "sweep_text DEFAULT_SWEEP (sweep_text DEFAULT_SWEEP t) = sweep_text DEFAULT_SWEEP t"
  by (simp add: sweep_fixpoint_iff)

lemma final_text_swept [simp]:
  "final_text DEFAULT_SWEEP True (sweep_text DEFAULT_SWEEP t) = final_text DEFAULT_SWEEP False t"
  by (simp add: final_text_def)

text \<open>
  The capability rebuilds the very payload that \<open>message_payload\<close> builds from
  the unswept text: sweeping first and passing the result on makes no difference.
\<close>

lemma message_payload_swept:
  "message_payload (VStr r) (VInt n) (VStr (sweep_text DEFAULT_SWEEP t)) DEFAULT_SWEEP True =
     Inr p \<longleftrightarrow> message_payload (VStr r) (VInt n) (VStr t) DEFAULT_SWEEP False = Inr p"
  by (simp add: message_payload_Inr)

lemma message_payload_resweep:
  "message_payload room nonce (VStr (sweep_text DEFAULT_SWEEP t)) DEFAULT_SWEEP False = Inr p \<longleftrightarrow>
   message_payload room nonce (VStr t) DEFAULT_SWEEP False = Inr p"
  by (simp add: message_payload_Inr final_text_def)

lemma note_payload_swept:
  "note_payload (VStr ns) (VStr k) (VInt n) (VStr (sweep_text DEFAULT_SWEEP t)) DEFAULT_SWEEP True =
     Inr p \<longleftrightarrow> note_payload (VStr ns) (VStr k) (VInt n) (VStr t) DEFAULT_SWEEP False = Inr p"
  by (simp add: note_payload_Inr)

definition message_of :: "'key CapabilitySigner \<Rightarrow> pystr \<Rightarrow> int \<Rightarrow> pystr \<Rightarrow> pystr \<Rightarrow> bytes \<Rightarrow> SignedMessage" where
  "message_of cap r n t sig p =
     \<lparr>sm_did = did (cap_did cap), sm_room = r, sm_nonce = n,
      sm_swept_text = sweep_text DEFAULT_SWEEP t, sm_signature = sig, sm_payload = p\<rparr>"

lemma sign_technocore_message_Inr:
  "sign_technocore_message c cap room nonce text = Inr m \<longleftrightarrow>
     (\<exists>r n t p sig. room = VStr r \<and> nonce = VInt n \<and> text = VStr t \<and>
        message_payload room nonce text DEFAULT_SWEEP False = Inr p \<and>
        signer_sign c (cap_sign cap) (VBytes p) = Inr sig \<and> m = message_of cap r n t sig p)"
    (is "?L = ?R")
proof
  assume ?L
  then show ?R
    by (auto simp: sign_technocore_message_def rbind_eq_Inr validator_simps single_line_sweep_Inr
        message_payload_swept message_of_def)
next
  assume ?R
  then obtain r n t p sig where v: "room = VStr r" "nonce = VInt n" "text = VStr t"
    and p: "message_payload (VStr r) (VInt n) (VStr t) DEFAULT_SWEEP False = Inr p"
    and sig: "signer_sign c (cap_sign cap) (VBytes p) = Inr sig" and m: "m = message_of cap r n t sig p"
    by auto
  from p have "valid_room r" "valid_nonce n" "sweep_text DEFAULT_SWEEP t \<noteq> []"
    "length (sweep_text DEFAULT_SWEEP t) \<le> MAX_MESSAGE_CHARS"
    by (auto simp: message_payload_Inr final_text_def)
  with p sig show ?L
    by (auto simp: v m sign_technocore_message_def rbind_eq_Inr validator_simps message_payload_swept
        message_of_def)
qed

lemma sign_technocore_note_Inr:
  "sign_technocore_note c cap namespace key nonce value = Inr m \<longleftrightarrow>
     notes_allowed cap \<and>
     (\<exists>ns k n t p sig. namespace = VStr ns \<and> key = VStr k \<and> nonce = VInt n \<and> value = VStr t \<and>
        note_payload namespace key nonce value DEFAULT_SWEEP False = Inr p \<and>
        signer_sign c (cap_sign cap) (VBytes p) = Inr sig \<and>
        m = \<lparr>sn_did = did (cap_did cap), sn_namespace = ns, sn_key = k, sn_nonce = n,
             sn_swept_value = sweep_text DEFAULT_SWEEP t, sn_signature = sig, sn_payload = p\<rparr>)"
    (is "?L = ?R")
proof
  assume ?L
  then show ?R
    by (auto simp: sign_technocore_note_def rbind_eq_Inr validator_simps single_line_sweep_Inr
        note_payload_swept)
next
  assume ?R
  then obtain ns k n t p sig where v: "namespace = VStr ns" "key = VStr k" "nonce = VInt n" "value = VStr t"
    and p: "note_payload (VStr ns) (VStr k) (VInt n) (VStr t) DEFAULT_SWEEP False = Inr p"
    and sig: "signer_sign c (cap_sign cap) (VBytes p) = Inr sig" and "notes_allowed cap"
    and m: "m = \<lparr>sn_did = did (cap_did cap), sn_namespace = ns, sn_key = k, sn_nonce = n,
             sn_swept_value = sweep_text DEFAULT_SWEEP t, sn_signature = sig, sn_payload = p\<rparr>"
    by auto
  moreover from p have "NAME_RE_match ns" "NAME_RE_match k" "valid_nonce n"
      "sweep_text DEFAULT_SWEEP t \<noteq> []"
    by (auto simp: note_payload_Inr final_text_def)
  ultimately show ?L
    by (auto simp: sign_technocore_note_def rbind_eq_Inr validator_simps note_payload_swept)
qed

section \<open>What the wiring builds\<close>

text \<open>The capabilities that the wiring can return.\<close>

definition capability_ok :: "'key ed25519 \<Rightarrow> 'key CapabilitySigner \<Rightarrow> bool" where
  "capability_ok c cap \<longleftrightarrow> ed25519_ok c \<and> signer_ok c (cap_sign cap) \<and>
     cap_did cap = signer_did (cap_sign cap)"

lemma load_handle_ok:
  "ed25519_ok c \<Longrightarrow> load_encrypted_pem c fs path pw = Inr h \<Longrightarrow> handle_ok c h"
  by (auto simp: load_encrypted_pem_Inr handle_ok_def)

lemma as_DidKey_valid:
  "as_DidKey (AText s) = Inr d \<Longrightarrow> did d = s \<and> (\<exists>key. decode_did_key (VStr s) = Inr key)"
  by (auto simp: as_DidKey_def make_DidKey_VStr_Inr)

text \<open>
  The identity check: equal bytes give equal texts because the encoding is
  canonical, so the second refusal of the source is never reached.
\<close>

lemma assert_key_matches_did_Inr:
  assumes "ed25519_ok c" and "handle_ok c h"
  shows "assert_key_matches_did h expected = Inr d \<longleftrightarrow>
    d = handle_did h \<and> (\<exists>want. as_DidKey expected = Inr want \<and> did want = did (handle_did h))"
proof -
  note got = handle_ok_public_key [OF assms]
  have "public_key_bytes want = Inr (ed_public c (handle_key h)) \<longleftrightarrow> did want = did (handle_did h)" for want
    using got did_key.dec_inject [of "did want" _ "did (handle_did h)"] by (auto simp: public_key_bytes_def)
  then show ?thesis
    by (auto simp: assert_key_matches_did_def Let_def rbind_eq_Inr got split: if_splits)
qed

lemma assert_key_matches_did_Inl:
  assumes "ed25519_ok c" and "handle_ok c h" and "as_DidKey expected = Inr want"
    and "public_key_bytes want = Inr key"
  shows "assert_key_matches_did h expected = Inl e \<longleftrightarrow>
    e = DidMismatchError \<and> key \<noteq> ed_public c (handle_key h)"
proof -
  note got = handle_ok_public_key [OF assms(1,2)]
  have "key = ed_public c (handle_key h) \<Longrightarrow> did (handle_did h) = did want"
    using got assms(4) did_key.dec_inject by (auto simp: public_key_bytes_def)
  then show ?thesis
    by (auto simp: assert_key_matches_did_def Let_def got assms(3,4))
qed

lemma build_capability_signer_Inr:
  assumes "ed25519_ok c"
  shows "build_capability_signer c fs path pw expected notes reviewed = Inr cap \<longleftrightarrow>
    reviewed \<and>
    (\<exists>h want. load_encrypted_pem c fs path pw = Inr h \<and> as_DidKey expected = Inr want \<and>
       did want = did (handle_did h) \<and> cap = CapabilitySigner_init (EphemeralSigner h) notes)"
  using assert_key_matches_did_Inr [OF assms load_handle_ok [OF assms]]
  by (auto simp: build_capability_signer_def rbind_eq_Inr)

lemma build_capability_ok:
  assumes "ed25519_ok c"
    and "build_capability_signer c fs path pw expected notes reviewed = Inr cap"
  shows "capability_ok c cap"
  using assms load_handle_ok [OF assms(1)]
  by (auto simp: build_capability_signer_Inr capability_ok_def CapabilitySigner_init_def)

text \<open>The client of the signature contract: both verbs, verified by rebuilding.\<close>

lemma capability_signature_verifies:
  assumes "capability_ok c cap" and "signer_sign c (cap_sign cap) (VBytes p) = Inr sig"
  shows "verify c (VStr (did (cap_did cap))) (VStr sig) (VBytes p) = Inr True"
  using signing.sign_check [of "(c, cap_sign cap)" p sig] assms by (simp add: capability_ok_def)

lemma verify_message_rebuilt:
  assumes "message_payload room nonce text DEFAULT_SWEEP False = Inr p"
  shows "verify_message c d sig room nonce text = verify c d sig (VBytes p)"
  using assms by (simp add: verify_message_def)

lemma verify_note_rebuilt:
  assumes "note_payload ns key nonce value DEFAULT_SWEEP False = Inr p"
  shows "verify_note c d sig ns key nonce value = verify c d sig (VBytes p)"
  using assms by (simp add: verify_note_def)

section \<open>Properties\<close>

text \<open>
  C15. A capability signs a message exactly when \<open>message_payload\<close> builds one from
  the same arguments and the wrapped signer signs; the signed bytes are that
  payload, so no argument brings other bytes to the key.
\<close>

theorem capability_signs_exactly_message_payloads:
  "sign_technocore_message c cap room nonce text = Inr m \<longleftrightarrow>
     (\<exists>r n t p sig. room = VStr r \<and> nonce = VInt n \<and> text = VStr t \<and>
        message_payload room nonce text DEFAULT_SWEEP False = Inr p \<and>
        signer_sign c (cap_sign cap) (VBytes p) = Inr sig \<and>
        m = \<lparr>sm_did = did (cap_did cap), sm_room = r, sm_nonce = n,
             sm_swept_text = sweep_text DEFAULT_SWEEP t, sm_signature = sig, sm_payload = p\<rparr>)"
  unfolding sign_technocore_message_Inr message_of_def ..

text \<open>
  C6. End to end: what the capability built from a keystore signs, \<open>verify_message\<close>
  accepts under the expected identity, from the arguments of the caller as well as
  from the fields of the signed message.
\<close>

theorem signed_message_verifies:
  assumes "ed25519_ok c"
    and "build_capability_signer c fs path pw (AText expected) notes reviewed = Inr cap"
    and "sign_technocore_message c cap room nonce text = Inr m"
  shows "sm_did m = expected \<and>
    verify_message c (VStr expected) (VStr (sm_signature m)) room nonce text = Inr True \<and>
    verify_message c (VStr expected) (VStr (sm_signature m))
      (VStr (sm_room m)) (VInt (sm_nonce m)) (VStr (sm_swept_text m)) = Inr True"
proof -
  from assms(3) obtain r n t p sig where v: "room = VStr r" "nonce = VInt n" "text = VStr t"
    and p: "message_payload (VStr r) (VInt n) (VStr t) DEFAULT_SWEEP False = Inr p"
    and sig: "signer_sign c (cap_sign cap) (VBytes p) = Inr sig" and m: "m = message_of cap r n t sig p"
    by (auto simp: sign_technocore_message_Inr)
  have did: "did (cap_did cap) = expected"
    using assms(2) as_DidKey_valid [of expected]
    by (auto simp: build_capability_signer_Inr [OF assms(1)] CapabilitySigner_init_def)
  have "verify c (VStr expected) (VStr sig) (VBytes p) = Inr True"
    using capability_signature_verifies [OF build_capability_ok [OF assms(1,2)] sig] did by simp
  moreover have "message_payload (VStr r) (VInt n) (VStr (sweep_text DEFAULT_SWEEP t)) DEFAULT_SWEEP False = Inr p"
    using p by (simp add: message_payload_resweep)
  ultimately show ?thesis
    using p by (simp add: v m message_of_def did verify_message_rebuilt)
qed

text \<open>A concrete capability, built from the concrete keystore.\<close>

definition toy_did :: pystr where "toy_did = did_key_text (replicate 32 7)"

definition toy_capability :: "bool \<Rightarrow> unit CapabilitySigner" where
  "toy_capability notes = CapabilitySigner_init (EphemeralSigner (toy_handle (str_lit ''k''))) notes"

lemma toy_did_decodes: "decode_did_key (VStr toy_did) = Inr (replicate 32 7)"
  by (simp add: toy_did_def did_key_text_decodes)

lemma toy_build:
  "build_capability_signer toy_backend toy_files (str_lit ''k'') (VBytes (replicate 12 1))
     (AText toy_did) notes True = Inr (toy_capability notes)"
proof -
  have "as_DidKey (AText toy_did) = Inr \<lparr>did = toy_did\<rparr>"
    by (simp add: as_DidKey_def make_DidKey_VStr_Inr toy_did_decodes)
  then show ?thesis
    unfolding build_capability_signer_Inr [OF toy_backend_ok]
    by (intro conjI exI [where x = "toy_handle (str_lit ''k'')"] exI [where x = "\<lparr>did = toy_did\<rparr>"] toy_load)
      (simp_all add: toy_handle_def toy_did_def toy_capability_def)
qed

lemma toy_message:
  "message_payload (VStr (str_lit ''room'')) (VInt 5) (VStr (str_lit ''7|v'')) DEFAULT_SWEEP False =
     Inr (map word_of_nat (str_lit ''room|5|7|v''))"
  by (rule message_payloadI [where s = "str_lit ''7|v''"]) (simp_all add: eval_canonical)

lemma toy_signs:
  "\<exists>m. sign_technocore_message toy_backend (toy_capability notes) (VStr (str_lit ''room'')) (VInt 5)
     (VStr (str_lit ''7|v'')) = Inr m"
  using ephemeral_sign_total [OF toy_backend_ok] toy_message
  unfolding sign_technocore_message_Inr toy_capability_def CapabilitySigner_init_def
  by (metis CapabilitySigner.select_convs(1))

theorem signed_message_verifies_witness:
  "\<exists>m. sign_technocore_message toy_backend (toy_capability False) (VStr (str_lit ''room'')) (VInt 5)
       (VStr (str_lit ''7|v'')) = Inr m \<and>
     verify_message toy_backend (VStr toy_did) (VStr (sm_signature m)) (VStr (str_lit ''room'')) (VInt 5)
       (VStr (str_lit ''7|v'')) = Inr True"
proof -
  obtain m where m: "sign_technocore_message toy_backend (toy_capability False)
      (VStr (str_lit ''room'')) (VInt 5) (VStr (str_lit ''7|v'')) = Inr m"
    using toy_signs by blast
  from signed_message_verifies [OF toy_backend_ok toy_build m] m show ?thesis by blast
qed

text \<open>
  A capability without the note verb still yields note signatures. Its holder
  signs the message whose room is the namespace, whose nonce spells the key and
  whose text is \<open>nonce|value\<close>; \<open>verify_note\<close> accepts that signature for
  the note, although \<open>sign_technocore_note\<close> refuses.
\<close>

theorem message_capability_signs_a_note:
  assumes "capability_ok c cap" and "\<not> notes_allowed cap"
    and "note_payload (VStr ns) (VStr (dec (nat n))) (VInt k) (VStr v) DEFAULT_SWEEP False = Inr p"
    and "sign_technocore_message c cap (VStr ns) (VInt n)
        (VStr (dec (nat k) @ 124 # sweep_text DEFAULT_SWEEP v)) = Inr m"
  shows "verify_note c (VStr (sm_did m)) (VStr (sm_signature m)) (VStr ns) (VStr (dec (nat n)))
      (VInt k) (VStr v) = Inr True \<and>
    sign_technocore_note c cap (VStr ns) (VStr (dec (nat n))) (VInt k) (VStr v) =
      Inl (CapabilityError NotesNotGranted)"
proof -
  from assms(4) obtain p' sig where
    p': "message_payload (VStr ns) (VInt n) (VStr (dec (nat k) @ 124 # sweep_text DEFAULT_SWEEP v))
        DEFAULT_SWEEP False = Inr p'"
    and sig: "signer_sign c (cap_sign cap) (VBytes p') = Inr sig"
    and m: "sm_did m = did (cap_did cap)" "sm_signature m = sig"
    by (auto simp: sign_technocore_message_Inr message_of_def)
  have "p' = p"
    using p' assms(3) clean_text_dec_bar [of "sweep_text DEFAULT_SWEEP v" "nat k"]
    by (auto simp: message_payload_Inr note_payload_Inr final_text_def note_text_def
        message_text_def simp flip: sweep_fixpoint_iff)
  with capability_signature_verifies [OF assms(1) sig] show ?thesis
    using assms(2) by (simp add: m verify_note_rebuilt [OF assms(3)] sign_technocore_note_def)
qed

theorem message_capability_signs_a_note_witness:
  "\<exists>m. sign_technocore_message toy_backend (toy_capability False) (VStr (str_lit ''room'')) (VInt 5)
       (VStr (dec (nat 7) @ 124 # sweep_text DEFAULT_SWEEP (str_lit ''v''))) = Inr m \<and>
     verify_note toy_backend (VStr (sm_did m)) (VStr (sm_signature m)) (VStr (str_lit ''room''))
       (VStr (dec (nat 5))) (VInt 7) (VStr (str_lit ''v'')) = Inr True"
proof -
  have "dec (nat 7) @ 124 # sweep_text DEFAULT_SWEEP (str_lit ''v'') = str_lit ''7|v''"
    by (simp add: eval_canonical)
  then obtain m where m: "sign_technocore_message toy_backend (toy_capability False)
      (VStr (str_lit ''room'')) (VInt 5) (VStr (dec (nat 7) @ 124 # sweep_text DEFAULT_SWEEP (str_lit ''v''))) = Inr m"
    using toy_signs by metis
  have "capability_ok toy_backend (toy_capability False)"
    by (rule build_capability_ok [OF toy_backend_ok toy_build])
  moreover have "\<not> notes_allowed (toy_capability False)"
    by (simp add: toy_capability_def CapabilitySigner_init_def)
  ultimately show ?thesis
    using message_capability_signs_a_note [OF _ _ overlap_example m] m by blast
qed

text \<open>
  C12. The wiring binds the signer to the expected identity. It succeeds exactly for
  a reviewed call whose keystore opens on the key that the expected
  \<open>did:key\<close> encodes, and then wraps that very key; a keystore with any other
  key raises \<open>DidMismatchError\<close> before a signer exists.
\<close>

theorem wiring_binds_the_identity:
  assumes "ed25519_ok c"
  shows "(build_capability_signer c fs path pw (AText expected) notes reviewed = Inr cap \<longleftrightarrow>
      reviewed \<and> (\<exists>h. load_encrypted_pem c fs path pw = Inr h \<and>
        expected = did_key_text (ed_public c (handle_key h)) \<and>
        cap = \<lparr>cap_sign = EphemeralSigner h, cap_did = \<lparr>did = expected\<rparr>, notes_allowed = notes\<rparr>)) \<and>
    (reviewed \<and> load_encrypted_pem c fs path pw = Inr h \<and>
      decode_did_key (VStr expected) = Inr key \<and> key \<noteq> ed_public c (handle_key h) \<longrightarrow>
      build_capability_signer c fs path pw (AText expected) notes reviewed = Inl DidMismatchError)"
    (is "?iff \<and> ?mismatch")
proof
  have valid: "as_DidKey (AText (did_key_text (ed_public c k))) = Inr \<lparr>did = did_key_text (ed_public c k)\<rparr>" for k
    using assms by (auto simp: as_DidKey_def make_DidKey_VStr_Inr ed25519_ok_def did_key_text_decodes)
  have derived: "handle_did h' = \<lparr>did = did_key_text (ed_public c (handle_key h'))\<rparr>"
    if "load_encrypted_pem c fs path pw = Inr h'" for h'
    using load_handle_ok [OF assms that] by (simp add: handle_ok_def)
  have expect: "(\<exists>want. as_DidKey (AText expected) = Inr want \<and>
      did want = did_key_text (ed_public c k)) \<longleftrightarrow> expected = did_key_text (ed_public c k)" for k
    using as_DidKey_valid [of expected] valid [of k] by fastforce
  show ?iff
    unfolding build_capability_signer_Inr [OF assms] CapabilitySigner_init_def
    using derived expect by fastforce
  show ?mismatch
  proof
    assume m: "reviewed \<and> load_encrypted_pem c fs path pw = Inr h \<and>
      decode_did_key (VStr expected) = Inr key \<and> key \<noteq> ed_public c (handle_key h)"
    then have "as_DidKey (AText expected) = Inr \<lparr>did = expected\<rparr>"
      and "public_key_bytes \<lparr>did = expected\<rparr> = Inr key"
      by (auto simp: as_DidKey_def make_DidKey_VStr_Inr public_key_bytes_def)
    from assert_key_matches_did_Inl [OF assms load_handle_ok [OF assms] this] m
    show "build_capability_signer c fs path pw (AText expected) notes reviewed = Inl DidMismatchError"
      by (auto simp: build_capability_signer_def rbind_eq_Inl)
  qed
qed

theorem wiring_binds_the_identity_witness:
  "build_capability_signer toy_backend toy_files (str_lit ''k'') (VBytes (replicate 12 1))
     (AText ROOT_AGENT_DID) False True = Inl DidMismatchError"
proof -
  have "ROOT_KEY \<noteq> ed_public toy_backend (handle_key (toy_handle (str_lit ''k'')))"
  proof
    assume "ROOT_KEY = ed_public toy_backend (handle_key (toy_handle (str_lit ''k'')))"
    then have "hd ROOT_KEY = hd (replicate 32 7)" by (simp add: toy_backend_def)
    then show False by (simp add: ROOT_KEY_def)
  qed
  with wiring_binds_the_identity [OF toy_backend_ok, THEN conjunct2] toy_load ROOT_AGENT_decodes
  show ?thesis by blast
qed

text \<open>
  C14. The root agent's signer is fail-closed. It opens exactly when the caller enables
  it and passes a passphrase, the settings load and name a keystore, and the wiring
  accepts that keystore for the configured identity; with the switch off the answer is
  the refusal whatever the passphrase and the environment are.
\<close>

theorem root_signer_is_fail_closed:
  assumes "ed25519_ok c"
  shows "(root_agent_capability_signer c fs os_environ pw enable notes arg = Inr cap \<longleftrightarrow>
      enable \<and> pw \<noteq> VNone \<and>
      (\<exists>settings path h. load fs os_environ arg = Inr settings \<and> keystore_path settings = Some path \<and>
         load_encrypted_pem c fs path pw = Inr h \<and>
         did (root_agent_did settings) = did_key_text (ed_public c (handle_key h)) \<and>
         cap = CapabilitySigner_init (EphemeralSigner h) notes)) \<and>
    root_agent_capability_signer c fs os_environ pw False notes arg =
      Inl (KeyNotWiredError RootDisabled)"
proof
  have build: "build_capability_signer c fs path pw (ADidKey d) notes True = Inr cap \<longleftrightarrow>
      (\<exists>h. load_encrypted_pem c fs path pw = Inr h \<and>
        did d = did_key_text (ed_public c (handle_key h)) \<and>
        cap = CapabilitySigner_init (EphemeralSigner h) notes)" for path d
    using load_handle_ok [OF assms, of fs path pw]
    by (auto simp: build_capability_signer_Inr [OF assms] as_DidKey_def handle_ok_def)
  show "root_agent_capability_signer c fs os_environ pw enable notes arg = Inr cap \<longleftrightarrow>
      enable \<and> pw \<noteq> VNone \<and>
      (\<exists>settings path h. load fs os_environ arg = Inr settings \<and> keystore_path settings = Some path \<and>
         load_encrypted_pem c fs path pw = Inr h \<and>
         did (root_agent_did settings) = did_key_text (ed_public c (handle_key h)) \<and>
         cap = CapabilitySigner_init (EphemeralSigner h) notes)"
    by (auto simp: root_agent_capability_signer_def rbind_eq_Inr build split: option.splits)
  show "root_agent_capability_signer c fs os_environ pw False notes arg =
      Inl (KeyNotWiredError RootDisabled)"
    by (simp add: root_agent_capability_signer_def)
qed

definition toy_environ :: environ where
  "toy_environ = [(ENV_OVERRIDE, toy_did), (str_lit ''FLOPOFFICE_KEYSTORE'', str_lit ''k'')]"

lemma b58encode_not_space: "c \<in> set (b58encode data) \<Longrightarrow> \<not> isspace c"
proof -
  have "\<forall>c \<in> set B58_ALPHABET. \<not> isspace c" by (simp add: B58_ALPHABET_def isspace_def)
  moreover assume "c \<in> set (b58encode data)"
  then have "c \<in> set B58_ALPHABET" using nth_mem [of 0 B58_ALPHABET]
    by (auto simp: b58encode_digits dest!: be_digits_lt)
  ultimately show ?thesis by blast
qed

lemma toy_did_stripped: "stripped toy_did"
proof -
  have "\<forall>c \<in> set toy_did. \<not> isspace c"
    using b58encode_not_space
    by (auto simp: toy_did_def did_key_text_def DID_PREFIX_def MULTIBASE_BASE58BTC_def isspace_def)
  then show ?thesis using hd_in_set last_in_set by (auto simp: stripped_def)
qed

lemma toy_load_settings:
  "\<exists>settings. load toy_files [] (Some toy_environ) = Inr settings \<and>
     keystore_path settings = Some (str_lit ''k'') \<and> did (root_agent_did settings) = toy_did"
proof -
  have "did_key_text (replicate 32 7) \<noteq> []" and "stripped toy_did"
    using toy_did_stripped by (simp_all add: did_key_text_def DID_PREFIX_def)
  then have "override_of toy_environ = toy_did"
    by (simp add: override_of_def env_or_def toy_environ_def strip_stripped)
  then have "choose_did toy_environ = Inr (\<lparr>did = toy_did\<rparr>, FromEnvironment)"
    using toy_did_decodes by (auto simp: choose_did_Inr make_DidKey_VStr_Inr toy_did_def did_key_text_def DID_PREFIX_def)
  moreover have "choose_keystore toy_files toy_environ = Inr (Some (str_lit ''k''))"
    by (simp add: choose_keystore_def env_or_def toy_environ_def ENV_OVERRIDE_def is_inside_repo_def toy_files_def)
  ultimately show ?thesis
    by (simp add: load_steps secrets_present_def env_map_of_def settings_of_def Let_def del: str_lit_Cons)
qed

theorem root_signer_is_fail_closed_witness:
  "root_agent_capability_signer toy_backend toy_files [] (VBytes (replicate 12 1)) True False
     (Some toy_environ) = Inr (toy_capability False)"
proof -
  from toy_load_settings obtain settings where "load toy_files [] (Some toy_environ) = Inr settings"
    "keystore_path settings = Some (str_lit ''k'')" "did (root_agent_did settings) = toy_did" by blast
  then show ?thesis
    unfolding root_signer_is_fail_closed [OF toy_backend_ok, THEN conjunct1]
    by (intro conjI exI [where x = settings] exI [where x = "str_lit ''k''"]
        exI [where x = "toy_handle (str_lit ''k'')"] toy_load)
      (simp_all add: toy_did_def toy_backend_def toy_capability_def)
qed

end
