(* ===== verification/PyDyn.thy ===== *)
theory PyDyn
  imports Json
begin

text \<open>
  JSON values as the Python objects that \<open>json.loads\<close> makes of them, as far as the
  client handles them without knowing their type: truth value, \<open>str()\<close>,
  \<open>int()\<close>, \<open>str.isdigit\<close> and \<open>dict.get\<close>. The text of a list or a dict and the
  truncation of a float are fields of a record, since floats are abstract in
  \<open>Json\<close>.
\<close>

record runtime =
  container_str :: "json \<Rightarrow> pystr"
  float_int :: "json \<Rightarrow> exn + int"

section \<open>Decimal digits\<close>

text \<open>The zero of every run of ten characters of category Nd, in Unicode 15.0.\<close>

definition nd_zeros :: "nat list" where
  "nd_zeros =
     [0x30, 0x660, 0x6F0, 0x7C0, 0x966, 0x9E6, 0xA66, 0xAE6, 0xB66, 0xBE6, 0xC66, 0xCE6, 0xD66,
      0xDE6, 0xE50, 0xED0, 0xF20, 0x1040, 0x1090, 0x17E0, 0x1810, 0x1946, 0x19D0, 0x1A80, 0x1A90,
      0x1B50, 0x1BB0, 0x1C40, 0x1C50, 0xA620, 0xA8D0, 0xA900, 0xA9D0, 0xA9F0, 0xAA50, 0xABF0,
      0xFF10, 0x104A0, 0x10D30, 0x11066, 0x110F0, 0x11136, 0x111D0, 0x112F0, 0x11450, 0x114D0,
      0x11650, 0x116C0, 0x11730, 0x118E0, 0x11950, 0x11C50, 0x11D50, 0x11DA0, 0x11F50, 0x16A60,
      0x16AC0, 0x16B50, 0x1D7CE, 0x1D7D8, 0x1D7E2, 0x1D7EC, 0x1D7F6, 0x1E140, 0x1E2F0, 0x1E4F0,
      0x1E950, 0x1FBF0]"

text \<open>The characters that are digits for \<open>str.isdigit\<close> but not for \<open>int()\<close>: superscripts and the like.\<close>

definition other_digits :: "(nat \<times> nat) list" where
  "other_digits =
     [(0xB2, 0xB3), (0xB9, 0xB9), (0x1369, 0x1371), (0x19DA, 0x19DA), (0x2070, 0x2070),
      (0x2074, 0x2079), (0x2080, 0x2089), (0x2460, 0x2468), (0x2474, 0x247C), (0x2488, 0x2490),
      (0x24EA, 0x24EA), (0x24F5, 0x24FD), (0x24FF, 0x24FF), (0x2776, 0x277E), (0x2780, 0x2788),
      (0x278A, 0x2792), (0x10A40, 0x10A43), (0x10E60, 0x10E68), (0x11052, 0x1105A),
      (0x1F100, 0x1F10A)]"

definition digit_value :: "nat \<Rightarrow> nat option" where
  "digit_value c = map_option (\<lambda>z. c - z) (List.find (\<lambda>z. z \<le> c \<and> c \<le> z + 9) nd_zeros)"

definition isdigit :: "pystr \<Rightarrow> bool" where
  "isdigit s \<longleftrightarrow> s \<noteq> [] \<and> list_all (\<lambda>c. digit_value c \<noteq> None \<or> in_ranges other_digits c) s"

text \<open>
  \<open>int(text)\<close>: white space around, a sign, decimal digits of any script with single
  underscores between them, at most 4300 of them.
\<close>

fun int_digits :: "bool \<Rightarrow> pystr \<Rightarrow> nat list option" where
  "int_digits after_digit [] = (if after_digit then Some [] else None)"
| "int_digits after_digit (c # cs) =
     (if c = 95 then (if after_digit then int_digits False cs else None)
      else case digit_value c of
        None \<Rightarrow> None
      | Some d \<Rightarrow> map_option (\<lambda>ds. d # ds) (int_digits True cs))"

definition int_of_str :: "pystr \<Rightarrow> exn + int" where
  "int_of_str s =
     (let t = strip s;
          negative = (t \<noteq> [] \<and> hd t = 45);
          body = (if t \<noteq> [] \<and> (hd t = 43 \<or> hd t = 45) then tl t else t)
      in case int_digits False body of
           None \<Rightarrow> Inl ValueError
         | Some ds \<Rightarrow>
             if length ds > MAX_STR_DIGITS then Inl ValueError
             else let n = int (foldl (\<lambda>a d. 10 * a + d) 0 ds)
                  in Inr (if negative then - n else n))"

section \<open>Objects\<close>

fun truthy :: "json \<Rightarrow> bool" where
  "truthy JNull = False"
| "truthy (JBool b) = b"
| "truthy (JInt i) = (i \<noteq> 0)"
| "truthy (JFloat t) = (t \<noteq> str_lit ''0.0'' \<and> t \<noteq> str_lit ''-0.0'')"
| "truthy JNonFinite = True"
| "truthy (JStr s) = (s \<noteq> [])"
| "truthy (JArr xs) = (xs \<noteq> [])"
| "truthy (JObj ms) = (ms \<noteq> [])"
| "truthy JOther = True"

definition str_signed :: "int \<Rightarrow> pystr" where
  "str_signed i = (if i < 0 then 45 # dec (nat (- i)) else dec (nat i))"

text \<open>\<open>str(value)\<close>; integers that came out of the JSON parser have at most 4300 digits.\<close>

fun str_of :: "runtime \<Rightarrow> json \<Rightarrow> pystr" where
  "str_of rt JNull = str_lit ''None''"
| "str_of rt (JBool b) = (if b then str_lit ''True'' else str_lit ''False'')"
| "str_of rt (JInt i) = str_signed i"
| "str_of rt (JFloat t) = t"
| "str_of rt (JStr s) = s"
| "str_of rt j = container_str rt j"

fun int_of :: "runtime \<Rightarrow> json \<Rightarrow> exn + int" where
  "int_of rt (JInt i) = Inr i"
| "int_of rt (JBool b) = Inr (if b then 1 else 0)"
| "int_of rt (JStr s) = int_of_str s"
| "int_of rt (JFloat t) = float_int rt (JFloat t)"
| "int_of rt JNonFinite = float_int rt JNonFinite"
| "int_of rt j = Inl TypeError"

text \<open>\<open>item.get(name)\<close> on a dict; \<open>None\<close> when absent.\<close>

definition get_or :: "(pystr \<times> json) list \<Rightarrow> string \<Rightarrow> json \<Rightarrow> json" where
  "get_or item name dflt = (case map_of item (str_lit name) of None \<Rightarrow> dflt | Some v \<Rightarrow> v)"

abbreviation get :: "(pystr \<times> json) list \<Rightarrow> string \<Rightarrow> json" where
  "get item name \<equiv> get_or item name JNull"

text \<open>\<open>a or b\<close>.\<close>

definition py_or :: "json \<Rightarrow> json \<Rightarrow> json" where
  "py_or a b = (if truthy a then a else b)"

section \<open>Facts\<close>

lemma digit_value_ascii: "48 \<le> c \<Longrightarrow> c \<le> 57 \<Longrightarrow> digit_value c = Some (c - 48)"
  by (simp add: digit_value_def nd_zeros_def)

lemma int_digits_ascii:
  "\<forall>c \<in> set s. 48 \<le> c \<and> c \<le> 57 \<Longrightarrow>
     int_digits b s = (if s = [] \<and> \<not> b then None else Some (map (\<lambda>c. c - 48) s))"
proof (induction s arbitrary: b)
  case (Cons c s)
  then have "c \<noteq> 95" and "digit_value c = Some (c - 48)"
    by (auto simp: digit_value_ascii)
  with Cons show ?case by simp
qed simp

lemma isdigit_str_signed: "isdigit (str_signed i) \<longleftrightarrow> 0 \<le> i"
proof (cases "0 \<le> i")
  case True
  have "\<forall>c \<in> set (dec (nat i)). digit_value c \<noteq> None"
    using set_dec digit_value_ascii by fastforce
  with True show ?thesis by (simp add: isdigit_def str_signed_def list_all_iff)
next
  case False
  have "digit_value 45 = None" and "\<not> in_ranges other_digits 45"
    by (simp_all add: digit_value_def nd_zeros_def other_digits_def)
  with False show ?thesis by (simp add: isdigit_def str_signed_def)
qed

text \<open>\<open>isdigit\<close> does not promise that \<open>int()\<close> succeeds: a superscript two is a digit.\<close>

lemma superscript_two: "isdigit [0xB2]" "int_of_str [0xB2] = Inl ValueError"
  by (simp_all add: isdigit_def other_digits_def int_of_str_def strip_def isspace_def
      digit_value_def nd_zeros_def)

end
