(* ===== verification/RateLimit.thy ===== *)
theory RateLimit
  imports Complex_Main Errors
begin

text \<open>
  \<open>technocore/ratelimit.py\<close>: the token buckets by which the client throttles itself.
  Python's floats are rational numbers here, so rounding is not modelled. The
  clock is an argument: \<open>clk i s\<close> is what the \<open>i\<close>-th call of
  \<open>time.monotonic()\<close> returns when the process has slept \<open>s\<close> seconds so far.
\<close>

section \<open>Buckets\<close>

record TokenBucket =
  capacity :: rat
  refill_per_second :: rat
  tokens :: rat
  updated :: rat

definition TokenBucket_init :: "rat \<Rightarrow> rat \<Rightarrow> rat \<Rightarrow> exn + TokenBucket" where
  "TokenBucket_init cap refill now =
     (if cap \<le> 0 \<or> refill \<le> 0 then Inl ValueError
      else Inr \<lparr>capacity = cap, refill_per_second = refill, tokens = cap, updated = now\<rparr>)"

definition refill :: "rat \<Rightarrow> TokenBucket \<Rightarrow> TokenBucket" where
  "refill now b =
     (let elapsed = max 0 (now - updated b)
      in b\<lparr>tokens := min (capacity b) (tokens b + elapsed * refill_per_second b), updated := now\<rparr>)"

definition try_acquire :: "rat \<Rightarrow> rat \<Rightarrow> TokenBucket \<Rightarrow> bool \<times> TokenBucket" where
  "try_acquire now n b =
     (let b = refill now b
      in if n \<le> tokens b then (True, b\<lparr>tokens := tokens b - n\<rparr>) else (False, b))"

definition available :: "rat \<Rightarrow> TokenBucket \<Rightarrow> rat \<times> TokenBucket" where
  "available now b = (let b = refill now b in (tokens b, b))"

type_synonym monotonic_clock = "nat \<Rightarrow> rat \<Rightarrow> rat"

text \<open>
  The \<open>while True\<close> of \<open>acquire\<close>, with fuel for its rounds. A round reads the clock
  up to three times; \<open>None\<close> means that the fuel ran out.
\<close>

fun acquire_loop ::
  "nat \<Rightarrow> monotonic_clock \<Rightarrow> rat \<Rightarrow> bool \<Rightarrow> rat \<Rightarrow> nat \<Rightarrow> rat \<Rightarrow> TokenBucket \<Rightarrow>
     ((exn + unit) \<times> TokenBucket) option" where
  "acquire_loop 0 clk n block deadline i slept b = None"
| "acquire_loop (Suc fuel) clk n block deadline i slept b =
     (let (ok, b1) = try_acquire (clk i slept) n b in
      if ok then Some (Inr (), b1)
      else
        let b2 = refill (clk (i + 1) slept) b1;
            deficit = n - tokens b2;
            wait = max (1 / 100) (deficit / refill_per_second b2) in
        if \<not> block \<or> clk (i + 2) slept + wait > deadline then Some (Inl RateLimitExceeded, b2)
        else acquire_loop fuel clk n block deadline (i + 3) (slept + min wait (1 / 2)) b2)"

definition acquire ::
  "nat \<Rightarrow> monotonic_clock \<Rightarrow> rat \<Rightarrow> bool \<Rightarrow> rat \<Rightarrow> TokenBucket \<Rightarrow> ((exn + unit) \<times> TokenBucket) option" where
  "acquire fuel clk n block max_wait b =
     acquire_loop fuel clk n block (clk 0 0 + max_wait) 1 0 b"

section \<open>Budgets\<close>

definition SAFETY_FACTOR :: rat where "SAFETY_FACTOR = 1 / 2"

record Budget =
  reads :: TokenBucket
  writes :: TokenBucket

definition from_advertised :: "int \<Rightarrow> int \<Rightarrow> rat \<Rightarrow> rat \<Rightarrow> exn + Budget" where
  "from_advertised reads_per_minute writes_per_minute safety now =
     (let r = max 1 (of_int reads_per_minute * safety);
          w = max 1 (of_int writes_per_minute * safety) in
      rbind (TokenBucket_init r (r / 60) now) (\<lambda>reads_bucket.
      rbind (TokenBucket_init w (w / 60) now) (\<lambda>writes_bucket.
        Inr \<lparr>reads = reads_bucket, writes = writes_bucket\<rparr>)))"

definition conservative :: "rat \<Rightarrow> exn + Budget" where
  "conservative now = from_advertised 30 2 SAFETY_FACTOR now"

section \<open>The invariant of a bucket\<close>

definition bucket_ok :: "TokenBucket \<Rightarrow> bool" where
  "bucket_ok b \<longleftrightarrow> 0 < capacity b \<and> 0 < refill_per_second b \<and> 0 \<le> tokens b \<and> tokens b \<le> capacity b"

lemma bucket_ok_init: "TokenBucket_init cap rate now = Inr b \<Longrightarrow> bucket_ok b"
  by (auto simp: TokenBucket_init_def bucket_ok_def split: if_splits)

lemma refill_fields [simp]:
  "capacity (refill now b) = capacity b"
  "refill_per_second (refill now b) = refill_per_second b"
  "updated (refill now b) = now"
  by (simp_all add: refill_def Let_def)

lemma bucket_ok_refill: "bucket_ok b \<Longrightarrow> bucket_ok (refill now b)"
  by (auto simp: bucket_ok_def refill_def Let_def intro!: add_nonneg_nonneg mult_nonneg_nonneg)

lemma refill_tokens_le:
  assumes "bucket_ok b" and "updated b \<le> now"
  shows "tokens (refill now b) \<le> tokens b + (now - updated b) * refill_per_second b"
  using assms by (simp add: refill_def Let_def)

lemma try_acquire_fields:
  assumes "try_acquire now n b = (ok, b')"
  shows "capacity b' = capacity b" "refill_per_second b' = refill_per_second b" "updated b' = now"
    "tokens b' = tokens (refill now b) - (if ok then n else 0)" "ok \<longleftrightarrow> n \<le> tokens (refill now b)"
  using assms by (auto simp: try_acquire_def Let_def split: if_splits)

lemma bucket_ok_try_acquire:
  assumes "bucket_ok b" and "0 \<le> n" and "try_acquire now n b = (ok, b')"
  shows "bucket_ok b'"
  using bucket_ok_refill [OF assms(1), of now] assms(2) try_acquire_fields [OF assms(3)]
  by (auto simp: bucket_ok_def)

text \<open>A run of requests, each at its time: how much was granted, and the bucket left.\<close>

fun run_bucket :: "(rat \<times> rat) list \<Rightarrow> TokenBucket \<Rightarrow> rat \<times> TokenBucket" where
  "run_bucket [] b = (0, b)"
| "run_bucket ((now, n) # reqs) b =
     (let (ok, b1) = try_acquire now n b; (granted, b2) = run_bucket reqs b1
      in ((if ok then n else 0) + granted, b2))"

text \<open>Requests of non-negative size at times that never go back.\<close>

fun in_order :: "rat \<Rightarrow> (rat \<times> rat) list \<Rightarrow> bool" where
  "in_order t [] = True"
| "in_order t ((now, n) # reqs) \<longleftrightarrow> t \<le> now \<and> 0 \<le> n \<and> in_order now reqs"

lemma run_bucket_bound:
  assumes "bucket_ok b" and "in_order (updated b) reqs" and "run_bucket reqs b = (granted, b')"
  shows "bucket_ok b' \<and> capacity b' = capacity b \<and> refill_per_second b' = refill_per_second b \<and>
    updated b \<le> updated b' \<and>
    granted + tokens b' \<le> tokens b + (updated b' - updated b) * refill_per_second b"
  using assms
proof (induction reqs arbitrary: b granted)
  case (Cons req reqs)
  obtain now n where req: "req = (now, n)" by (cases req)
  obtain ok b1 where b1: "try_acquire now n b = (ok, b1)" by (cases "try_acquire now n b")
  obtain g where g: "run_bucket reqs b1 = (g, b')"
    using Cons.prems(3) by (auto simp: req b1 split: prod.splits)
  have granted: "granted = (if ok then n else 0) + g"
    using Cons.prems(3) by (simp add: req b1 g)
  note f = try_acquire_fields [OF b1]
  have order: "updated b \<le> now" "0 \<le> n" "in_order (updated b1) reqs"
    using Cons.prems(2) by (simp_all add: req f)
  from Cons.IH [OF bucket_ok_try_acquire [OF Cons.prems(1) order(2) b1] order(3) g]
  show ?case
    using refill_tokens_le [OF Cons.prems(1) order(1)] order(1)
    by (auto simp: granted f algebra_simps)
qed simp

section \<open>Properties\<close>

lemma run_from_first:
  assumes "bucket_ok b" and "in_order (updated b) ((t, n) # reqs)" and "run_bucket ((t, n) # reqs) b = (granted, b')"
  shows "bucket_ok b' \<and> capacity b' = capacity b \<and> granted \<le> capacity b + (updated b' - t) * refill_per_second b"
proof -
  obtain ok b1 where b1: "try_acquire t n b = (ok, b1)" by (cases "try_acquire t n b")
  obtain g where g: "run_bucket reqs b1 = (g, b')" and granted: "granted = (if ok then n else 0) + g"
    using assms(3) by (auto simp: b1 split: prod.splits)
  note f = try_acquire_fields [OF b1]
  have "tokens (refill t b) \<le> capacity b" using bucket_ok_refill [OF assms(1), of t] by (simp add: bucket_ok_def)
  moreover have "0 \<le> n" "in_order (updated b1) reqs" using assms(2) by (simp_all add: f)
  ultimately show ?thesis
    using run_bucket_bound [OF bucket_ok_try_acquire [OF assms(1) _ b1] _ g]
    by (auto simp: granted f bucket_ok_def)
qed

text \<open>Requests of one token each grant a whole number.\<close>

lemma single_tokens: "\<forall>req \<in> set reqs. snd req = 1 \<Longrightarrow> run_bucket reqs b = (granted, b') \<Longrightarrow>
    \<exists>k. granted = of_int k"
proof (induction reqs arbitrary: b granted)
  case Nil
  then show ?case by (auto intro: exI [where x = 0])
next
  case (Cons req reqs)
  obtain t n where req: "req = (t, n)" by (cases req)
  obtain ok b1 where b1: "try_acquire t n b = (ok, b1)" by (cases "try_acquire t n b")
  obtain g where g: "run_bucket reqs b1 = (g, b')" "granted = (if ok then n else 0) + g"
    using Cons.prems(2) by (auto simp: req b1 split: prod.splits)
  have "\<exists>k. g = of_int k" by (rule Cons.IH [OF _ g(1)]) (use Cons.prems(1) in simp)
  then obtain k where "g = of_int k" ..
  then have "granted = of_int ((if ok then 1 else 0) + k)" using g(2) Cons.prems(1) by (simp add: req)
  then show ?case by blast
qed

text \<open>
  C22. Each of the two buckets keeps the client below the limit that the server advertises for
  it. The client takes one token per request; of the requests within any time shorter than
  a minute, whatever came before, a bucket grants fewer than the advertised number when
  that is at least two, and at most one when it is less. The level stays between zero
  and the capacity.
\<close>

theorem grants_stay_within_the_advertised_limit:
  assumes "from_advertised r w SAFETY_FACTOR start = Inr budget"
    and "(bucket, limit) \<in> {(reads budget, r), (writes budget, w)}"
    and "in_order start earlier" and "run_bucket earlier bucket = (g0, b)"
    and "in_order (updated b) ((t, n) # window)" and "run_bucket ((t, n) # window) b = (granted, b')"
    and "\<forall>req \<in> set ((t, n) # window). snd req = 1" and "updated b' < t + 60"
  shows "0 \<le> tokens b' \<and> tokens b' \<le> capacity b' \<and> granted \<le> of_int (max 1 (limit - 1))"
proof -
  define c where "c = max (1 :: rat) (of_int limit / 2)"
  have c: "2 * c = of_int (max 2 limit)" by (auto simp: c_def max_def)
  have ok: "bucket_ok bucket" and cap: "capacity bucket = c"
    and rate: "refill_per_second bucket = c / 60" and upd: "updated bucket = start"
    using assms(1,2)
    by (auto simp: from_advertised_def Let_def rbind_eq_Inr SAFETY_FACTOR_def c_def
        TokenBucket_init_def bucket_ok_def split: if_splits)
  from run_bucket_bound [OF ok _ assms(4)] assms(3) upd
  have b: "bucket_ok b" "capacity b = c" "refill_per_second b = c / 60"
    by (simp_all add: cap rate)
  from run_from_first [OF b(1) assms(5,6)]
  have b': "bucket_ok b'" "granted \<le> c + (updated b' - t) * (c / 60)"
    by (simp_all add: b(2,3))
  have "0 < c" by (simp add: c_def)
  then have "(updated b' - t) * (c / 60) < 60 * (c / 60)"
    using assms(8) by (intro mult_strict_right_mono) auto
  then have "granted < of_int (max 2 limit)" using b'(2) c by simp
  moreover obtain k where "granted = of_int k" using single_tokens [OF assms(7,6)] ..
  ultimately have "granted \<le> of_int (max 2 limit - 1)" by (simp only: of_int_less_iff of_int_le_iff)
  also have "max 2 limit - 1 = max 1 (limit - 1)" by (simp add: max_def)
  finally show ?thesis using b'(1) by (simp add: bucket_ok_def)
qed

text \<open>
  The floor of one token does not depend on the server: a deployment that advertises one
  request per minute, or none at all, is still asked once.
\<close>

theorem a_limit_below_two_is_not_undercut:
  assumes "limit \<le> 1" and "from_advertised limit w SAFETY_FACTOR start = Inr budget"
  shows "fst (try_acquire start 1 (reads budget)) \<and> capacity (reads budget) = 1"
proof -
  have "max 1 (of_int limit * SAFETY_FACTOR) = (1 :: rat)"
    using assms(1) by (auto simp: SAFETY_FACTOR_def max_def)
  with assms(2) have "reads budget = \<lparr>capacity = 1, refill_per_second = 1 / 60, tokens = 1, updated = start\<rparr>"
    by (auto simp: from_advertised_def Let_def rbind_eq_Inr TokenBucket_init_def split: if_splits)
  then show ?thesis by (simp add: try_acquire_def refill_def)
qed

text \<open>
  What \<open>time.monotonic\<close> and \<open>time.sleep\<close> promise: the clock never goes back, and
  sleeping \<open>d\<close> seconds moves it by at least \<open>d\<close>.
\<close>

definition clock_ok :: "monotonic_clock \<Rightarrow> bool" where
  "clock_ok clk \<longleftrightarrow> (\<forall>i s d. 0 \<le> d \<longrightarrow> clk i s + d \<le> clk (Suc i) (s + d))"

lemma clock_ok_step: "clock_ok clk \<Longrightarrow> 0 \<le> d \<Longrightarrow> clk i s + d \<le> clk (Suc i) (s + d)"
  by (simp add: clock_ok_def)

lemma clock_ok_mono: "clock_ok clk \<Longrightarrow> clk i s \<le> clk (Suc i) s"
  using clock_ok_step [of clk 0 i s] by simp

lemma acquire_loop_ends:
  assumes "clock_ok clk" and "bucket_ok b" and "0 \<le> n"
    and "deadline - clk i slept < of_nat fuel / 100"
  shows "\<exists>r b'. acquire_loop (Suc fuel) clk n block deadline i slept b = Some (r, b') \<and>
    bucket_ok b' \<and> r \<in> {Inr (), Inl RateLimitExceeded}"
  using assms(2,4)
proof (induction fuel arbitrary: i slept b)
  case 0
  obtain ok b1 where b1: "try_acquire (clk i slept) n b = (ok, b1)" by (cases "try_acquire (clk i slept) n b")
  have "bucket_ok b1" by (rule bucket_ok_try_acquire [OF 0(1) assms(3) b1])
  moreover have "clk i slept \<le> clk (i + 2) slept"
    using clock_ok_mono [OF assms(1), of i slept] clock_ok_mono [OF assms(1), of "Suc i" slept] by simp
  then have "clk (i + 2) slept + max (1 / 100) w > deadline" for w
    using 0(2) by (simp add: less_max_iff_disj)
  ultimately show ?case
    by (simp add: b1 bucket_ok_refill Let_def)
next
  case (Suc fuel)
  obtain ok b1 where b1: "try_acquire (clk i slept) n b = (ok, b1)" by (cases "try_acquire (clk i slept) n b")
  define b2 where "b2 = refill (clk (i + 1) slept) b1"
  define wait where "wait = max (1 / 100) ((n - tokens b2) / refill_per_second b2)"
  have ok1: "bucket_ok b1" by (rule bucket_ok_try_acquire [OF Suc.prems(1) assms(3) b1])
  then have ok2: "bucket_ok b2" by (simp add: b2_def bucket_ok_refill)
  have wait: "1 / 100 \<le> min wait (1 / 2)" by (simp add: wait_def)
  have step: "acquire_loop (Suc (Suc fuel)) clk n block deadline i slept b =
      (if ok then Some (Inr (), b1)
       else if \<not> block \<or> clk (i + 2) slept + wait > deadline then Some (Inl RateLimitExceeded, b2)
       else acquire_loop (Suc fuel) clk n block deadline (i + 3) (slept + min wait (1 / 2)) b2)"
    unfolding acquire_loop.simps(2) [of "Suc fuel"] b1 b2_def wait_def Let_def by simp
  have "clk i slept + min wait (1 / 2) \<le> clk (i + 3) (slept + min wait (1 / 2))"
    using clock_ok_mono [OF assms(1), of i slept] clock_ok_mono [OF assms(1), of "Suc i" slept]
      clock_ok_step [OF assms(1), of "min wait (1 / 2)" "i + 2" slept] wait
    by (simp add: numeral_3_eq_3)
  then have "deadline - clk (i + 3) (slept + min wait (1 / 2)) < of_nat fuel / 100"
    using Suc.prems(2) wait by (simp add: add_divide_distrib)
  from Suc.IH [OF ok2 this] show ?case
    unfolding step using ok1 ok2
    by (cases "ok"; cases "\<not> block \<or> clk (i + 2) slept + wait > deadline")
      (simp_all del: acquire_loop.simps)
qed

text \<open>
  C23. \<open>acquire\<close> returns. A round that does not end it sleeps at least a hundredth of a
  second, so at most \<open>100 * max_wait\<close> rounds and two more pass before the deadline:
  with that fuel the loop ends, either with the tokens taken or with
  \<open>RateLimitExceeded\<close>, and the bucket keeps its invariant.
\<close>

theorem acquire_terminates:
  assumes "clock_ok clk" and "bucket_ok b" and "0 \<le> n" and "100 * max_wait < of_nat fuel"
  shows "\<exists>r b'. acquire (Suc fuel) clk n block max_wait b = Some (r, b') \<and> bucket_ok b' \<and>
    r \<in> {Inr (), Inl RateLimitExceeded}"
  unfolding acquire_def
proof (rule acquire_loop_ends [OF assms(1-3)])
  show "clk 0 0 + max_wait - clk 1 0 < of_nat fuel / 100"
    using clock_ok_mono [OF assms(1), of 0 0] assms(4) by simp
qed

text \<open>A clock on which every call costs nothing, and the bucket of the conservative budget.\<close>

lemma conservative_budget:
  "\<exists>budget. from_advertised 30 2 SAFETY_FACTOR 0 = Inr budget \<and> bucket_ok (writes budget) \<and>
     updated (writes budget) = 0"
  by (auto simp: from_advertised_def TokenBucket_init_def SAFETY_FACTOR_def bucket_ok_def Let_def)

theorem grants_stay_within_the_advertised_limit_witness:
  "\<exists>budget. from_advertised 30 2 SAFETY_FACTOR 0 = Inr budget \<and>
     fst (run_bucket [(0, 1), (59, 1)] (writes budget)) \<le> 1"
proof -
  from conservative_budget obtain budget where b: "from_advertised 30 2 SAFETY_FACTOR 0 = Inr budget"
    "bucket_ok (writes budget)" "updated (writes budget) = 0" by blast
  obtain granted b' where run: "run_bucket [(0, 1), (59, 1)] (writes budget) = (granted, b')"
    by (cases "run_bucket [(0, 1), (59, 1)] (writes budget)")
  have order: "in_order (updated (writes budget)) [(0, 1), (59, 1)]" by (simp add: b)
  have upd: "updated b' < 0 + 60"
    using run by (auto simp: b try_acquire_def Let_def split: if_splits)
  have start: "(writes budget, 2) \<in> {(reads budget, 30), (writes budget, 2)}" "in_order 0 []"
    "run_bucket [] (writes budget) = (0, writes budget)" by simp_all
  from grants_stay_within_the_advertised_limit [OF b(1) start order run _ upd] have "granted \<le> 1" by simp
  with b(1) show ?thesis by (intro exI [where x = budget]) (simp add: run del: run_bucket.simps)
qed

theorem a_limit_below_two_is_not_undercut_witness:
  "\<exists>budget. from_advertised 0 0 SAFETY_FACTOR 0 = Inr budget \<and> fst (try_acquire 0 1 (reads budget))"
proof -
  obtain budget where b: "from_advertised 0 0 SAFETY_FACTOR 0 = Inr budget"
    by (simp add: from_advertised_def TokenBucket_init_def SAFETY_FACTOR_def)
  from a_limit_below_two_is_not_undercut [OF _ b] b show ?thesis by auto
qed

theorem acquire_terminates_witness:
  "\<exists>r b'. acquire 3002 (\<lambda>i s. s) 1 True 30
      \<lparr>capacity = 1, refill_per_second = 1 / 60, tokens = 0, updated = 0\<rparr> = Some (r, b') \<and>
    r \<in> {Inr (), Inl RateLimitExceeded}"
  using acquire_terminates [of "\<lambda>i s. s"
      "\<lparr>capacity = 1, refill_per_second = 1 / 60, tokens = 0, updated = 0\<rparr>" 1 30 3001 True]
  by (auto simp: clock_ok_def bucket_ok_def)

end
