(* ===== verification/Client.thy ===== *)
theory Client
  imports Capability RateLimit Untrusted
begin

text \<open>
  \<open>technocore/client.py\<close>: the HTTP client, its write guard and the one-time gate for
  the public host. The network is the argument \<open>http\<close> of type \<open>io\<close>: what the server
  answers to a request, given the requests sent so far. The requests themselves are
  recorded in the client, so that a property can say what was sent.
\<close>

section \<open>Parsing the base URL\<close>

text \<open>
  \<open>urllib.parse.urlparse\<close> as far as \<open>scheme\<close> and \<open>hostname\<close> go. Its checks of
  IP literals and of Unicode normalisation, which can only raise \<open>ValueError\<close>, are
  the argument \<open>netloc_ok\<close>.
\<close>

definition before :: "nat \<Rightarrow> pystr \<Rightarrow> pystr" where
  "before sep s = takeWhile (\<lambda>c. c \<noteq> sep) s"

definition after :: "nat \<Rightarrow> pystr \<Rightarrow> pystr" where
  "after sep s = drop 1 (dropWhile (\<lambda>c. c \<noteq> sep) s)"

definition after_last :: "nat \<Rightarrow> pystr \<Rightarrow> pystr" where
  "after_last sep s = rev (takeWhile (\<lambda>c. c \<noteq> sep) (rev s))"

definition scheme_char :: "nat \<Rightarrow> bool" where
  "scheme_char c \<longleftrightarrow> in_ranges [(48, 57), (65, 90), (97, 122)] c \<or> c \<in> {43, 45, 46}"

definition split_scheme :: "pystr \<Rightarrow> pystr \<times> pystr" where
  "split_scheme url =
     (let s = before 58 url in
      if 58 \<in> set url \<and> s \<noteq> [] \<and> in_ranges [(65, 90), (97, 122)] (hd url) \<and> list_all scheme_char s
      then (lower s, after 58 url) else ([], url))"

definition hostname_of :: "pystr \<Rightarrow> pystr option" where
  "hostname_of netloc =
     (let hostinfo = after_last 64 netloc;
          host = (if 91 \<in> set hostinfo then before 93 (after 91 hostinfo) else before 58 hostinfo)
      in if host = [] then None
         else Some (lower (before 37 host) @ (if 37 \<in> set host then 37 # after 37 host else [])))"

definition urlparse :: "(pystr \<Rightarrow> bool) \<Rightarrow> pystr \<Rightarrow> exn + pystr \<times> pystr option" where
  "urlparse netloc_ok url =
     (let cleaned = filter (\<lambda>c. c \<notin> {9, 10, 13}) (dropWhile (\<lambda>c. c \<le> 32) url);
          (scheme, rest) = split_scheme cleaned;
          netloc = (if take 2 rest = [47, 47]
                    then takeWhile (\<lambda>c. c \<notin> {47, 63, 35}) (drop 2 rest) else [])
      in if (91 \<in> set netloc) \<noteq> (93 \<in> set netloc) \<or> \<not> netloc_ok netloc then Inl ValueError
         else Inr (scheme, hostname_of netloc))"

section \<open>Hosts\<close>

definition PUBLIC_HOSTS :: "pystr list" where
  "PUBLIC_HOSTS = map str_lit [''technocore.chat'', ''www.technocore.chat'', ''api.technocore.chat'']"

definition LOOPBACK_HOSTS :: "pystr list" where
  "LOOPBACK_HOSTS = map str_lit [''127.0.0.1'', ''localhost'', ''::1'', ''[::1]'', ''0.0.0.0'']"

definition WRITE_ENABLE_ENV :: pystr where
  "WRITE_ENABLE_ENV = str_lit ''FLOPOFFICE_ALLOW_LOCAL_WRITE''"

definition is_sha256 :: "pystr \<Rightarrow> bool" where
  "is_sha256 v \<longleftrightarrow> length v = 64 \<and> list_all (in_ranges [(48, 57), (97, 102), (65, 70)]) v"

section \<open>Signed writes\<close>

record SignedWrite =
  sw_did :: pystr
  sw_room :: pystr
  sw_nonce :: int
  sw_text :: pystr
  sw_swept_text :: pystr
  sw_signature :: pystr
  sw_payload :: bytes

text \<open>The path of the \<open>say-signed\<close> endpoint; an f-string evaluates its parts in order.\<close>

definition write_path :: "SignedWrite \<Rightarrow> exn + pystr" where
  "write_path w =
     rbind (encode_path_segment (VStr (sw_room w))) (\<lambda>room.
     rbind (encode_path_segment (VStr (sw_did w))) (\<lambda>did_text.
     rbind (encode_path_segment (VStr (sw_signature w))) (\<lambda>sig.
     rbind (json_int (sw_nonce w)) (\<lambda>nonce.
     rbind (encode_path_segment (VStr (sw_swept_text w))) (\<lambda>swept.
       Inr (str_lit ''/r/'' @ room @ str_lit ''/say-signed/'' @ did_text @ 47 # sig @ 47 # nonce @
            47 # swept))))))"

definition json_body :: "SignedWrite \<Rightarrow> json" where
  "json_body w = JObj
     [(str_lit ''did'', JStr (sw_did w)), (str_lit ''sig'', JStr (sw_signature w)),
      (str_lit ''nonce'', JInt (sw_nonce w)), (str_lit ''text'', JStr (sw_swept_text w))]"

definition write_verifies :: "'key ed25519 \<Rightarrow> SignedWrite \<Rightarrow> exn + bool" where
  "write_verifies c w =
     verify_message c (VStr (sw_did w)) (VStr (sw_signature w)) (VStr (sw_room w))
       (VInt (sw_nonce w)) (VStr (sw_swept_text w))"

definition build_signed_message ::
  "'key ed25519 \<Rightarrow> 'key signer \<Rightarrow> pyval \<Rightarrow> pyval \<Rightarrow> pystr \<Rightarrow> exn + SignedWrite" where
  "build_signed_message c s room nonce text =
     rbind (validate_room room) (\<lambda>r.
     rbind (validate_nonce nonce) (\<lambda>n.
     rbind (single_line_sweep (VStr text) None) (\<lambda>swept.
     rbind (message_payload (VStr r) (VInt n) (VStr swept) DEFAULT_SWEEP True) (\<lambda>payload.
     rbind (signer_sign c s (VBytes payload)) (\<lambda>sig.
     let w = \<lparr>sw_did = did (signer_did s), sw_room = r, sw_nonce = n, sw_text = text,
              sw_swept_text = swept, sw_signature = sig, sw_payload = payload\<rparr> in
     rbind (write_verifies c w) (\<lambda>ok.
       if ok then Inr w
       else Inl (TechnocoreError (str_lit ''constructed signature failed local verification; '' @
              str_lit ''canonicalisation and signer disagree''))))))))"

section \<open>The one-time gate\<close>

record OneTimePublicWriteGate =
  gate_host :: pystr
  gate_room :: pystr
  gate_sha256 :: pystr
  gate_nonce :: int
  gate_used :: bool
  gate_closed :: bool

definition Gate_init ::
  "pystr \<Rightarrow> pyval \<Rightarrow> pystr \<Rightarrow> pyval \<Rightarrow> bool \<Rightarrow> exn + OneTimePublicWriteGate" where
  "Gate_init host room sha nonce confirm =
     rbind (validate_room room) (\<lambda>r.
     rbind (validate_nonce nonce) (\<lambda>n.
     rbind (unless_raise confirm
       (PublicWriteRefused (str_lit ''public Technocore publish gate lacks confirmation''))) (\<lambda>_.
     rbind (unless_raise (lower host \<in> set PUBLIC_HOSTS)
       (PublicWriteRefused (str_lit ''one-time public publish gate is only valid for the public denylist'')))
       (\<lambda>_.
     rbind (unless_raise (is_sha256 sha)
       (PublicWriteRefused (str_lit ''message_sha256 must be a 64-character hex digest''))) (\<lambda>_.
       Inr \<lparr>gate_host = lower host, gate_room = r, gate_sha256 = sha, gate_nonce = n,
            gate_used = False, gate_closed = False\<rparr>)))))"

definition close_gate :: "OneTimePublicWriteGate \<Rightarrow> OneTimePublicWriteGate" where
  "close_gate g = g\<lparr>gate_closed := True\<rparr>"

definition consume ::
  "pystr \<Rightarrow> SignedWrite \<Rightarrow> OneTimePublicWriteGate \<Rightarrow> (exn + unit) \<times> OneTimePublicWriteGate" where
  "consume host w g =
     (if gate_closed g \<or> gate_used g
      then (Inl (PublicWriteRefused (str_lit ''one-time public publish gate is already closed'')), g)
      else if lower host \<noteq> gate_host g
      then (Inl (PublicWriteRefused (str_lit ''one-time public publish gate host mismatch'')), close_gate g)
      else if sw_room w \<noteq> gate_room g
      then (Inl (PublicWriteRefused (str_lit ''one-time public publish gate room mismatch'')), close_gate g)
      else if sw_nonce w \<noteq> gate_nonce g
      then (Inl (PublicWriteRefused (str_lit ''one-time public publish gate nonce mismatch'')), close_gate g)
      else case utf8_encode (sw_swept_text w) of
        Inl e \<Rightarrow> (Inl e, g)
      | Inr b \<Rightarrow>
          if sha256_hex b \<noteq> gate_sha256 g
          then (Inl (PublicWriteRefused (str_lit ''one-time public publish gate message mismatch'')),
                close_gate g)
          else (Inr (), g\<lparr>gate_used := True\<rparr>))"

section \<open>The client\<close>

record response =
  status_code :: int
  body_json :: "json option"
  body_text :: pystr
  retry_after :: "pystr option"

text \<open>\<open>HttpFails\<close> carries the name of the \<open>httpx.HTTPError\<close> subclass.\<close>

datatype http_result = HttpFails pystr | HttpAnswers response

type_synonym request = "pystr \<times> (pystr \<times> pystr) list"

record 'key io =
  backend :: "'key ed25519"
  http :: "request list \<Rightarrow> request \<Rightarrow> http_result"
  monotonic :: "nat \<Rightarrow> monotonic_clock"
  os_environ :: environ
  runtime_of :: runtime

record TechnocoreClient =
  base_url :: pystr
  client_host :: pystr
  budget :: Budget
  sent :: "request list"

type_synonym 'a client_op = "TechnocoreClient \<Rightarrow> (exn + 'a) \<times> TechnocoreClient"

definition rstrip_slash :: "pystr \<Rightarrow> pystr" where
  "rstrip_slash s = rev (dropWhile (\<lambda>c. c = 47) (rev s))"

definition TechnocoreClient_init :: "(pystr \<Rightarrow> bool) \<Rightarrow> pystr \<Rightarrow> rat \<Rightarrow> exn + TechnocoreClient" where
  "TechnocoreClient_init netloc_ok url now =
     (let base = rstrip_slash url in
      rbind (urlparse netloc_ok base) (\<lambda>(scheme, hostname).
      rbind (unless_raise (scheme \<in> {str_lit ''http'', str_lit ''https''})
        (TechnocoreError (str_lit ''base_url must be http(s)''))) (\<lambda>_.
      rbind (conservative now) (\<lambda>b.
        Inr \<lparr>base_url = base,
             client_host = lower (case hostname of None \<Rightarrow> [] | Some h \<Rightarrow> h),
             budget = b, sent = []\<rparr>))))"

definition is_public :: "TechnocoreClient \<Rightarrow> bool" where
  "is_public cl \<longleftrightarrow> client_host cl \<in> set PUBLIC_HOSTS"

definition is_loopback :: "TechnocoreClient \<Rightarrow> bool" where
  "is_loopback cl \<longleftrightarrow> client_host cl \<in> set LOOPBACK_HOSTS"

text \<open>
  \<open>bucket.acquire()\<close> with its defaults; \<open>acquire_terminates\<close> shows that this fuel is
  enough for \<open>max_wait = 30\<close>.
\<close>

definition acquire_one :: "monotonic_clock \<Rightarrow> TokenBucket \<Rightarrow> (exn + unit) \<times> TokenBucket" where
  "acquire_one clk b =
     (case acquire 3002 clk 1 True 30 b of None \<Rightarrow> (Inl RateLimitExceeded, b) | Some res \<Rightarrow> res)"

definition acquire_read :: "'key io \<Rightarrow> unit client_op" where
  "acquire_read io cl =
     (let (res, b) = acquire_one (monotonic io (length (sent cl))) (reads (budget cl))
      in (res, cl\<lparr>budget := (budget cl)\<lparr>reads := b\<rparr>\<rparr>))"

definition acquire_write :: "'key io \<Rightarrow> unit client_op" where
  "acquire_write io cl =
     (let (res, b) = acquire_one (monotonic io (length (sent cl))) (writes (budget cl))
      in (res, cl\<lparr>budget := (budget cl)\<lparr>writes := b\<rparr>\<rparr>))"

text \<open>One GET: the request is recorded and the server answers.\<close>

definition fetch :: "'key io \<Rightarrow> request \<Rightarrow> TechnocoreClient \<Rightarrow> http_result \<times> TechnocoreClient" where
  "fetch io req cl = (http io (sent cl) req, cl\<lparr>sent := sent cl @ [req]\<rparr>)"

definition http_get :: "'key io \<Rightarrow> pystr \<Rightarrow> (pystr \<times> pystr) list \<Rightarrow> response client_op" where
  "http_get io path params cl =
     (case acquire_read io cl of
        (Inl e, cl1) \<Rightarrow> (Inl e, cl1)
      | (Inr _, cl1) \<Rightarrow>
          (case fetch io (base_url cl1 @ path, params) cl1 of
             (HttpFails name, cl2) \<Rightarrow>
               (Inl (TechnocoreError (str_lit ''GET '' @ path @ str_lit '' failed: '' @ name)), cl2)
           | (HttpAnswers resp, cl2) \<Rightarrow>
               if status_code resp = 429 then
                 (Inl (TechnocoreError (str_lit ''server rate limit hit (429); Retry-After='' @
                   (case retry_after resp of None \<Rightarrow> str_lit ''unknown'' | Some t \<Rightarrow> t))), cl2)
               else if status_code resp \<ge> 400 then
                 (Inl (TechnocoreError (str_lit ''GET '' @ path @ str_lit '' returned HTTP '' @
                   str_signed (status_code resp))), cl2)
               else (Inr resp, cl2)))"

definition as_json :: "response \<Rightarrow> exn + json" where
  "as_json resp = (case body_json resp of
     None \<Rightarrow> Inl (TechnocoreError (str_lit ''response was not valid JSON'')) | Some j \<Rightarrow> Inr j)"

section \<open>Discovery\<close>

definition limit_of :: "runtime \<Rightarrow> json \<Rightarrow> string \<Rightarrow> int \<Rightarrow> exn + int" where
  "limit_of rt limits name dflt =
     (case limits of
        JObj ms \<Rightarrow> int_of rt (py_or (get_or ms name (JInt dflt)) (JInt dflt))
      | _ \<Rightarrow> Inl AttributeError)"

definition discover_limits :: "'key io \<Rightarrow> rat \<Rightarrow> Budget client_op" where
  "discover_limits io now cl =
     (let (res, cl1) = http_get io (str_lit ''/.well-known/agent.json'') [] cl;
          install = (\<lambda>r. case r of Inl e \<Rightarrow> (Inl e, cl1) | Inr b \<Rightarrow> (Inr b, cl1\<lparr>budget := b\<rparr>))
      in case rbind res as_json of
           Inl e \<Rightarrow> if is_TechnocoreError e \<or> is_ValueError e then install (conservative now)
                    else (Inl e, cl1)
         | Inr data \<Rightarrow>
             (let limits = (case data of JObj ms \<Rightarrow> get_or ms ''limits'' (JObj []) | _ \<Rightarrow> JObj [])
              in install
                (rbind (limit_of (runtime_of io) limits ''reads_per_minute_per_ip'' 30) (\<lambda>r.
                 rbind (limit_of (runtime_of io) limits ''writes_per_minute_per_ip'' 2) (\<lambda>w.
                   from_advertised r w SAFETY_FACTOR now)))))"

section \<open>Reads\<close>

text \<open>\<open>int(nonce) if isinstance(nonce, (int, str)) and str(nonce).isdigit() else None\<close>.\<close>

definition message_nonce :: "json \<Rightarrow> exn + int option" where
  "message_nonce nonce =
     (case nonce of
        JInt i \<Rightarrow> Inr (if isdigit (str_signed i) then Some i else None)
      | JStr s \<Rightarrow> if isdigit s then rbind (int_of_str s) (\<lambda>i. Inr (Some i)) else Inr None
      | _ \<Rightarrow> Inr None)"

definition recheck ::
  "'key io \<Rightarrow> pystr \<Rightarrow> json \<Rightarrow> json \<Rightarrow> json \<Rightarrow> pystr \<Rightarrow> exn + bool" where
  "recheck io room author signature nonce text =
     (if truthy author \<and> truthy signature \<and> nonce \<noteq> JNull then
        (case rbind (int_of (runtime_of io) nonce) (\<lambda>n.
              verify_message (backend io) (VStr (str_of (runtime_of io) author))
                (VStr (str_of (runtime_of io) signature)) (VStr room) (VInt n) (VStr text)) of
           Inl e \<Rightarrow> if is_ValueError e \<or> e = TypeError then Inr False else Inl e
         | Inr ok \<Rightarrow> Inr ok)
      else Inr False)"

definition str_if :: "runtime \<Rightarrow> json \<Rightarrow> pystr option" where
  "str_if rt v = (if truthy v then Some (str_of rt v) else None)"

definition to_message :: "'key io \<Rightarrow> pystr \<Rightarrow> json \<Rightarrow> exn + UntrustedMessage" where
  "to_message io room item =
     (case item of
        JObj ms \<Rightarrow>
          (let rt = runtime_of io;
               author = py_or (get ms ''from'') (get ms ''did'');
               signature = py_or (get ms ''sig'') (get ms ''signature'');
               nonce = get ms ''nonce'';
               text = str_of rt (get_or ms ''text'' (JStr []))
           in rbind (recheck io room author signature nonce text) (\<lambda>verified.
              rbind (message_nonce nonce) (\<lambda>n.
                Inr \<lparr>um_room = room, um_seq = get ms ''seq'', um_ts = get ms ''ts'', um_text = wrap text,
                     um_did = str_if rt author, um_nick = str_if rt (get ms ''nick''),
                     um_signature = str_if rt signature, um_nonce = n, um_verified = verified,
                     um_signature_returned = truthy signature, um_raw = ms\<rparr>)))
      | _ \<Rightarrow> Inr \<lparr>um_room = room, um_seq = JNull, um_ts = JNull, um_text = wrap (str_of (runtime_of io) item),
               um_did = None, um_nick = None, um_signature = None, um_nonce = None, um_verified = False,
               um_signature_returned = False, um_raw = []\<rparr>)"

fun to_messages :: "'key io \<Rightarrow> pystr \<Rightarrow> json list \<Rightarrow> exn + UntrustedMessage list" where
  "to_messages io room [] = Inr []"
| "to_messages io room (item # items) =
     rbind (to_message io room item) (\<lambda>m. rbind (to_messages io room items) (\<lambda>ms. Inr (m # ms)))"

definition list_member :: "string \<Rightarrow> string \<Rightarrow> json \<Rightarrow> exn + json list" where
  "list_member name complaint payload =
     (case (case payload of JObj ms \<Rightarrow> get_or ms name payload | _ \<Rightarrow> payload) of
        JArr items \<Rightarrow> Inr items
      | _ \<Rightarrow> Inl (TechnocoreError (str_lit complaint)))"

definition int_param :: "string \<Rightarrow> int option \<Rightarrow> (pystr \<times> pystr) list" where
  "int_param name v = (case v of None \<Rightarrow> [] | Some i \<Rightarrow> [(str_lit name, str_signed i)])"

definition read_room ::
  "'key io \<Rightarrow> pyval \<Rightarrow> int option \<Rightarrow> int option \<Rightarrow> UntrustedMessage list client_op" where
  "read_room io room since limit cl =
     (case rbind (validate_room room) (\<lambda>r. rbind (encode_path_segment (VStr r)) (\<lambda>seg. Inr (r, seg))) of
        Inl e \<Rightarrow> (Inl e, cl)
      | Inr (r, seg) \<Rightarrow>
          (let (res, cl1) = http_get io (str_lit ''/r/'' @ seg)
                 ((str_lit ''format'', str_lit ''json'') # int_param ''since'' since @ int_param ''limit'' limit) cl
           in (rbind res (\<lambda>resp. rbind (as_json resp) (\<lambda>payload.
               rbind (list_member ''messages'' ''unexpected room payload shape'' payload) (\<lambda>items.
                 to_messages io r items))), cl1)))"

definition room_of :: "runtime \<Rightarrow> json \<Rightarrow> UntrustedRoom list" where
  "room_of rt item =
     (case item of
        JStr s \<Rightarrow> [\<lparr>ur_name = s, ur_topic = None, ur_raw = []\<rparr>]
      | JObj ms \<Rightarrow>
          [\<lparr>ur_name = str_of rt (py_or (py_or (get ms ''room'') (get ms ''name'')) (JStr [])),
            ur_topic = map_option wrap (str_if rt (get ms ''topic'')), ur_raw = ms\<rparr>]
      | _ \<Rightarrow> [])"

definition list_rooms :: "'key io \<Rightarrow> UntrustedRoom list client_op" where
  "list_rooms io cl =
     (let (res, cl1) = http_get io (str_lit ''/rooms'') [(str_lit ''format'', str_lit ''json'')] cl
      in (rbind res (\<lambda>resp. rbind (as_json resp) (\<lambda>payload.
          rbind (list_member ''rooms'' ''unexpected /rooms payload shape'' payload) (\<lambda>items.
            Inr (concat (map (room_of (runtime_of io)) items))))), cl1))"

section \<open>The guarded write\<close>

definition assert_write_allowed ::
  "'key io \<Rightarrow> TechnocoreClient \<Rightarrow> SignedWrite \<Rightarrow> OneTimePublicWriteGate option \<Rightarrow>
     (exn + unit) \<times> OneTimePublicWriteGate option" where
  "assert_write_allowed io cl w gate =
     (case gate of
        Some g \<Rightarrow>
          if \<not> is_public cl
          then (Inl (PublicWriteRefused (str_lit
                  ''one-time public publish gate may only be used for public hosts'')), Some (close_gate g))
          else (let (r, g') = consume (client_host cl) w g in (r, Some g'))
      | None \<Rightarrow>
          if is_public cl then
            (Inl (PublicWriteRefused (str_lit ''writes to '' @ client_host cl @
               str_lit '' are blocked in M1. Posting the first '' @
               str_lit ''public signed message is a separate, explicitly approved step.'')), None)
          else if \<not> is_loopback cl then
            (Inl (PublicWriteRefused (str_lit ''writes are only permitted against a loopback host; got '' @
               [39] @ client_host cl @ [39])), None)
          else if map_of (os_environ io) WRITE_ENABLE_ENV \<noteq> Some (str_lit ''1'') then
            (Inl (PublicWriteRefused (str_lit ''set '' @ WRITE_ENABLE_ENV @
               str_lit ''=1 to enable writes against a local instance'')), None)
          else (Inr (), None))"

definition send_body ::
  "'key io \<Rightarrow> SignedWrite \<Rightarrow> OneTimePublicWriteGate option \<Rightarrow> TechnocoreClient \<Rightarrow>
     (exn + json) \<times> OneTimePublicWriteGate option \<times> TechnocoreClient" where
  "send_body io w gate cl =
     (case write_verifies (backend io) w of
        Inl e \<Rightarrow> (Inl e, gate, cl)
      | Inr False \<Rightarrow>
          (Inl (TechnocoreError (str_lit ''refusing to send a write that fails local verification'')), gate, cl)
      | Inr True \<Rightarrow>
          (case assert_write_allowed io cl w gate of
             (Inl e, gate1) \<Rightarrow> (Inl e, gate1, cl)
           | (Inr _, gate1) \<Rightarrow>
               (case acquire_write io cl of
                  (Inl e, cl1) \<Rightarrow> (Inl e, gate1, cl1)
                | (Inr _, cl1) \<Rightarrow>
                    (case write_path w of
                       Inl e \<Rightarrow> (Inl e, gate1, cl1)
                     | Inr path \<Rightarrow>
                         (case fetch io (base_url cl1 @ path, []) cl1 of
                            (HttpFails name, cl2) \<Rightarrow>
                              (Inl (TechnocoreError (str_lit ''signed write failed: '' @ name)), gate1, cl2)
                          | (HttpAnswers resp, cl2) \<Rightarrow>
                              if status_code resp \<ge> 400 then
                                (Inl (TechnocoreError (str_lit ''signed write rejected with HTTP '' @
                                   str_signed (status_code resp))), gate1, cl2)
                              else
                                (Inr (case body_json resp of
                                   Some j \<Rightarrow> j
                                 | None \<Rightarrow> JObj [(str_lit ''raw'', JStr (take 512 (body_text resp)))]),
                                 gate1, cl2))))))"

text \<open>\<open>finally\<close> closes the gate on every way out.\<close>

definition send_signed_message ::
  "'key io \<Rightarrow> SignedWrite \<Rightarrow> OneTimePublicWriteGate option \<Rightarrow> TechnocoreClient \<Rightarrow>
     (exn + json) \<times> OneTimePublicWriteGate option \<times> TechnocoreClient" where
  "send_signed_message io w gate cl =
     (let (r, gate', cl') = send_body io w gate cl in (r, map_option close_gate gate', cl'))"

section \<open>What a write sends\<close>

lemma acquire_write_fields:
  "acquire_write io cl = (r, cl') \<Longrightarrow> sent cl' = sent cl \<and> base_url cl' = base_url cl \<and>
     client_host cl' = client_host cl"
  by (auto simp: acquire_write_def split: prod.splits)

lemma fetch_fields:
  "fetch io req cl = (r, cl') \<Longrightarrow> sent cl' = sent cl @ [req] \<and> base_url cl' = base_url cl \<and>
     client_host cl' = client_host cl"
  by (auto simp: fetch_def)

text \<open>The gate admits this write to this host.\<close>

definition gate_admits :: "pystr \<Rightarrow> SignedWrite \<Rightarrow> OneTimePublicWriteGate \<Rightarrow> bool" where
  "gate_admits host w g \<longleftrightarrow> \<not> gate_closed g \<and> \<not> gate_used g \<and> lower host = gate_host g \<and>
     sw_room w = gate_room g \<and> sw_nonce w = gate_nonce g \<and>
     (\<exists>b. utf8_encode (sw_swept_text w) = Inr b \<and> sha256_hex b = gate_sha256 g)"

lemma consume_Inr:
  "consume host w g = (Inr u, g') \<longleftrightarrow> gate_admits host w g \<and> g' = g\<lparr>gate_used := True\<rparr>"
  by (auto simp: consume_def gate_admits_def split: sum.splits)

lemma consume_spent: "gate_closed g \<or> gate_used g \<Longrightarrow> fst (consume host w g) \<noteq> Inr u"
  by (simp add: consume_def)

definition write_allowed ::
  "'key io \<Rightarrow> TechnocoreClient \<Rightarrow> SignedWrite \<Rightarrow> OneTimePublicWriteGate option \<Rightarrow> bool" where
  "write_allowed io cl w gate \<longleftrightarrow>
     (case gate of
        Some g \<Rightarrow> is_public cl \<and> gate_admits (client_host cl) w g
      | None \<Rightarrow> \<not> is_public cl \<and> is_loopback cl \<and>
          map_of (os_environ io) WRITE_ENABLE_ENV = Some (str_lit ''1''))"

lemma assert_write_allowed_Inr:
  "assert_write_allowed io cl w gate = (Inr u, gate') \<longleftrightarrow>
     write_allowed io cl w gate \<and> gate' = map_option (\<lambda>g. g\<lparr>gate_used := True\<rparr>) gate"
proof (cases gate)
  case (Some g)
  obtain r1 g1 where c: "consume (client_host cl) w g = (r1, g1)" by (cases "consume (client_host cl) w g")
  have "r1 = Inr u \<and> gate' = Some g1 \<longleftrightarrow>
      gate_admits (client_host cl) w g \<and> gate' = Some (g\<lparr>gate_used := True\<rparr>)"
    using consume_Inr [of "client_host cl" w g u g1] consume_Inr [of "client_host cl" w g u "g\<lparr>gate_used := True\<rparr>"] c
    by auto
  then show ?thesis by (auto simp: Some assert_write_allowed_def write_allowed_def c)
qed (auto simp: assert_write_allowed_def write_allowed_def)

lemma assert_write_allowed_shape:
  "assert_write_allowed io cl w gate = (r, gate') \<Longrightarrow> (gate' = None) = (gate = None)"
  by (cases gate) (auto simp: assert_write_allowed_def split: if_splits prod.splits)

text \<open>The two ways a write can end: nothing was sent, or this one request was.\<close>

definition sent_one ::
  "'key io \<Rightarrow> SignedWrite \<Rightarrow> OneTimePublicWriteGate option \<Rightarrow> TechnocoreClient \<Rightarrow> TechnocoreClient \<Rightarrow> bool" where
  "sent_one io w gate cl cl' \<longleftrightarrow>
     write_verifies (backend io) w = Inr True \<and> write_allowed io cl w gate \<and>
     (\<exists>path. write_path w = Inr path \<and> sent cl' = sent cl @ [(base_url cl @ path, [])])"

lemma send_body_sends:
  assumes "send_body io w gate cl = (r, gate', cl')"
  shows "(sent cl' = sent cl \<and> (\<exists>e. r = Inl e) \<or>
      sent_one io w gate cl cl' \<and> (\<forall>e. r = Inl e \<longrightarrow> is_TechnocoreError e)) \<and>
    (gate' = None) = (gate = None) \<and> client_host cl' = client_host cl \<and> base_url cl' = base_url cl"
proof (cases "write_verifies (backend io) w = Inr True")
  case False
  then have "write_verifies (backend io) w = Inr False \<or> (\<exists>e. write_verifies (backend io) w = Inl e)"
    by (cases "write_verifies (backend io) w") auto
  then show ?thesis using assms by (auto simp: send_body_def)
next
  case True
  obtain r1 gate1 where g: "assert_write_allowed io cl w gate = (r1, gate1)"
    by (cases "assert_write_allowed io cl w gate")
  note shape = assert_write_allowed_shape [OF g]
  show ?thesis
  proof (cases r1)
    case (Inl e)
    then show ?thesis using assms shape by (auto simp: send_body_def True g)
  next
    case (Inr u)
    with g have allowed: "write_allowed io cl w gate" by (simp add: assert_write_allowed_Inr)
    obtain r2 cl1 where a: "acquire_write io cl = (r2, cl1)" by (cases "acquire_write io cl")
    note fields = acquire_write_fields [OF a]
    show ?thesis
    proof (cases r2)
      case (Inl e)
      then show ?thesis using assms shape fields by (auto simp: send_body_def True g Inr a)
    next
      case r2: (Inr u')
      show ?thesis
      proof (cases "write_path w")
        case (Inl e)
        then show ?thesis using assms shape fields by (auto simp: send_body_def True g Inr a r2)
      next
        case path: (Inr path)
        obtain r3 cl2 where f: "fetch io (base_url cl1 @ path, []) cl1 = (r3, cl2)"
          by (cases "fetch io (base_url cl1 @ path, []) cl1")
        have "cl' = cl2" "gate' = gate1" "\<forall>e. r = Inl e \<longrightarrow> is_TechnocoreError e"
          using assms by (auto simp: send_body_def True g Inr a r2 path f split: http_result.splits if_splits)
        then show ?thesis
          using fields fetch_fields [OF f] shape allowed True path by (auto simp: sent_one_def)
      qed
    qed
  qed
qed

section \<open>Properties of writes\<close>

text \<open>
  C5. A request leaves only when everything allows it. Whatever \<open>send_signed_message\<close>
  answers, either nothing was sent and it raised, or exactly one request was: to the
  path of the write, whose signature verifies, with a public host only through an open
  gate bound to this host, room, nonce and text, and without a gate only to a loopback
  host with local writes switched on. The gate is closed afterwards in every case.
\<close>

theorem write_leaves_only_when_allowed:
  assumes "send_signed_message io w gate cl = (r, gate', cl')"
  shows "(sent cl' = sent cl \<and> (\<exists>e. r = Inl e) \<or>
      write_verifies (backend io) w = Inr True \<and>
      (case gate of
         Some g \<Rightarrow> is_public cl \<and> gate_admits (client_host cl) w g
       | None \<Rightarrow> \<not> is_public cl \<and> is_loopback cl \<and>
           map_of (os_environ io) WRITE_ENABLE_ENV = Some (str_lit ''1'')) \<and>
      (\<exists>path. write_path w = Inr path \<and> sent cl' = sent cl @ [(base_url cl @ path, [])])) \<and>
    (case gate' of None \<Rightarrow> gate = None | Some g \<Rightarrow> gate \<noteq> None \<and> gate_closed g)"
proof -
  obtain r1 gate1 cl1 where b: "send_body io w gate cl = (r1, gate1, cl1)" by (metis prod_cases3)
  then have "r = r1" "gate' = map_option close_gate gate1" "cl' = cl1"
    using assms by (auto simp: send_signed_message_def)
  then show ?thesis
    using send_body_sends [OF b] by (cases gate1) (auto simp: sent_one_def write_allowed_def close_gate_def)
qed

text \<open>Several attempts with one gate: by any clients, at any time, with any writes.\<close>

fun attempts ::
  "'key io \<Rightarrow> (TechnocoreClient \<times> SignedWrite) list \<Rightarrow> OneTimePublicWriteGate \<Rightarrow>
     nat \<times> OneTimePublicWriteGate" where
  "attempts io [] g = (0, g)"
| "attempts io ((cl, w) # rest) g =
     (case send_signed_message io w (Some g) cl of
        (r, gate', cl') \<Rightarrow>
          (let g' = (case gate' of Some g' \<Rightarrow> g' | None \<Rightarrow> g); (n, g'') = attempts io rest g'
           in (length (sent cl') - length (sent cl) + n, g'')))"

lemma closed_gate_sends_nothing:
  assumes "gate_closed g" and "send_signed_message io w (Some g) cl = (r, gate', cl')"
  shows "sent cl' = sent cl \<and> (\<exists>g'. gate' = Some g' \<and> gate_closed g')"
proof -
  obtain r1 gate1 cl1 where b: "send_body io w (Some g) cl = (r1, gate1, cl1)" by (metis prod_cases3)
  with assms(2) have "gate' = map_option close_gate gate1" "cl' = cl1"
    by (auto simp: send_signed_message_def)
  moreover have "\<not> sent_one io w (Some g) cl cl1"
    using assms(1) by (simp add: sent_one_def write_allowed_def gate_admits_def)
  ultimately show ?thesis
    using send_body_sends [OF b] by (cases gate1) (auto simp: close_gate_def)
qed

lemma closed_attempts: "gate_closed g \<Longrightarrow> fst (attempts io tries g) = 0"
proof (induction tries arbitrary: g)
  case (Cons t tries)
  obtain cl w where t: "t = (cl, w)" by (cases t)
  obtain r gate' cl' where s: "send_signed_message io w (Some g) cl = (r, gate', cl')"
    by (metis prod_cases3)
  from closed_gate_sends_nothing [OF Cons.prems s] obtain g' where
    "sent cl' = sent cl" "gate' = Some g'" "gate_closed g'" by blast
  with Cons.IH [of g'] show ?case by (simp add: t s split: prod.splits)
qed simp

text \<open>
  C25. The gate is good for one request. However often it is presented, with whatever
  writes and clients, at most one request leaves, because the first attempt closes it
  whether or not it succeeds.
\<close>

theorem gate_opens_once:
  "fst (attempts io tries g) \<le> 1"
proof (cases tries)
  case (Cons t rest)
  obtain cl w where t: "t = (cl, w)" by (cases t)
  obtain r1 gate1 cl1 where b: "send_body io w (Some g) cl = (r1, gate1, cl1)" by (metis prod_cases3)
  then have s: "send_signed_message io w (Some g) cl = (r1, map_option close_gate gate1, cl1)"
    by (simp add: send_signed_message_def)
  from send_body_sends [OF b] obtain g1 where "gate1 = Some g1"
    and "length (sent cl1) \<le> length (sent cl) + 1" by (auto simp: sent_one_def)
  moreover have "gate_closed (close_gate g1)" by (simp add: close_gate_def)
  moreover obtain n g2 where "attempts io rest (close_gate g1) = (n, g2)"
    by (cases "attempts io rest (close_gate g1)")
  ultimately show ?thesis
    using closed_attempts [of "close_gate g1" io rest] by (simp add: Cons t s)
qed simp

section \<open>The path of a write\<close>

lemma split_on_none: "sep \<notin> set s \<Longrightarrow> split_on sep s = [s]"
  by (induction s) auto

lemma split_on_sep: "sep \<notin> set s \<Longrightarrow> split_on sep (s @ sep # t) = s # split_on sep t"
  by (induction s) auto

lemma segment_facts:
  assumes "encode_path_segment (VStr s) = Inr q"
  shows "47 \<notin> set q" "decode_path_segment (VStr q) = Inr s"
proof -
  from assms have q: "quote s = Inr q" by (auto simp: encode_path_segment_def rbind_eq_Inr)
  show "47 \<notin> set q" using quote_not_structural [OF q, of 47] by (auto simp: url_structural_def)
  show "decode_path_segment (VStr q) = Inr s" using unquote_quote [OF q] by (simp add: decode_path_segment_def as_str_def)
qed

lemma json_int_no_slash: "json_int i = Inr t \<Longrightarrow> 47 \<notin> set t"
  using set_dec [of 47] by (auto simp: json_int_def py_str_nat_Inr rbind_eq_Inr split: if_splits)

text \<open>
  C29. The path of a write says exactly what the write says. Split at its slashes it has
  the eight parts of the endpoint, and the parts that carry fields decode to the room,
  the identity, the signature and the text: no field can add or remove a part.
\<close>

theorem write_path_round_trip:
  assumes "write_path w = Inr path"
  shows "\<exists>room did_text sig nonce swept.
    split_on 47 path = [[], str_lit ''r'', room, str_lit ''say-signed'', did_text, sig, nonce, swept] \<and>
    decode_path_segment (VStr room) = Inr (sw_room w) \<and>
    decode_path_segment (VStr did_text) = Inr (sw_did w) \<and>
    decode_path_segment (VStr sig) = Inr (sw_signature w) \<and>
    json_int (sw_nonce w) = Inr nonce \<and>
    decode_path_segment (VStr swept) = Inr (sw_swept_text w)"
proof -
  from assms obtain room did_text sig nonce swept where
    parts: "encode_path_segment (VStr (sw_room w)) = Inr room"
      "encode_path_segment (VStr (sw_did w)) = Inr did_text"
      "encode_path_segment (VStr (sw_signature w)) = Inr sig"
      "json_int (sw_nonce w) = Inr nonce" "encode_path_segment (VStr (sw_swept_text w)) = Inr swept"
    and path: "path = str_lit ''/r/'' @ room @ str_lit ''/say-signed/'' @ did_text @ 47 # sig @ 47 # nonce @
      47 # swept"
    by (auto simp: write_path_def rbind_eq_Inr simp del: str_lit_Cons)
  note seg = segment_facts [OF parts(1)] segment_facts [OF parts(2)] segment_facts [OF parts(3)]
    segment_facts [OF parts(5)]
  have "path = [] @ 47 # str_lit ''r'' @ 47 # room @ 47 # str_lit ''say-signed'' @ 47 # did_text @ 47 #
      sig @ 47 # nonce @ 47 # swept"
    by (simp add: path)
  then have "split_on 47 path =
      [[], str_lit ''r'', room, str_lit ''say-signed'', did_text, sig, nonce, swept]"
    using seg json_int_no_slash [OF parts(4)]
    by (simp only: split_on_sep split_on_none list.set empty_iff not_False_eq_True) (simp add: split_on_sep split_on_none)
  with seg parts(4) show ?thesis by blast
qed

text \<open>
  Quoting keeps dots, and \<open>validate_room\<close> accepts the room \<open>..\<close>: its write has a
  dot segment in the path, which URL normalisation removes together with the part before it.
\<close>

lemma dot_room_is_a_dot_segment:
  "validate_room (VStr (str_lit ''..'')) = Inr (str_lit ''..'')"
  "encode_path_segment (VStr (str_lit ''..'')) = Inr (str_lit ''..'')"
  by (simp_all add: validate_room_Inr eval_canonical encode_path_segment_def quote_def utf8_encode_def
      utf8_char_def quote_byte_def always_safe_def as_str_def reject_untrusted_def)

section \<open>Building a write\<close>

text \<open>
  \<open>build_signed_message\<close> returns a write exactly when the canonical payload of the
  arguments exists and the signer signs it; the payload is the one the signature
  covers and the write verifies. With a signer in a proper state the check of its
  own signature never fails.
\<close>

theorem built_writes_verify:
  assumes "ed25519_ok c" and "signer_ok c s"
  shows "build_signed_message c s room nonce text = Inr w \<longleftrightarrow>
    (\<exists>r n p sig. room = VStr r \<and> nonce = VInt n \<and>
       message_payload room nonce (VStr text) DEFAULT_SWEEP False = Inr p \<and>
       signer_sign c s (VBytes p) = Inr sig \<and>
       w = \<lparr>sw_did = did (signer_did s), sw_room = r, sw_nonce = n, sw_text = text,
            sw_swept_text = sweep_text DEFAULT_SWEEP text, sw_signature = sig, sw_payload = p\<rparr> \<and>
       write_verifies c w = Inr True)" (is "?L = ?R")
proof
  have verifies: "write_verifies c \<lparr>sw_did = did (signer_did s), sw_room = r, sw_nonce = n, sw_text = text,
      sw_swept_text = sweep_text DEFAULT_SWEEP text, sw_signature = sig, sw_payload = p\<rparr> = Inr True"
    if "message_payload (VStr r) (VInt n) (VStr text) DEFAULT_SWEEP False = Inr p"
      and "signer_sign c s (VBytes p) = Inr sig" for r n p sig
    using that signer_sign_verifies [OF assms that(2)]
    by (simp add: write_verifies_def verify_message_rebuilt message_payload_resweep)
  show "?L \<Longrightarrow> ?R"
    using verifies
    by (auto simp: build_signed_message_def rbind_eq_Inr validator_simps message_payload_swept Let_def
        split: if_splits)
  assume ?R
  then obtain r n p sig where v: "room = VStr r" "nonce = VInt n"
    and p: "message_payload (VStr r) (VInt n) (VStr text) DEFAULT_SWEEP False = Inr p"
    and sig: "signer_sign c s (VBytes p) = Inr sig"
    and w: "w = \<lparr>sw_did = did (signer_did s), sw_room = r, sw_nonce = n, sw_text = text,
            sw_swept_text = sweep_text DEFAULT_SWEEP text, sw_signature = sig, sw_payload = p\<rparr>"
    by auto
  have "validate_room room = Inr r" "validate_nonce nonce = Inr n"
    using p by (auto simp: v validator_simps message_payload_Inr)
  moreover have "message_payload (VStr r) (VInt n) (VStr (sweep_text DEFAULT_SWEEP text)) DEFAULT_SWEEP True = Inr p"
    using p by (simp add: message_payload_swept)
  ultimately show ?L
    using sig verifies [OF p sig] by (simp add: build_signed_message_def Let_def w)
qed

section \<open>What a read returns\<close>

lemma to_message_Inr:
  "to_message io room (JObj ms) = Inr m \<longleftrightarrow>
     (\<exists>v n. recheck io room (py_or (get ms ''from'') (get ms ''did''))
              (py_or (get ms ''sig'') (get ms ''signature'')) (get ms ''nonce'')
              (str_of (runtime_of io) (get_or ms ''text'' (JStr []))) = Inr v \<and>
        message_nonce (get ms ''nonce'') = Inr n \<and>
        m = \<lparr>um_room = room, um_seq = get ms ''seq'', um_ts = get ms ''ts'',
             um_text = wrap (str_of (runtime_of io) (get_or ms ''text'' (JStr []))),
             um_did = str_if (runtime_of io) (py_or (get ms ''from'') (get ms ''did'')),
             um_nick = str_if (runtime_of io) (get ms ''nick''),
             um_signature = str_if (runtime_of io) (py_or (get ms ''sig'') (get ms ''signature'')),
             um_nonce = n, um_verified = v,
             um_signature_returned = truthy (py_or (get ms ''sig'') (get ms ''signature'')), um_raw = ms\<rparr>)"
  by (auto simp: to_message_def Let_def rbind_eq_Inr)

lemma recheck_True:
  "recheck io room author signature nonce text = Inr True \<longleftrightarrow>
     truthy author \<and> truthy signature \<and> nonce \<noteq> JNull \<and>
     (\<exists>n. int_of (runtime_of io) nonce = Inr n \<and>
        verify_message (backend io) (VStr (str_of (runtime_of io) author))
          (VStr (str_of (runtime_of io) signature)) (VStr room) (VInt n) (VStr text) = Inr True)"
  by (cases "int_of (runtime_of io) nonce")
    (auto simp: recheck_def split: sum.splits if_splits)

text \<open>
  C26. \<open>verified\<close> is never the server's word. A message comes back verified only if the
  record held an author, a signature and a nonce under which \<open>verify_message\<close>, run
  here on the text shown, accepted; then author and signature are those stored.
\<close>

theorem verified_means_checked_here:
  assumes "to_message io room item = Inr m" and "um_verified m"
  shows "\<exists>author signature n. um_did m = Some author \<and> um_signature m = Some signature \<and>
    um_signature_returned m \<and> um_room m = room \<and>
    verify_message (backend io) (VStr author) (VStr signature) (VStr room) (VInt n)
      (VStr (ut_raw (um_text m))) = Inr True"
proof (cases "\<exists>ms. item = JObj ms")
  case True
  then obtain ms where item: "item = JObj ms" ..
  from assms(1) [unfolded item to_message_Inr] assms(2)
  have "recheck io room (py_or (get ms ''from'') (get ms ''did''))
      (py_or (get ms ''sig'') (get ms ''signature'')) (get ms ''nonce'')
      (str_of (runtime_of io) (get_or ms ''text'' (JStr []))) = Inr True"
    by auto
  from this [unfolded recheck_True] assms(1) [unfolded item to_message_Inr] show ?thesis
    by (auto simp: str_if_def wrap_def)
next
  case False
  with assms show ?thesis by (cases item) (auto simp: to_message_def)
qed

text \<open>A record that the parser cannot finish, and why.\<close>

lemma to_message_bad_nonce:
  assumes "map_of ms (str_lit ''nonce'') = Some (JStr s)" and "isdigit s" and "int_of_str s = Inl e"
    and "\<not> truthy (py_or (get ms ''sig'') (get ms ''signature''))"
  shows "to_message io room (JObj ms) = Inl e"
proof -
  have "get ms ''nonce'' = JStr s" using assms(1) by (simp add: get_or_def)
  then have "message_nonce (get ms ''nonce'') = Inl e"
    using assms(2,3) by (simp add: message_nonce_def)
  moreover have "recheck io room author (py_or (get ms ''sig'') (get ms ''signature'')) nonce text = Inr False"
    for author nonce "text" using assms(4) by (simp add: recheck_def)
  ultimately show ?thesis by (simp add: to_message_def Let_def)
qed

lemma to_messages_stops:
  "item \<in> set items \<Longrightarrow> to_message io room item = Inl e \<Longrightarrow> \<exists>e'. to_messages io room items = Inl e'"
proof (induction items)
  case (Cons i items)
  then show ?case
    by (cases "to_message io room i"; cases "to_messages io room items") auto
qed simp

text \<open>
  One message can make a room unreadable. A record whose nonce is a string of
  characters that \<open>isdigit\<close> accepts and \<open>int()\<close> does not, such as a superscript two,
  raises outside the guarded part of \<open>_to_message\<close>: whatever else the room holds,
  \<open>read_room\<close> then returns no message at all.
\<close>

theorem one_message_blocks_the_room:
  assumes "http_get io (str_lit ''/r/'' @ seg)
      ((str_lit ''format'', str_lit ''json'') # int_param ''since'' since @ int_param ''limit'' limit) cl =
      (Inr resp, cl')"
    and "validate_room (VStr room) = Inr room" and "encode_path_segment (VStr room) = Inr seg"
    and "body_json resp = Some (JArr items)"
    and "JObj ((str_lit ''nonce'', JStr [0xB2]) # ms) \<in> set items"
    and "map_of ms (str_lit ''sig'') = None" and "map_of ms (str_lit ''signature'') = None"
  shows "\<exists>e. read_room io (VStr room) since limit cl = (Inl e, cl')"
proof -
  have "\<not> truthy (py_or (get ((str_lit ''nonce'', JStr [0xB2]) # ms) ''sig'')
      (get ((str_lit ''nonce'', JStr [0xB2]) # ms) ''signature''))"
    using assms(6,7) by (simp add: py_or_def get_or_def)
  then have "to_message io room (JObj ((str_lit ''nonce'', JStr [0xB2]) # ms)) = Inl ValueError"
    by (intro to_message_bad_nonce [where s = "[0xB2]"] superscript_two) simp_all
  from to_messages_stops [OF assms(5) this] obtain e where "to_messages io room items = Inl e" ..
  then show ?thesis
    using assms(1-4)
    by (simp add: read_room_def as_json_def list_member_def del: str_lit_Cons)
qed

section \<open>A concrete network\<close>

definition toy_io :: "json \<Rightarrow> unit io" where
  "toy_io answer = \<lparr>backend = toy_backend,
     http = (\<lambda>_ _. HttpAnswers \<lparr>status_code = 200, body_json = Some answer, body_text = [], retry_after = None\<rparr>),
     monotonic = (\<lambda>_ i s. s), os_environ = [(WRITE_ENABLE_ENV, str_lit ''1'')], runtime_of = toy_runtime\<rparr>"

definition full_bucket :: TokenBucket where
  "full_bucket = \<lparr>capacity = 1, refill_per_second = 1, tokens = 1, updated = 0\<rparr>"

definition toy_client :: "pystr \<Rightarrow> TechnocoreClient" where
  "toy_client host = \<lparr>base_url = str_lit ''http://'' @ host, client_host = host,
     budget = \<lparr>reads = full_bucket, writes = full_bucket\<rparr>, sent = []\<rparr>"

lemma acquire_full: "acquire_one (\<lambda>i s. s) full_bucket =
    (Inr (), full_bucket\<lparr>tokens := 0, updated := 0\<rparr>)"
proof -
  have "try_acquire 0 1 full_bucket = (True, full_bucket\<lparr>tokens := 0, updated := 0\<rparr>)"
    by (simp add: try_acquire_def refill_def full_bucket_def)
  then have "acquire (Suc 3001) (\<lambda>i s. s) 1 True 30 full_bucket =
      Some (Inr (), full_bucket\<lparr>tokens := 0, updated := 0\<rparr>)"
    unfolding acquire_def acquire_loop.simps(2) by simp
  then show ?thesis by (simp add: acquire_one_def)
qed

lemma acquire_write_toy:
  "acquire_write (toy_io j) (toy_client host) =
     (Inr (), (toy_client host)\<lparr>budget := \<lparr>reads = full_bucket, writes = full_bucket\<lparr>tokens := 0, updated := 0\<rparr>\<rparr>\<rparr>)"
  by (simp add: acquire_write_def toy_io_def toy_client_def acquire_full)

lemma acquire_read_toy:
  "acquire_read (toy_io j) (toy_client host) =
     (Inr (), (toy_client host)\<lparr>budget := \<lparr>reads = full_bucket\<lparr>tokens := 0, updated := 0\<rparr>, writes = full_bucket\<rparr>\<rparr>)"
  by (simp add: acquire_read_def toy_io_def toy_client_def acquire_full)

lemma sixty_four: "replicate 64 x = [x, x, x, x, x, x, x, x, x, x, x, x, x, x, x, x, x, x, x, x, x, x, x, x, x, x, x, x, x, x, x, x, x, x, x, x, x, x, x, x, x, x, x, x, x, x, x, x, x, x, x, x, x, x, x, x, x, x, x, x, x, x, x, x]"
  by (simp add: numeral_eq_Suc)

lemma b64_of_A: "b64_index 65 = Some 0" "from_urlsafe 65 = 65" "from_urlsafe 61 = 61"
  by (simp_all add: b64_index_def from_urlsafe_def B64_ALPHABET_def)

lemma zero_signature_text: "decode_signature (VStr (str_lit ''AAAAAAAAAAAAAAAAAAAAAAAAAAAAAAAAAAAAAAAAAAAAAAAAAAAAAAAAAAAAAAAAAAAAAAAAAAAAAAAAAAAAAA'')) = Inr (replicate 64 0)"
  by (simp add: sixty_four decode_signature_def urlsafe_b64decode_def SIGNATURE_BYTES_def SIGNATURE_CHARS_def PAD_def b64_of_A)

theorem one_message_blocks_the_room_witness:
  "\<exists>e. fst (read_room (toy_io (JArr [JStr [104], JObj [(str_lit ''nonce'', JStr [0xB2])]]))
      (VStr (str_lit ''lobby'')) None None (toy_client (str_lit ''localhost''))) = Inl e"
proof -
  let ?io = "toy_io (JArr [JStr [104], JObj [(str_lit ''nonce'', JStr [0xB2])]])"
  have room: "validate_room (VStr (str_lit ''lobby'')) = Inr (str_lit ''lobby'')"
    by (simp add: validate_room_Inr eval_canonical)
  have seg: "encode_path_segment (VStr (str_lit ''lobby'')) = Inr (str_lit ''lobby'')"
    by (simp add: encode_path_segment_def quote_def utf8_encode_def utf8_char_def quote_byte_def
        always_safe_def as_str_def reject_untrusted_def)
  obtain resp cl' where get: "http_get ?io (str_lit ''/r/'' @ str_lit ''lobby'')
      ((str_lit ''format'', str_lit ''json'') # int_param ''since'' None @ int_param ''limit'' None)
      (toy_client (str_lit ''localhost'')) = (Inr resp, cl')"
    and "body_json resp = Some (JArr [JStr [104], JObj [(str_lit ''nonce'', JStr [0xB2])]])"
    by (simp add: http_get_def acquire_read_toy fetch_def del: str_lit_Cons) (simp add: toy_io_def del: str_lit_Cons)
  from one_message_blocks_the_room [OF get room seg this(2), of "[]"] show ?thesis
    by (auto simp del: str_lit_Cons)
qed

definition toy_write :: SignedWrite where
  "toy_write = \<lparr>sw_did = str_lit ''d'', sw_room = str_lit ''a b'', sw_nonce = 7, sw_text = str_lit ''x/y'',
     sw_swept_text = str_lit ''x/y'', sw_signature = str_lit ''s'', sw_payload = []\<rparr>"

lemma toy_write_path: "write_path toy_write = Inr (str_lit ''/r/a%20b/say-signed/d/s/7/x%2Fy'')"
  by (simp add: write_path_def toy_write_def encode_path_segment_def quote_def utf8_encode_def utf8_char_def
      quote_byte_def always_safe_def hexdigit_upper_def as_str_def reject_untrusted_def json_int_def
      py_str_nat_def dec.simps MAX_STR_DIGITS_def)

theorem write_path_round_trip_witness:
  "\<exists>room swept. split_on 47 (str_lit ''/r/a%20b/say-signed/d/s/7/x%2Fy'') ! 2 = room \<and>
     decode_path_segment (VStr room) = Inr (str_lit ''a b'') \<and>
     decode_path_segment (VStr swept) = Inr (str_lit ''x/y'')"
  using write_path_round_trip [OF toy_write_path] by (auto simp: toy_write_def simp del: str_lit_Cons)

theorem write_leaves_only_when_allowed_witness:
  "sent (snd (snd (send_signed_message (toy_io JNull) toy_write None (toy_client (str_lit ''technocore.chat''))))) = []"
proof -
  obtain r gate' cl' where s: "send_signed_message (toy_io JNull) toy_write None
      (toy_client (str_lit ''technocore.chat'')) = (r, gate', cl')" by (metis prod_cases3)
  have "is_public (toy_client (str_lit ''technocore.chat''))"
    by (simp add: is_public_def toy_client_def PUBLIC_HOSTS_def del: str_lit_Cons)
  moreover have "sent (toy_client h) = []" for h by (simp add: toy_client_def)
  ultimately show ?thesis
    using write_leaves_only_when_allowed [OF s] s by (auto simp del: str_lit_Cons)
qed

lemma toy_signer_ok: "signer_ok toy_backend (EphemeralSigner (toy_handle (str_lit ''k'')))"
  by (simp add: handle_ok_def toy_handle_def toy_backend_def)

theorem built_writes_verify_witness:
  "\<exists>w. build_signed_message toy_backend (EphemeralSigner (toy_handle (str_lit ''k''))) (VStr (str_lit ''room''))
      (VInt 5) (str_lit ''7|v'') = Inr w \<and> write_verifies toy_backend w = Inr True"
proof -
  let ?s = "EphemeralSigner (toy_handle (str_lit ''k''))"
  let ?p = "map word_of_nat (str_lit ''room|5|7|v'')"
  obtain sig where sig: "signer_sign toy_backend ?s (VBytes ?p) = Inr sig"
    using ephemeral_sign_total [OF toy_backend_ok] by blast
  define w where "w = \<lparr>sw_did = did (signer_did ?s), sw_room = str_lit ''room'', sw_nonce = 5,
    sw_text = str_lit ''7|v'', sw_swept_text = sweep_text DEFAULT_SWEEP (str_lit ''7|v''),
    sw_signature = sig, sw_payload = ?p\<rparr>"
  have ok: "write_verifies toy_backend w = Inr True"
  proof -
    have "message_payload (VStr (str_lit ''room'')) (VInt 5)
        (VStr (sweep_text DEFAULT_SWEEP (str_lit ''7|v''))) DEFAULT_SWEEP False = Inr ?p"
      unfolding message_payload_resweep by (rule toy_message)
    then show ?thesis
      unfolding write_verifies_def w_def SignedWrite.select_convs
      by (simp only: verify_message_rebuilt) (rule signer_sign_verifies [OF toy_backend_ok toy_signer_ok sig])
  qed
  have "build_signed_message toy_backend ?s (VStr (str_lit ''room'')) (VInt 5) (str_lit ''7|v'') = Inr w"
    unfolding built_writes_verify [OF toy_backend_ok toy_signer_ok]
    by (rule exI [where x = "str_lit ''room''"], rule exI [where x = 5], rule exI [where x = ?p],
        rule exI [where x = sig]) (intro conjI refl toy_message sig w_def ok)
  with ok show ?thesis by blast
qed

theorem verified_means_checked_here_witness:
  "\<exists>m author signature. to_message (toy_io JNull) (str_lit ''room'') (JObj
       [(str_lit ''from'', JStr toy_did), (str_lit ''sig'', JStr signature),
        (str_lit ''nonce'', JInt 5), (str_lit ''text'', JStr (str_lit ''7|v''))]) = Inr m \<and>
     um_did m = Some author \<and>
     (\<exists>n. verify_message toy_backend (VStr author) (VStr signature) (VStr (str_lit ''room'')) (VInt n)
        (VStr (ut_raw (um_text m))) = Inr True)"
proof -
  obtain t where t: "decode_signature (VStr t) = Inr (replicate 64 0)" using zero_signature ..
  let ?ms = "[(str_lit ''from'', JStr toy_did), (str_lit ''sig'', JStr t),
        (str_lit ''nonce'', JInt 5), (str_lit ''text'', JStr (str_lit ''7|v''))]"
  have gets: "get ?ms ''from'' = JStr toy_did" "get ?ms ''sig'' = JStr t" "get ?ms ''nonce'' = JInt 5"
    "get_or ?ms ''text'' (JStr []) = JStr (str_lit ''7|v'')" "get ?ms ''nick'' = JNull"
    by (simp_all add: get_or_def)
  have "verify toy_backend (VStr toy_did) (VStr t) (VBytes p) = Inr True" for p
    using t toy_did_decodes by (simp add: verify_True_iff toy_backend_def)
  then have verified: "verify_message toy_backend (VStr toy_did) (VStr t) (VStr (str_lit ''room'')) (VInt 5)
      (VStr (str_lit ''7|v'')) = Inr True"
    using toy_message by (simp add: verify_message_rebuilt del: str_lit_Cons)
  have "t \<noteq> []" using t by (auto simp: decode_signature_def SIGNATURE_CHARS_def)
  moreover have "toy_did \<noteq> []" by (simp add: toy_did_def did_key_text_def DID_PREFIX_def)
  ultimately have truths: "truthy (JStr toy_did)" "truthy (JStr t)" by simp_all
  let ?io = "toy_io JNull"
  have io: "backend ?io = toy_backend" by (simp add: toy_io_def)
  have check: "recheck ?io (str_lit ''room'') (JStr toy_did) (JStr t) (JInt 5) (str_lit ''7|v'') = Inr True"
    unfolding recheck_True using truths verified by (simp add: io del: str_lit_Cons)
  have n: "message_nonce (JInt 5) = Inr (Some 5)" by (simp add: message_nonce_def isdigit_str_signed)
  have "\<exists>m. to_message ?io (str_lit ''room'') (JObj ?ms) = Inr m \<and> um_verified m \<and>
      um_signature m = Some t"
    unfolding to_message_def json.case Let_def gets py_or_def if_P [OF truths(1)] if_P [OF truths(2)]
      str_of.simps check n rbind_Inr str_if_def by (intro exI conjI, rule refl) simp_all
  then obtain m where m: "to_message ?io (str_lit ''room'') (JObj ?ms) = Inr m" "um_verified m"
    and "um_signature m = Some t" by blast
  with verified_means_checked_here [OF m] m(1) show ?thesis by (auto simp: io)
qed

end
