(* ===== verification/Outbound.thy ===== *)
theory Outbound
  imports Client LedgerSafety
begin

text \<open>
  \<open>technocore/outbound.py\<close>: intent before the network, result after, and the report of
  the intents without an outcome. The identifiers and times of the records are arguments,
  as in \<open>Ledger\<close>.
\<close>

section \<open>Recording a write\<close>

record OutboundResult =
  or_intent_activity_id :: pystr
  or_result_activity_id :: pystr
  or_delivered :: bool
  or_tc_seq :: "int option"
  or_detail :: "pystr option"

text \<open>An \<open>Activity\<close> with the defaults of its class.\<close>

definition plain_activity :: "pystr \<Rightarrow> pystr \<Rightarrow> pystr \<Rightarrow> Activity" where
  "plain_activity agent_did activity_type occurred_at =
     \<lparr>a_agent_did = agent_did, a_activity_type = activity_type, a_occurred_at = occurred_at,
      a_task_id = None, a_ref_activity_id = None, a_tc_room = None, a_tc_seq = None, a_tc_nonce = None,
      a_signed_payload_hash = None, a_signature = None, a_result_hash = None, a_provider_id = None,
      a_model = None, a_cost_amount = VNone, a_cost_unit = str_NONE, a_meta = None\<rparr>"

definition INTENT :: pystr where "INTENT = str_lit ''technocore.write.intent''"
definition RESULT :: pystr where "RESULT = str_lit ''technocore.write.result''"
definition FAILED :: pystr where "FAILED = str_lit ''technocore.write.failed''"

text \<open>What an append is given besides the activity: its identifier, \<open>recorded_at\<close> and \<open>occurred_at\<close>.\<close>

record stamp =
  st_id :: pystr
  st_recorded :: pystr
  st_occurred :: pystr

definition intent_activity :: "SignedWrite \<Rightarrow> pystr option \<Rightarrow> pystr \<Rightarrow> Activity" where
  "intent_activity w task_id now =
     (plain_activity (sw_did w) INTENT now)
       \<lparr>a_task_id := task_id, a_tc_room := Some (sw_room w), a_tc_nonce := Some (sw_nonce w),
        a_signed_payload_hash := Some (sha256_hex (sw_payload w)), a_signature := Some (sw_signature w),
        a_meta := Some (JObj [(str_lit ''swept_len'', JInt (int (length (sw_swept_text w))))])\<rparr>"

definition record_intent :: "stamp \<Rightarrow> SignedWrite \<Rightarrow> pystr option \<Rightarrow> pystr dbop" where
  "record_intent st w task_id d =
     (case append_activity (st_id st) (st_recorded st) (intent_activity w task_id (st_occurred st)) d of
        (Inl e, d') \<Rightarrow> (Inl e, d')
      | (Inr rec, d') \<Rightarrow> (Inr (lr_activity_id rec), d'))"

text \<open>\<open>type(exc).__name__\<close> and \<open>str(exc)\<close> of the two classes that are caught.\<close>

fun exc_name :: "exn \<Rightarrow> pystr" where
  "exc_name (PublicWriteRefused _) = str_lit ''PublicWriteRefused''"
| "exc_name _ = str_lit ''TechnocoreError''"

fun exc_text :: "exn \<Rightarrow> pystr" where
  "exc_text (TechnocoreError s) = s"
| "exc_text (PublicWriteRefused s) = s"
| "exc_text _ = []"

definition failure_activity ::
  "SignedWrite \<Rightarrow> pystr option \<Rightarrow> pystr \<Rightarrow> exn \<Rightarrow> pystr \<Rightarrow> Activity" where
  "failure_activity w task_id intent_id e now =
     (plain_activity (sw_did w) FAILED now)
       \<lparr>a_task_id := task_id, a_ref_activity_id := Some intent_id, a_tc_room := Some (sw_room w),
        a_tc_nonce := Some (sw_nonce w), a_signature := Some (sw_signature w),
        a_meta := Some (JObj [(str_lit ''error'', JStr (exc_name e)),
                              (str_lit ''detail'', JStr (take 300 (exc_text e)))])\<rparr>"

text \<open>\<open>int(seq) if isinstance(seq, int) else None\<close>; a \<open>bool\<close> is an \<open>int\<close>.\<close>

fun seq_of :: "json \<Rightarrow> int option" where
  "seq_of (JInt i) = Some i"
| "seq_of (JBool b) = Some (if b then 1 else 0)"
| "seq_of _ = None"

definition response_seq :: "json \<Rightarrow> json" where
  "response_seq response = (case response of JObj ms \<Rightarrow> get ms ''seq'' | _ \<Rightarrow> JNull)"

text \<open>\<open>items_repr\<close> is \<open>repr(sorted(response.items()))\<close>.\<close>

definition response_digest ::
  "((pystr \<times> json) list \<Rightarrow> pystr) \<Rightarrow> json \<Rightarrow> exn + pystr option" where
  "response_digest items_repr response =
     (case response of
        JObj ms \<Rightarrow> rbind (utf8_encode (items_repr ms)) (\<lambda>b. Inr (Some (sha256_hex b)))
      | _ \<Rightarrow> Inr None)"

definition result_activity ::
  "SignedWrite \<Rightarrow> pystr option \<Rightarrow> pystr \<Rightarrow> int option \<Rightarrow> pystr option \<Rightarrow> pystr \<Rightarrow> Activity" where
  "result_activity w task_id intent_id seq digest now =
     (plain_activity (sw_did w) RESULT now)
       \<lparr>a_task_id := task_id, a_ref_activity_id := Some intent_id, a_tc_room := Some (sw_room w),
        a_tc_seq := map_option SeqInt seq, a_tc_nonce := Some (sw_nonce w),
        a_signature := Some (sw_signature w), a_result_hash := digest\<rparr>"

definition send_and_record ::
  "'key io \<Rightarrow> ((pystr \<times> json) list \<Rightarrow> pystr) \<Rightarrow> stamp \<Rightarrow> stamp \<Rightarrow> SignedWrite \<Rightarrow> pystr option \<Rightarrow>
     TechnocoreClient \<Rightarrow> db \<Rightarrow> (exn + OutboundResult) \<times> db \<times> TechnocoreClient" where
  "send_and_record io items_repr st1 st2 w task_id cl d =
     (case record_intent st1 w task_id d of
        (Inl e, d1) \<Rightarrow> (Inl e, d1, cl)
      | (Inr intent_id, d1) \<Rightarrow>
          (case send_signed_message io w None cl of
             (Inl e, _, cl') \<Rightarrow>
               if is_TechnocoreError e then
                 (case append_activity (st_id st2) (st_recorded st2)
                        (failure_activity w task_id intent_id e (st_occurred st2)) d1 of
                    (Inl e', d2) \<Rightarrow> (Inl e', d2, cl')
                  | (Inr rec, d2) \<Rightarrow>
                      (Inr \<lparr>or_intent_activity_id = intent_id, or_result_activity_id = lr_activity_id rec,
                            or_delivered = False, or_tc_seq = None, or_detail = Some (exc_text e)\<rparr>, d2, cl'))
               else (Inl e, d1, cl')
           | (Inr response, _, cl') \<Rightarrow>
               (let seq = seq_of (response_seq response) in
                case response_digest items_repr response of
                  Inl e \<Rightarrow> (Inl e, d1, cl')
                | Inr digest \<Rightarrow>
                    (case append_activity (st_id st2) (st_recorded st2)
                           (result_activity w task_id intent_id seq digest (st_occurred st2)) d1 of
                       (Inl e', d2) \<Rightarrow> (Inl e', d2, cl')
                     | (Inr rec, d2) \<Rightarrow>
                         (Inr \<lparr>or_intent_activity_id = intent_id, or_result_activity_id = lr_activity_id rec,
                               or_delivered = True, or_tc_seq = seq, or_detail = None\<rparr>, d2, cl')))))"

definition has_outcome :: "db \<Rightarrow> row \<Rightarrow> bool" where
  "has_outcome d i \<longleftrightarrow> list_ex (\<lambda>r. r_ref_activity_id r = Some (r_activity_id i) \<and>
     (r_activity_type r = RESULT \<or> r_activity_type r = FAILED)) (activities d)"

definition dangling_intents :: "db \<Rightarrow> pystr list" where
  "dangling_intents d =
     map r_activity_id (filter (\<lambda>i. r_activity_type i = INTENT \<and> \<not> has_outcome d i) (select_ordered d))"

section \<open>Facts about appended records\<close>

text \<open>How the new record relates to its activity and to the records before it.\<close>

definition record_of :: "Activity \<Rightarrow> pystr \<Rightarrow> row \<Rightarrow> bool" where
  "record_of a i r \<longleftrightarrow> r_activity_id r = i \<and> r_activity_type r = a_activity_type a \<and>
     r_ref_activity_id r = a_ref_activity_id a \<and> r_agent_did r = a_agent_did a \<and>
     r_tc_room r = a_tc_room a \<and> r_tc_nonce r = a_tc_nonce a \<and>
     r_tc_seq r = map_option seq_int (a_tc_seq a) \<and> r_signature r = a_signature a \<and>
     r_signed_payload_hash r = a_signed_payload_hash a \<and> r_result_hash r = a_result_hash a"

lemma append_result:
  assumes "ledger_kept h d" and "append_activity i t a d = (Inr lr, d')"
  obtains r where "activities d' = activities d @ [r]" "record_of a i r" "lr_activity_id lr = i"
    "i \<notin> r_activity_id ` set (activities d)" "nonces d' = nonces d" "locked d' = locked d"
    "\<forall>k. a_ref_activity_id a = Some k \<longrightarrow> k \<in> r_activity_id ` set (activities d)"
proof -
  obtain m where "append_body i t m a d = (Inr lr, d')"
    using assms(2) append_activity_Inr by blast
  from this [unfolded append_body_eq [OF assms(1)]] obtain h where
    ref: "ref_exists (a_ref_activity_id a) d = Inr ()"
    and ins: "insert_activity ((next_row i t m a (activities d))\<lparr>r_entry_hash := h\<rparr>) d = (Inr (), d')"
    and lr: "lr_activity_id lr = i"
    by (auto simp: Let_def rbind_eq_Inr split: sum.splits prod.splits)
  let ?r = "(next_row i t m a (activities d))\<lparr>r_entry_hash := h\<rparr>"
  have "\<forall>k. a_ref_activity_id a = Some k \<longrightarrow> k \<in> r_activity_id ` set (activities d)"
    using ref by (force simp: ref_exists_def rbind_eq_Inr select_by_id_def find_Some_iff)
  moreover have "record_of a i ?r" by (simp add: record_of_def next_row_def activity_row_def)
  moreover have "activities d' = activities d @ [?r]" "nonces d' = nonces d" "locked d' = locked d"
    "unique_ok ?r (activities d)"
    using ins by (simp_all add: insert_activity_Inr)
  moreover have "i \<notin> r_activity_id ` set (activities d)"
    using calculation by (auto simp: unique_ok_def record_of_def)
  ultimately show thesis using that lr by blast
qed

text \<open>
  What the writers of records rely on: an append either changes nothing and raises, or
  adds one record that says what it was given, under a new identifier, and touches
  nothing else; it keeps the store consistent when the record is plain.
\<close>

locale record_log =
  fixes put :: "'a \<Rightarrow> 'd \<Rightarrow> (exn + 'r) \<times> 'd"
    and stored :: "'d \<Rightarrow> 'row list"
    and good :: "'d \<Rightarrow> bool"
    and plain :: "'a \<Rightarrow> bool"
    and records :: "'a \<Rightarrow> 'r \<Rightarrow> 'row \<Rightarrow> bool"
    and fresh :: "'a \<Rightarrow> 'row list \<Rightarrow> bool"
    and frame :: "'d \<Rightarrow> 'f"
  assumes put_refused: "put a d = (Inl e, d') \<Longrightarrow> d' = d"
    and put_recorded: "good d \<Longrightarrow> put a d = (Inr r, d') \<Longrightarrow>
      \<exists>x. stored d' = stored d @ [x] \<and> records a r x \<and> fresh a (stored d) \<and> frame d' = frame d"
    and put_good: "good d \<Longrightarrow> plain a \<Longrightarrow> put a d = (Inr r, d') \<Longrightarrow> good d'"
begin

lemma put_cases:
  assumes "good d" and "put a d = (res, d')"
  obtains (refused) e where "res = Inl e" "d' = d"
  | (recorded) r x where "res = Inr r" "stored d' = stored d @ [x]" "records a r x" "fresh a (stored d)"
      "frame d' = frame d" "plain a \<Longrightarrow> good d'"
  using assms put_refused put_recorded put_good by (cases res) metis+

lemma put_grows: "good d \<Longrightarrow> put a d = (res, d') \<Longrightarrow> \<exists>xs. stored d' = stored d @ xs \<and> length xs \<le> 1"
  by (cases rule: put_cases) auto

end

interpretation ledger_log: record_log "\<lambda>(i, t, a). append_activity i t a" activities "ledger_kept h"
  "\<lambda>(i, t, a). h \<longrightarrow> plain_seq a" "\<lambda>(i, t, a) lr r. record_of a i r \<and> lr_activity_id lr = i"
  "\<lambda>(i, t, a) rows. i \<notin> r_activity_id ` set rows" nonces for h
proof (unfold_locales, goal_cases)
  case (1 a d e d')
  then show ?case using append_activity_Inl by (auto split: prod.splits)
next
  case (2 d a r d')
  then show ?case by (auto split: prod.splits elim!: append_result)
next
  case (3 d a r d')
  then show ?case using append_keeps_ledger by (auto split: prod.splits)
qed

text \<open>The references of a consistent table point to its own records.\<close>

lemma rows_ok_refs:
  "rows_ok rows \<Longrightarrow> r \<in> set rows \<Longrightarrow> r_ref_activity_id r = Some k \<Longrightarrow> k \<in> r_activity_id ` set rows"
  by (induction rows) (auto simp: ref_ok_def)

lemma ledger_kept_refs: "ledger_kept h d \<Longrightarrow> r \<in> set (activities d) \<Longrightarrow> r_ref_activity_id r = Some k \<Longrightarrow>
    k \<in> r_activity_id ` set (activities d)"
  using rows_ok_refs [of "rev (activities d)" r k] by (simp add: ledger_kept_def db_ok_def)

lemma dangling_iff:
  "k \<in> set (dangling_intents d) \<longleftrightarrow>
     (\<exists>i \<in> set (activities d). r_activity_id i = k \<and> r_activity_type i = INTENT \<and> \<not> has_outcome d i)"
  by (auto simp: dangling_intents_def)

lemma types_distinct [simp]: "INTENT \<noteq> RESULT" "INTENT \<noteq> FAILED" "RESULT \<noteq> FAILED"
  "RESULT \<noteq> INTENT" "FAILED \<noteq> INTENT" "FAILED \<noteq> RESULT"
  by (simp_all add: INTENT_def RESULT_def FAILED_def)

section \<open>What a recorded write leaves behind\<close>

lemma activity_fields [simp]:
  "a_activity_type (intent_activity w task now) = INTENT" "a_ref_activity_id (intent_activity w task now) = None"
  "a_activity_type (failure_activity w task k e now) = FAILED"
  "a_ref_activity_id (failure_activity w task k e now) = Some k"
  "a_activity_type (result_activity w task k seq h now) = RESULT"
  "a_ref_activity_id (result_activity w task k seq h now) = Some k"
  by (simp_all add: intent_activity_def failure_activity_def result_activity_def plain_activity_def)

lemma activities_plain [simp]: "plain_seq (intent_activity w task now)"
  "plain_seq (failure_activity w task k e now)" "plain_seq (result_activity w task k seq h now)"
  by (cases seq; simp add: plain_seq_def intent_activity_def failure_activity_def result_activity_def
      plain_activity_def)+

lemma record_intent_cases:
  assumes "ledger_kept h d" and "record_intent st w task d = (r, d1)"
  obtains (refused) e where "r = Inl e" "d1 = d"
  | (recorded) i where "r = Inr (st_id st)" "activities d1 = activities d @ [i]" "ledger_kept h d1"
      "record_of (intent_activity w task (st_occurred st)) (st_id st) i" "st_id st \<in> set (dangling_intents d1)"
      "nonces d1 = nonces d"
proof -
  let ?a = "(st_id st, st_recorded st, intent_activity w task (st_occurred st))"
  obtain res d2 where a: "(\<lambda>(i, t, a). append_activity i t a) ?a d = (res, d2)"
    by (cases "(\<lambda>(i, t, a). append_activity i t a) ?a d")
  from assms(1) a show thesis
  proof (cases rule: ledger_log.put_cases)
    case (refused e)
    with a assms(2) show thesis by (intro that(1)) (auto simp: record_intent_def)
  next
    case (recorded lr i)
    then have i: "record_of (snd (snd ?a)) (st_id st) i" by simp
    have "\<not> has_outcome d2 i"
      using i recorded ledger_kept_refs [OF assms(1)] by (auto simp: has_outcome_def list_ex_iff record_of_def)
    then have "st_id st \<in> set (dangling_intents d2)"
      using i recorded(2) by (auto simp: dangling_iff record_of_def)
    then show thesis
      using that(2) recorded a assms(2) by (simp add: record_intent_def)
  qed
qed

lemma record_intent_fresh:
  assumes "ledger_kept h d" and "record_intent st w task d = (Inr k, d1)"
  shows "st_id st \<notin> r_activity_id ` set (activities d)"
proof -
  from assms(2) obtain lr where
    ap: "append_activity (st_id st) (st_recorded st) (intent_activity w task (st_occurred st)) d = (Inr lr, d1)"
    by (auto simp: record_intent_def split: prod.splits sum.splits)
  from assms(1) ap show ?thesis by (rule append_result)
qed

lemma write_leaves_or_not:
  "send_signed_message io w None cl = (r, g, cl') \<Longrightarrow>
     sent cl' = sent cl \<and> (\<exists>e. r = Inl e) \<or>
     length (sent cl') = length (sent cl) + 1 \<and> (\<forall>e. r = Inl e \<longrightarrow> is_TechnocoreError e)"
  using send_body_sends [of io w None cl]
  by (fastforce simp: send_signed_message_def sent_one_def split: prod.splits)

text \<open>The shape of the ledger after the outcome was appended too.\<close>

definition linked_pair :: "db \<Rightarrow> db \<Rightarrow> SignedWrite \<Rightarrow> pystr \<Rightarrow> pystr \<Rightarrow> bool \<Rightarrow> bool" where
  "linked_pair d d' w k k' delivered \<longleftrightarrow>
     (\<exists>i r. activities d' = activities d @ [i, r] \<and> r_activity_id i = k \<and> r_activity_id r = k' \<and>
        r_activity_type i = INTENT \<and> r_signed_payload_hash i = Some (sha256_hex (sw_payload w)) \<and>
        r_activity_type r = (if delivered then RESULT else FAILED) \<and> r_ref_activity_id r = Some k)"

text \<open>Appending raises no error of the network.\<close>

lemma render_error:
  "(\<forall>e. render j = Inl e \<longrightarrow> \<not> is_TechnocoreError e)"
  "(\<forall>e. render_items js = Inl e \<longrightarrow> \<not> is_TechnocoreError e)"
  "(\<forall>e. render_members ms = Inl e \<longrightarrow> \<not> is_TechnocoreError e)"
  by (induction j and js and ms rule: render_render_items_render_members.induct)
    (auto simp: rbind_def json_int_def py_str_nat_def Let_def split: sum.splits if_splits)

lemma utf8_error: "utf8_encode s = Inl e \<Longrightarrow> e = UnicodeEncodeError"
  by (auto simp: utf8_encode_def split: option.splits)

lemma dumps_error: "dumps j = Inl e \<Longrightarrow> \<not> is_TechnocoreError e"
  using render_error(1) by (simp add: dumps_def)

lemma entry_hash_error: "unsaved_entry_hash seq r = Inl e \<Longrightarrow> \<not> is_TechnocoreError e"
  by (auto simp: unsaved_entry_hash_def compute_entry_hash_def canonical_bytes_def rbind_eq_Inl Let_def
      dest: dumps_error utf8_error split: option.splits)

lemma bind_error: "bind_all js = Inl e \<Longrightarrow> \<not> is_TechnocoreError e"
  by (induction js) (auto simp: rbind_eq_Inl bind_json_def bind_int_def bind_text_def unless_raise_eq_Inl
      split: json.splits)

lemma insert_error: "insert_activity r d = (Inl e, d') \<Longrightarrow> \<not> is_TechnocoreError e"
  by (auto simp: insert_activity_def Let_def rbind_eq_Inl unless_raise_eq_Inl bind_row_def
      dest: bind_error split: sum.splits)

lemma append_error:
  assumes "append_activity i t a d = (Inl e, d')"
  shows "\<not> is_TechnocoreError e"
proof -
  have "\<not> is_TechnocoreError e" if "append_body i t m a d = (Inl e, d'')" for m d''
    using that
    by (auto simp: append_body_def Let_def rbind_eq_Inl ref_exists_def bind_text_def unless_raise_eq_Inl
        dest: entry_hash_error insert_error split: sum.splits prod.splits option.splits)
  then show ?thesis
    using assms
    by (auto simp: append_activity_def immediate_def validate_activity_def meta_text_def refuse_secrets_def
        rbind_eq_Inl unless_raise_eq_Inl Let_def dest: dumps_error split: sum.splits prod.splits option.splits if_splits)
qed

lemma outcome_or_dangling:
  assumes "ledger_ok d1" and "activities d1 = activities d @ [i]"
    and "record_of (intent_activity w task now) k i" and "k \<notin> r_activity_id ` set (activities d)"
    and "append_activity k' t a d1 = (ra, d2)" and "plain_seq a" and "a_ref_activity_id a = Some k"
    and "a_activity_type a = (if delivered then RESULT else FAILED)"
  shows "(\<exists>e. ra = Inl e \<and> d2 = d1 \<and> \<not> is_TechnocoreError e) \<or>
    (\<exists>lr. ra = Inr lr \<and> linked_pair d d2 w k k' delivered \<and> ledger_ok d2 \<and>
       k \<notin> set (dangling_intents d2) \<and> lr_activity_id lr = k')"
proof -
  from assms(5) have a: "(\<lambda>(i, t, a). append_activity i t a) (k', t, a) d1 = (ra, d2)" by simp
  from assms(1) a show ?thesis
  proof (cases rule: ledger_log.put_cases)
    case (refused e)
    then show ?thesis using assms(5) append_error by simp
  next
    case (recorded lr r)
    then have r: "activities d2 = activities d1 @ [r]" "record_of a k' r" "lr_activity_id lr = k'"
      "k' \<notin> r_activity_id ` set (activities d1)" "ledger_ok d2" using assms(6) by simp_all
    have "linked_pair d d2 w k k' delivered"
      using assms(2,3,7,8) r by (auto simp: linked_pair_def record_of_def intent_activity_def plain_activity_def)
    moreover have "has_outcome d2 i"
      using assms(3,7,8) r by (auto simp: has_outcome_def record_of_def)
    then have "k \<notin> set (dangling_intents d2)"
      using assms(2,3,4,8) r by (auto simp: dangling_iff record_of_def image_iff split: if_splits)
    ultimately show ?thesis using recorded(1) r by blast
  qed
qed

lemma response_digest_error: "response_digest items_repr response = Inl e \<Longrightarrow> \<not> is_TechnocoreError e"
  by (auto simp: response_digest_def rbind_eq_Inl dest: utf8_error split: json.splits)

section \<open>Properties\<close>

text \<open>
  C9. Every recorded write is accounted for. When \<open>send_and_record\<close> returns, the ledger has
  gained exactly an intent and an outcome that refers to it, delivered or failed as
  reported, and the intent does not dangle. When it raises, either nothing happened at
  all, neither in the ledger nor on the network, or the intent is there and reported as
  dangling; a failure of the send itself (\<open>TechnocoreError\<close>) is recorded and never
  raised. In particular no request leaves before its intent is recorded.
\<close>

theorem every_write_is_accounted_for:
  assumes "ledger_ok d" and "send_and_record io items_repr st1 st2 w task cl d = (res, d', cl')"
  shows "ledger_ok d' \<and>
    (case res of
       Inr out \<Rightarrow>
         linked_pair d d' w (st_id st1) (st_id st2) (or_delivered out) \<and>
         st_id st1 \<notin> set (dangling_intents d') \<and>
         or_intent_activity_id out = st_id st1 \<and> or_result_activity_id out = st_id st2 \<and>
         (or_delivered out \<longrightarrow> length (sent cl') = length (sent cl) + 1)
     | Inl e \<Rightarrow>
         \<not> is_TechnocoreError e \<and>
         (activities d' = activities d \<and> sent cl' = sent cl \<or>
          st_id st1 \<in> set (dangling_intents d') \<and> length (activities d') = length (activities d) + 1))"
proof -
  obtain r1 d1 where ri: "record_intent st1 w task d = (r1, d1)" by (cases "record_intent st1 w task d")
  from assms(1) ri show ?thesis
  proof (cases rule: record_intent_cases)
    case (refused e)
    then show ?thesis using assms append_error ri
      by (auto simp: send_and_record_def record_intent_def split: prod.splits sum.splits)
  next
    case (recorded i)
    obtain rs g cl1 where snd: "send_signed_message io w None cl = (rs, g, cl1)" by (metis prod_cases3)
    note sends = write_leaves_or_not [OF snd]
    have fresh: "st_id st1 \<notin> r_activity_id ` set (activities d)"
      using record_intent_fresh [OF assms(1), of st1 w task "st_id st1" d1] ri recorded(1) by simp
    note ends = outcome_or_dangling [OF recorded(3,2,4) fresh _ activities_plain(2) activity_fields(4), where delivered = False]
      outcome_or_dangling [OF recorded(3,2,4) fresh _ activities_plain(3) activity_fields(6), where delivered = True]
    show ?thesis
    proof (cases rs)
      case (Inl e)
      let ?a = "failure_activity w task (st_id st1) e (st_occurred st2)"
      obtain ra d2 where a: "append_activity (st_id st2) (st_recorded st2) ?a d1 = (ra, d2)"
        by (cases "append_activity (st_id st2) (st_recorded st2) ?a d1")
      show ?thesis
        using assms(2) recorded ends(1) [OF a]
        by (cases "is_TechnocoreError e") (auto simp: send_and_record_def ri snd Inl a)
    next
      case (Inr response)
      let ?a = "\<lambda>digest. result_activity w task (st_id st1) (seq_of (response_seq response)) digest (st_occurred st2)"
      show ?thesis
      proof (cases "response_digest items_repr response")
        case dg: (Inl e)
        then show ?thesis
          using assms(2) recorded response_digest_error by (auto simp: send_and_record_def ri snd Inr Let_def)
      next
        case dg: (Inr digest)
        obtain ra d2 where a: "append_activity (st_id st2) (st_recorded st2) (?a digest) d1 = (ra, d2)"
          by (cases "append_activity (st_id st2) (st_recorded st2) (?a digest) d1")
        show ?thesis
          using assms(2) recorded ends(2) [OF a] sends Inr
          by (auto simp: send_and_record_def ri snd dg a Let_def)
      qed
    qed
  qed
qed

text \<open>
  A write that the local rate limiter refuses is not recorded as failed:
  \<open>RateLimitExceeded\<close> is not a \<open>TechnocoreError\<close>, so it escapes
  \<open>send_and_record\<close> after the intent was appended. Nothing was sent, yet the intent
  is reported as one whose outcome nobody knows.
\<close>

theorem rate_limited_write_dangles:
  assumes "ledger_ok d" and "record_intent st1 w task d = (Inr k, d1)"
    and "write_verifies (backend io) w = Inr True" and "write_allowed io cl w None"
    and "acquire_write io cl = (Inl RateLimitExceeded, cl1)"
  shows "send_and_record io items_repr st1 st2 w task cl d = (Inl RateLimitExceeded, d1, cl1) \<and>
    sent cl1 = sent cl \<and> k \<in> set (dangling_intents d1)"
proof -
  have "assert_write_allowed io cl w None = (Inr (), None)"
    using assms(4) by (simp add: assert_write_allowed_Inr)
  then have "send_signed_message io w None cl = (Inl RateLimitExceeded, None, cl1)"
    by (simp add: send_signed_message_def send_body_def assms(3,5))
  moreover have "k \<in> set (dangling_intents d1)"
    using assms(1,2) by (cases rule: record_intent_cases) auto
  ultimately show ?thesis
    using acquire_write_fields [OF assms(5)] by (simp add: send_and_record_def assms(2))
qed

section \<open>A concrete write\<close>

definition root_write :: SignedWrite where
  "root_write = \<lparr>sw_did = ROOT_AGENT_DID, sw_room = str_lit ''room'', sw_nonce = 5, sw_text = str_lit ''7|v'',
     sw_swept_text = str_lit ''7|v'',
     sw_signature = str_lit ''AAAAAAAAAAAAAAAAAAAAAAAAAAAAAAAAAAAAAAAAAAAAAAAAAAAAAAAAAAAAAAAAAAAAAAAAAAAAAAAAAAAAAA'',
     sw_payload = map word_of_nat (str_lit ''room|5|7|v'')\<rparr>"

definition toy_stamp :: stamp where
  "toy_stamp = \<lparr>st_id = [49], st_recorded = [50], st_occurred = [51]\<rparr>"

lemma swept_example: "sweep_text DEFAULT_SWEEP (str_lit ''7|v'') = str_lit ''7|v''"
  by (simp add: eval_canonical)

lemma root_write_verifies: "write_verifies toy_backend root_write = Inr True"
proof -
  have "message_payload (VStr (str_lit ''room'')) (VInt 5)
      (VStr (sweep_text DEFAULT_SWEEP (str_lit ''7|v''))) DEFAULT_SWEEP False =
      Inr (map word_of_nat (str_lit ''room|5|7|v''))"
    unfolding message_payload_resweep by (rule toy_message)
  moreover have "verify toy_backend (VStr ROOT_AGENT_DID) (VStr (sw_signature root_write)) (VBytes b) = Inr True" for b
    unfolding verify_True_iff root_write_def SignedWrite.select_convs
    using zero_signature_text ROOT_AGENT_decodes by (auto simp: toy_backend_def)
  ultimately show ?thesis
    by (simp add: write_verifies_def verify_message_rebuilt root_write_def swept_example del: str_lit_Cons)
qed

lemma harmless_texts: "harmless ROOT_AGENT_DID" "harmless (sw_signature root_write)" "harmless (sha256_hex b)"
  "harmless INTENT" "harmless FAILED" "harmless RESULT"
  using set_hex_bytes [of _ "sha256 b"]
  by (simp_all add: harmless_def ROOT_AGENT_DID_def root_write_def INTENT_def FAILED_def RESULT_def)
     (fastforce simp: sha256_hex_def)

lemma root_intent_recorded: "\<exists>k d1. record_intent toy_stamp root_write None empty_db = (Inr k, d1)"
proof -
  let ?a = "intent_activity root_write None [51]"
  let ?m = "str_lit ''{'' @ [34] @ str_lit ''swept_len'' @ [34] @ str_lit '':3}''"
  have valid: "validate_activity ?a = Inr ()"
    by (simp add: validate_activity_def intent_activity_def plain_activity_def root_write_def INTENT_def
      ACTIVITY_TYPES_def VALID_COST_UNITS_def str_NONE_def unless_raise_def ROOT_AGENT_DID_def)
  have m: "meta_text ?a = Inr (Some ?m)"
    by (simp add: meta_text_def intent_activity_def dumps_def root_write_def json_int_def py_str_nat_def dec.simps MAX_STR_DIGITS_def
      json_str_def escape_char.simps)
  have "scan_text ?m ledger_write_path = []" by (rule short_text_clean) simp
  moreover have "sw_did root_write = ROOT_AGENT_DID" "length (sw_room root_write) < 17"
    by (simp_all add: root_write_def)
  then have "scan_text s ledger_write_path = []" if "s \<in> set (str_values ?a)" for s
    using that harmless_texts
    by (auto simp: str_values_def intent_activity_def plain_activity_def opt_list_def str_NONE_def intro: harmless_clean short_text_clean)
  ultimately have secrets: "refuse_secrets ?a (Some ?m) = Inr ()"
    by (auto simp: refuse_secrets_Inr secret_parts_def)
  have "storable_row (next_row [49] [50] (Some ?m) ?a [])"
    using scalar_hex [of "sw_payload root_write"]
    by (simp add: storable_row_def row_dict_def next_row_def activity_row_def intent_activity_def
        plain_activity_def root_write_def head_after_def GENESIS_PREV_HASH_def ROOT_AGENT_DID_def INTENT_def
        int64_ok_def cost_text_def opt_str_def opt_int_def str_NONE_def scalar_str_def is_scalar_ascii)
  with valid m secrets have "\<exists>lr d'. append_activity [49] [50] ?a empty_db = (Inr lr, d')"
    by (intro append_to_empty) auto
  then show ?thesis by (auto simp: record_intent_def toy_stamp_def)
qed

definition empty_bucket :: TokenBucket where
  "empty_bucket = \<lparr>capacity = 1, refill_per_second = 1 / 60, tokens = 0, updated = 0\<rparr>"

text \<open>A token takes a minute here, and \<open>acquire\<close> waits for at most thirty seconds.\<close>

lemma acquire_empty: "\<exists>b. acquire_one (\<lambda>i s. s) empty_bucket = (Inl RateLimitExceeded, b)"
proof -
  have "try_acquire 0 1 empty_bucket = (False, empty_bucket)"
    by (simp add: try_acquire_def refill_def empty_bucket_def)
  moreover have "refill 0 empty_bucket = empty_bucket" by (simp add: refill_def empty_bucket_def)
  ultimately have "acquire (Suc 3001) (\<lambda>i s. s) 1 True 30 empty_bucket =
      Some (Inl RateLimitExceeded, empty_bucket)"
    unfolding acquire_def acquire_loop.simps(2) by (simp add: Let_def empty_bucket_def)
  then show ?thesis by (simp add: acquire_one_def)
qed

theorem every_write_is_accounted_for_witness:
  "\<exists>res d' cl'. send_and_record (toy_io JNull) (\<lambda>_. []) toy_stamp toy_stamp root_write None
      (toy_client (str_lit ''technocore.chat'')) empty_db = (res, d', cl') \<and> ledger_ok d' \<and>
    (case res of Inr out \<Rightarrow> or_intent_activity_id out = st_id toy_stamp | Inl e \<Rightarrow>
       activities d' = [] \<and> sent cl' = [] \<or> st_id toy_stamp \<in> set (dangling_intents d'))"
proof -
  obtain res d' cl' where s: "send_and_record (toy_io JNull) (\<lambda>_. []) toy_stamp toy_stamp root_write None
      (toy_client (str_lit ''technocore.chat'')) empty_db = (res, d', cl')" by (metis prod_cases3)
  have "sent (toy_client h) = []" for h by (simp add: toy_client_def)
  then show ?thesis
    using every_write_is_accounted_for [OF ledger_ok_empty s] s
    by (auto simp: activities_empty split: sum.splits)
qed

theorem rate_limited_write_dangles_witness:
  "\<exists>d' cl'. send_and_record (toy_io JNull) (\<lambda>_. []) toy_stamp toy_stamp root_write None
      ((toy_client (str_lit ''localhost''))\<lparr>budget := \<lparr>reads = full_bucket, writes = empty_bucket\<rparr>\<rparr>)
      empty_db = (Inl RateLimitExceeded, d', cl') \<and> sent cl' = [] \<and> dangling_intents d' \<noteq> []"
proof -
  let ?cl = "(toy_client (str_lit ''localhost''))\<lparr>budget := \<lparr>reads = full_bucket, writes = empty_bucket\<rparr>\<rparr>"
  obtain k d1 where r: "record_intent toy_stamp root_write None empty_db = (Inr k, d1)"
    using root_intent_recorded by blast
  have v: "write_verifies (backend (toy_io JNull)) root_write = Inr True"
    using root_write_verifies by (simp add: toy_io_def)
  have a: "write_allowed (toy_io JNull) ?cl root_write None"
    by (simp add: write_allowed_def is_public_def is_loopback_def toy_client_def PUBLIC_HOSTS_def
        LOOPBACK_HOSTS_def toy_io_def)
  obtain b where "acquire_one (\<lambda>i s. s) empty_bucket = (Inl RateLimitExceeded, b)"
    using acquire_empty by blast
  then obtain cl1 where q: "acquire_write (toy_io JNull) ?cl = (Inl RateLimitExceeded, cl1)"
    by (simp add: acquire_write_def toy_io_def)
  have "sent ?cl = []" by (simp add: toy_client_def)
  with rate_limited_write_dangles [OF ledger_ok_empty r v a q, of "\<lambda>_. []" toy_stamp]
  show ?thesis by (intro exI [where x = d1] exI [where x = cl1]) auto
qed

end
