(* ===== verification/Announcement.thy ===== *)
theory Announcement
  imports Outbound
begin

text \<open>
  \<open>technocore/announcement.py\<close>, the local half: reserving the nonce, signing and
  verifying the first message, and recording the proof of it as four linked records. The
  identifiers and times of the records are arguments, as in \<open>Ledger\<close>.
\<close>

section \<open>The first announcement\<close>

definition FIRST_ANNOUNCEMENT_ROOM :: pystr where
  "FIRST_ANNOUNCEMENT_ROOM = str_lit ''lobby''"

definition FIRST_ANNOUNCEMENT_TEXT :: pystr where
  "FIRST_ANNOUNCEMENT_TEXT =
     str_lit ''FlopOffice is a DID-authenticated multi-agent workspace for signed '' @
     str_lit ''coordination, append-only proof logging, and capability-scoped agent '' @
     str_lit ''actions. Current milestone: Technocore signing conformance is pinned, '' @
     str_lit ''the root DID is configured, and signer wiring is fail-closed. Public '' @
     str_lit ''testnet integrations will be added only when official FLOP interfaces '' @
     str_lit ''are available.''"

definition CANONICALIZATION_PROFILE :: pystr where
  "CANONICALIZATION_PROFILE = str_lit ''technocore-chat-v0.10.0-single-line-sweep''"

definition FIRST_ANNOUNCEMENT_SHA256 :: pystr where
  "FIRST_ANNOUNCEMENT_SHA256 =
     str_lit ''bb1cdabce2383285dc883d7f3792ec9503e6be56645bd283aeb940b82b79b7f0''"

definition NOT_SENT :: pystr where "NOT_SENT = str_lit ''NOT_SENT''"
definition PUBLISHED :: pystr where "PUBLISHED = str_lit ''PUBLISHED''"
definition AWAITING_APPROVAL :: pystr where
  "AWAITING_APPROVAL = str_lit ''awaiting_explicit_user_approval''"

record AnnouncementProof =
  ap_did :: pystr
  ap_room :: pystr
  ap_nonce :: int
  ap_original_text :: pystr
  ap_canonical_text :: pystr
  ap_original_text_hash :: pystr
  ap_canonical_text_hash :: pystr
  ap_payload_hash :: pystr
  ap_signature :: pystr
  ap_signing_algorithm :: pystr
  ap_canonicalization_profile :: pystr
  ap_technocore_status :: pystr
  ap_verified :: bool

record AnnouncementProofRecords =
  prepare_intent :: LedgerRecord
  signed_local :: LedgerRecord
  verified_local :: LedgerRecord
  publish_blocked :: LedgerRecord

record AnnouncementPreparation =
  prep_proof :: AnnouncementProof
  prep_records :: AnnouncementProofRecords

section \<open>Reserving the nonce\<close>

text \<open>One database operation after the other; an exception ends the sequence.\<close>

definition dbind :: "'a dbop \<Rightarrow> ('a \<Rightarrow> 'b dbop) \<Rightarrow> 'b dbop" where
  "dbind m f d = (case m d of (Inl e, d') \<Rightarrow> (Inl e, d') | (Inr x, d') \<Rightarrow> f x d')"

definition dlift :: "exn + 'a \<Rightarrow> 'a dbop" where
  "dlift r d = (r, d)"

abbreviation announce_error :: "announce_reason \<Rightarrow> exn" where
  "announce_error r \<equiv> AnnouncementPreparationError r"

text \<open>
  The counter is read outside the transaction of \<open>reserve\<close>: \<open>outside\<close> is what other
  processes do to the database in between. \<open>VNone\<close> is the default of the parameter
  \<open>nonce\<close>.
\<close>

definition others :: "(db \<Rightarrow> db) \<Rightarrow> unit dbop" where
  "others outside d = (Inr (), outside d)"

definition claim_announcement_nonce :: "(db \<Rightarrow> db) \<Rightarrow> pystr \<Rightarrow> pystr \<Rightarrow> pyval \<Rightarrow> int dbop" where
  "claim_announcement_nonce outside agent room nonce =
     (let scope = scope_for_room room in
      dbind (current agent scope) (\<lambda>stored.
      dbind (others outside) (\<lambda>_.
        if nonce \<noteq> VNone then
          dbind (dlift (validate_nonce nonce)) (\<lambda>chosen.
          if chosen < 1 then dlift (Inl (announce_error AnnounceNonceBelowOne))
          else if chosen \<le> stored then dlift (Inl (announce_error AnnounceNonceNotGreater))
          else dbind (reserve (VStr agent) (VStr scope) (chosen - 1)) (\<lambda>r.
            if rv_nonce r \<noteq> chosen then dlift (Inl (announce_error AnnounceNonceRaced))
            else dlift (Inr (rv_nonce r))))
        else dbind (reserve (VStr agent) (VStr scope) 0) (\<lambda>r. dlift (Inr (rv_nonce r))))))"

definition reserve_announcement_nonce :: "pystr \<Rightarrow> pystr \<Rightarrow> pyval \<Rightarrow> int dbop" where
  "reserve_announcement_nonce = claim_announcement_nonce (\<lambda>d. d)"

section \<open>Signing and verifying\<close>

text \<open>What a caller may pass as the capability: the check is an \<open>isinstance\<close>.\<close>

datatype 'key signing_arg = ACapability "'key CapabilitySigner" | ARawSigner "'key signer"

fun arg_did :: "'key signing_arg \<Rightarrow> pystr" where
  "arg_did (ACapability cap) = did (cap_did cap)"
| "arg_did (ARawSigner s) = did (signer_did s)"

definition sha256_text :: "pystr \<Rightarrow> exn + pystr" where
  "sha256_text t = rbind (utf8_encode t) (\<lambda>b. Inr (sha256_hex b))"

definition build_local_announcement_proof ::
  "'key ed25519 \<Rightarrow> 'key signing_arg \<Rightarrow> pyval \<Rightarrow> pystr \<Rightarrow> pystr \<Rightarrow> exn + AnnouncementProof" where
  "build_local_announcement_proof c arg nonce room text =
     (case arg of
        ARawSigner _ \<Rightarrow> Inl (announce_error NotCapabilitySigner)
      | ACapability cap \<Rightarrow>
          rbind (validate_nonce nonce) (\<lambda>chosen.
          if chosen < 1 then Inl (announce_error AnnounceNonceBelowOne)
          else
          rbind (single_line_sweep (VStr text) None) (\<lambda>canonical.
          rbind (sign_technocore_message c cap (VStr room) (VInt chosen) (VStr text)) (\<lambda>signed.
          if sm_swept_text signed \<noteq> canonical then Inl (announce_error CanonicalizationMismatch)
          else
          rbind (message_payload (VStr room) (VInt chosen) (VStr canonical) DEFAULT_SWEEP True) (\<lambda>payload.
          rbind (verify_message c (VStr (sm_did signed)) (VStr (sm_signature signed)) (VStr room)
                   (VInt chosen) (VStr canonical)) (\<lambda>verified.
          rbind (sha256_text text) (\<lambda>original_hash.
          rbind (sha256_text canonical) (\<lambda>canonical_hash.
            Inr \<lparr>ap_did = sm_did signed, ap_room = sm_room signed, ap_nonce = sm_nonce signed,
                 ap_original_text = text, ap_canonical_text = canonical,
                 ap_original_text_hash = original_hash, ap_canonical_text_hash = canonical_hash,
                 ap_payload_hash = sha256_hex payload, ap_signature = sm_signature signed,
                 ap_signing_algorithm = str_lit ''Ed25519'',
                 ap_canonicalization_profile = CANONICALIZATION_PROFILE,
                 ap_technocore_status = NOT_SENT, ap_verified = verified\<rparr>))))))))"

definition verify_announcement_proof ::
  "'key ed25519 \<Rightarrow> AnnouncementProof \<Rightarrow> pystr option \<Rightarrow> exn + bool" where
  "verify_announcement_proof c p did_arg =
     (let who = (case did_arg of Some (d # ds) \<Rightarrow> d # ds | _ \<Rightarrow> ap_did p) in
      verify_message c (VStr who) (VStr (ap_signature p)) (VStr (ap_room p)) (VInt (ap_nonce p))
        (VStr (ap_canonical_text p)))"

text \<open>\<open>not proof.verified or not verify_announcement_proof(proof)\<close>, negated.\<close>

definition proof_holds :: "'key ed25519 \<Rightarrow> AnnouncementProof \<Rightarrow> exn + bool" where
  "proof_holds c p = (if ap_verified p then verify_announcement_proof c p None else Inr False)"

section \<open>Recording the proof\<close>

definition proof_common :: "AnnouncementProof \<Rightarrow> (pystr \<times> json) list" where
  "proof_common p =
     [(str_lit ''canonicalization_profile'', JStr (ap_canonicalization_profile p)),
      (str_lit ''canonical_text_hash'', JStr (ap_canonical_text_hash p)),
      (str_lit ''original_text_hash'', JStr (ap_original_text_hash p)),
      (str_lit ''payload_hash'', JStr (ap_payload_hash p)),
      (str_lit ''publish_status'', JStr (ap_technocore_status p)),
      (str_lit ''reason'', JStr AWAITING_APPROVAL),
      (str_lit ''signing_algorithm'', JStr (ap_signing_algorithm p))]"

definition PREPARE_INTENT :: pystr where "PREPARE_INTENT = str_lit ''technocore_message_prepare_intent''"
definition SIGNED_LOCAL :: pystr where "SIGNED_LOCAL = str_lit ''technocore_message_signed_local''"
definition VERIFIED_LOCAL :: pystr where "VERIFIED_LOCAL = str_lit ''technocore_message_verified_local''"
definition PUBLISH_BLOCKED :: pystr where "PUBLISH_BLOCKED = str_lit ''technocore_message_publish_blocked''"
definition PUBLISH_RESULT :: pystr where "PUBLISH_RESULT = str_lit ''technocore_message_publish_result''"

text \<open>What the activities of one proof share.\<close>

definition proof_activity :: "AnnouncementProof \<Rightarrow> pystr \<Rightarrow> pystr \<Rightarrow> Activity" where
  "proof_activity p activity_type now =
     (plain_activity (ap_did p) activity_type now)
       \<lparr>a_tc_room := Some (ap_room p), a_tc_nonce := Some (ap_nonce p),
        a_signed_payload_hash := Some (ap_payload_hash p)\<rparr>"

definition stage :: "string \<Rightarrow> pystr \<times> json" where
  "stage s = (str_lit ''stage'', JStr (str_lit s))"

definition prepare_activity :: "AnnouncementProof \<Rightarrow> pystr \<Rightarrow> pystr \<Rightarrow> Activity" where
  "prepare_activity p task now =
     (proof_activity p PREPARE_INTENT now)
       \<lparr>a_task_id := Some task, a_meta := Some (JObj (proof_common p @ [stage ''prepared'']))\<rparr>"

definition signed_activity :: "AnnouncementProof \<Rightarrow> pystr \<Rightarrow> pystr \<Rightarrow> pystr \<Rightarrow> Activity" where
  "signed_activity p task ref now =
     (proof_activity p SIGNED_LOCAL now)
       \<lparr>a_task_id := Some task, a_ref_activity_id := Some ref, a_signature := Some (ap_signature p),
        a_meta := Some (JObj (proof_common p @
          [(str_lit ''canonical_text'', JStr (ap_canonical_text p)), stage ''signed'']))\<rparr>"

definition verified_activity :: "AnnouncementProof \<Rightarrow> pystr \<Rightarrow> pystr \<Rightarrow> pystr \<Rightarrow> Activity" where
  "verified_activity p task ref now =
     (proof_activity p VERIFIED_LOCAL now)
       \<lparr>a_task_id := Some task, a_ref_activity_id := Some ref, a_signature := Some (ap_signature p),
        a_meta := Some (JObj (proof_common p @
          [(str_lit ''signature_verification'', JStr (str_lit ''PASS'')), stage ''verified'']))\<rparr>"

definition blocked_activity :: "AnnouncementProof \<Rightarrow> pystr \<Rightarrow> pystr \<Rightarrow> pystr \<Rightarrow> Activity" where
  "blocked_activity p task ref now =
     (proof_activity p PUBLISH_BLOCKED now)
       \<lparr>a_task_id := Some task, a_ref_activity_id := Some ref,
        a_result_hash := Some (ap_canonical_text_hash p),
        a_meta := Some (JObj (proof_common p @
          [stage ''publish_blocked'', (str_lit ''technocore_publish'', JStr (str_lit ''BLOCKED''))]))\<rparr>"

text \<open>One append with the identifier and the times it is given.\<close>

definition append_at :: "stamp \<Rightarrow> (pystr \<Rightarrow> Activity) \<Rightarrow> LedgerRecord dbop" where
  "append_at st activity = append_activity (st_id st) (st_recorded st) (activity (st_occurred st))"

text \<open>The stamps of a run, by the position of the record in it.\<close>

type_synonym stamps = "nat \<Rightarrow> stamp"

definition record_local_announcement_proof ::
  "'key ed25519 \<Rightarrow> stamps \<Rightarrow> pystr \<Rightarrow> AnnouncementProof \<Rightarrow> AnnouncementProofRecords dbop" where
  "record_local_announcement_proof c sts task p =
     dbind (dlift (proof_holds c p)) (\<lambda>holds.
     if \<not> holds then dlift (Inl (announce_error LocalVerificationRequired))
     else
     dbind (append_at (sts 0) (prepare_activity p task)) (\<lambda>r0.
     dbind (append_at (sts 1) (signed_activity p task (lr_activity_id r0))) (\<lambda>r1.
     dbind (append_at (sts 2) (verified_activity p task (lr_activity_id r1))) (\<lambda>r2.
     dbind (append_at (sts 3) (blocked_activity p task (lr_activity_id r2))) (\<lambda>r3.
       dlift (Inr \<lparr>prepare_intent = r0, signed_local = r1, verified_local = r2, publish_blocked = r3\<rparr>))))))"

definition DEFAULT_TASK :: pystr where
  "DEFAULT_TASK = str_lit ''m1.6-first-technocore-announcement''"

definition prepare_first_announcement ::
  "'key ed25519 \<Rightarrow> stamps \<Rightarrow> 'key signing_arg \<Rightarrow> pyval \<Rightarrow> pystr \<Rightarrow> pystr \<Rightarrow> AnnouncementPreparation dbop" where
  "prepare_first_announcement c sts arg nonce room text =
     dbind (reserve_announcement_nonce (arg_did arg) room nonce) (\<lambda>chosen.
     dbind (dlift (build_local_announcement_proof c arg (VInt chosen) room text)) (\<lambda>p.
     dbind (record_local_announcement_proof c sts DEFAULT_TASK p) (\<lambda>records.
       dlift (Inr \<lparr>prep_proof = p, prep_records = records\<rparr>))))"

section \<open>Sequences of database operations\<close>

lemma dbind_Inr: "dbind m f d = (Inr y, d2) \<longleftrightarrow> (\<exists>x d1. m d = (Inr x, d1) \<and> f x d1 = (Inr y, d2))"
  by (auto simp: dbind_def split: prod.splits sum.splits)

lemma dbind_Inl: "dbind m f d = (Inl e, d2) \<longleftrightarrow>
    m d = (Inl e, d2) \<or> (\<exists>x d1. m d = (Inr x, d1) \<and> f x d1 = (Inl e, d2))"
  by (auto simp: dbind_def split: prod.splits sum.splits)

lemma dlift_iff [simp]: "dlift r d = (r', d') \<longleftrightarrow> r' = r \<and> d' = d"
  by (auto simp: dlift_def)

section \<open>Properties of the reservation\<close>

text \<open>
  C33. A nonce that is returned is fresh, whatever other processes did between the read
  and the reservation: it exceeds every nonce stored when the reservation ran, it is
  stored now, and an explicit request gets the very nonce it asked for.
\<close>

theorem claimed_nonce_is_fresh:
  assumes "claim_announcement_nonce outside agent room nonce d = (Inr n, d')"
  shows "last_nonce (outside d) (agent, room) < n \<and> 1 \<le> n \<and> last_nonce d' (agent, room) = n \<and>
    activities d' = activities (outside d) \<and> (nonce \<noteq> VNone \<longrightarrow> nonce = VInt n)"
proof -
  from assms obtain floor r where r: "reserve (VStr agent) (VStr room) floor (outside d) = (Inr r, d')" "rv_nonce r = n"
    and explicit: "nonce \<noteq> VNone \<Longrightarrow> validate_nonce nonce = Inr n"
    by (auto simp: claim_announcement_nonce_def Let_def dbind_Inr others_def scope_for_room_def current_eq
        split: if_splits)
  from explicit have "nonce \<noteq> VNone \<Longrightarrow> nonce = VInt n"
    by (auto simp: validate_nonce_Inr)
  with r show ?thesis
    by (auto elim!: reserve_Inr simp: next_nonce_def last_nonce_def)
qed

lemma MAX_nonce_pos: "1 \<le> MAX_STORABLE_NONCE"
  by (simp add: MAX_STORABLE_NONCE_def)

text \<open>
  Without interference every branch of an explicit request is decided by the stored
  counter alone: a nonce below one or not above the counter is refused without effect,
  any other storable nonce becomes the counter, and the raced branch is not reachable.
\<close>

theorem reserve_announcement_nonce_functional:
  assumes "agent \<noteq> []" and "room \<noteq> []" and "text_key agent room" and "\<not> locked d" and "valid_nonce n"
  shows "reserve_announcement_nonce agent room (VInt n) d =
    (if n < 1 then (Inl (announce_error AnnounceNonceBelowOne), d)
     else if n \<le> last_nonce d (agent, room) then (Inl (announce_error AnnounceNonceNotGreater), d)
     else if n \<le> MAX_STORABLE_NONCE then (Inr n, d\<lparr>nonces := (nonces d)((agent, room) \<mapsto> n)\<rparr>)
     else (Inl (NonceError NonceExhausted), d))"
proof -
  have v: "validate_nonce (VInt n) = Inr n" using assms(5) by (simp add: validate_nonce_Inr)
  have nxt: "next_nonce d (agent, room) (n - 1) = n" if "last_nonce d (agent, room) < n"
    using that by (simp add: next_nonce_def)
  show ?thesis
    using assms nxt
    by (simp add: reserve_announcement_nonce_def claim_announcement_nonce_def Let_def dbind_def others_def
        scope_for_room_def current_eq dlift_def v reserve_eq)
qed

section \<open>Properties of the proof\<close>

text \<open>
  C20. The proof that a capability of the wiring gives is sound: it was verified locally and
  verifies again without trusting a server, it names the caller's identity, room, nonce
  and text, and its hashes are those of the very payload and text that were signed.
\<close>

theorem local_proof_is_sound:
  assumes "capability_ok c cap" and "build_local_announcement_proof c (ACapability cap) nonce room text0 = Inr p"
  shows "proof_holds c p = Inr True \<and> ap_verified p \<and> nonce = VInt (ap_nonce p) \<and> 1 \<le> ap_nonce p \<and>
    ap_did p = did (cap_did cap) \<and> ap_room p = room \<and> ap_original_text p = text0 \<and>
    (\<exists>payload b. message_payload (VStr room) nonce (VStr text0) DEFAULT_SWEEP False = Inr payload \<and>
       ap_payload_hash p = sha256_hex payload \<and>
       ap_canonical_text p = sweep_text DEFAULT_SWEEP text0 \<and>
       utf8_encode (ap_canonical_text p) = Inr b \<and> ap_canonical_text_hash p = sha256_hex b)"
proof -
  let ?t = "sweep_text DEFAULT_SWEEP text0"
  from assms(2) obtain n m payload v where nonce: "nonce = VInt n" "1 \<le> n"
    and signed: "sign_technocore_message c cap (VStr room) (VInt n) (VStr text0) = Inr m"
    and payload: "message_payload (VStr room) (VInt n) (VStr ?t) DEFAULT_SWEEP True = Inr payload"
    and v: "verify_message c (VStr (sm_did m)) (VStr (sm_signature m)) (VStr room) (VInt n) (VStr ?t) = Inr v"
    and p: "\<exists>oh ch. sha256_text ?t = Inr ch \<and> p = \<lparr>ap_did = sm_did m, ap_room = sm_room m, ap_nonce = sm_nonce m,
      ap_original_text = text0, ap_canonical_text = ?t, ap_original_text_hash = oh, ap_canonical_text_hash = ch,
      ap_payload_hash = sha256_hex payload, ap_signature = sm_signature m,
      ap_signing_algorithm = str_lit ''Ed25519'', ap_canonicalization_profile = CANONICALIZATION_PROFILE,
      ap_technocore_status = NOT_SENT, ap_verified = v\<rparr>"
    by (auto simp: build_local_announcement_proof_def rbind_eq_Inr validate_nonce_Inr single_line_sweep_Inr
        split: if_splits)
  from signed obtain b sig where b: "message_payload (VStr room) (VInt n) (VStr text0) DEFAULT_SWEEP False = Inr b"
    and sig: "signer_sign c (cap_sign cap) (VBytes b) = Inr sig" and m: "m = message_of cap room n text0 sig b"
    by (auto simp: sign_technocore_message_Inr)
  have "payload = b" using payload b message_payload_swept by simp
  have "verify c (VStr (did (cap_did cap))) (VStr sig) (VBytes b) = Inr True"
    by (rule capability_signature_verifies [OF assms(1) sig])
  moreover have "message_payload (VStr room) (VInt n) (VStr ?t) DEFAULT_SWEEP False = Inr b"
    using b by (simp add: message_payload_resweep)
  ultimately have ok: "verify_message c (VStr (did (cap_did cap))) (VStr sig) (VStr room) (VInt n) (VStr ?t) = Inr True"
    by (simp add: verify_message_rebuilt)
  with v have "v" by (simp add: m message_of_def)
  then show ?thesis
    using p nonce b ok \<open>payload = b\<close>
    by (auto simp: m message_of_def proof_holds_def verify_announcement_proof_def sha256_text_def rbind_eq_Inr)
qed

section \<open>What the records say\<close>

lemmas proof_activity_defs = prepare_activity_def signed_activity_def verified_activity_def
  blocked_activity_def proof_activity_def plain_activity_def

lemma proof_activities_plain [simp]: "plain_seq (prepare_activity p task now)"
  "plain_seq (signed_activity p task k now)" "plain_seq (verified_activity p task k now)"
  "plain_seq (blocked_activity p task k now)"
  by (simp_all add: plain_seq_def proof_activity_defs)

lemma append_at_cases:
  assumes "ledger_kept h d" and "append_at st act d = (res, d')" and "plain_seq (act (st_occurred st))"
  obtains (refused) e where "res = Inl e" "d' = d"
  | (recorded) lr r where "res = Inr lr" "activities d' = activities d @ [r]"
      "record_of (act (st_occurred st)) (st_id st) r" "lr_activity_id lr = st_id st" "ledger_kept h d'"
      "nonces d' = nonces d"
proof -
  from assms(2) have a: "(\<lambda>(i, t, a). append_activity i t a) (st_id st, st_recorded st, act (st_occurred st)) d = (res, d')"
    by (simp add: append_at_def)
  from assms(1) a show thesis
    by (cases rule: ledger_log.put_cases) (use refused recorded assms(3) in auto)
qed

text \<open>The database grows by records only, and stays consistent.\<close>

definition extends :: "db \<Rightarrow> db \<Rightarrow> bool" where
  "extends d d' \<longleftrightarrow> (ledger_ok d \<longrightarrow> ledger_ok d' \<and> nonces d' = nonces d \<and>
     (\<exists>rows. activities d' = activities d @ rows))"

definition grows :: "'a dbop \<Rightarrow> bool" where
  "grows m \<longleftrightarrow> (\<forall>d r d'. m d = (r, d') \<longrightarrow> extends d d')"

lemma extends_trans: "extends d d1 \<Longrightarrow> extends d1 d2 \<Longrightarrow> extends d d2"
  by (auto simp: extends_def)

lemma grows_dbind: "grows m \<Longrightarrow> (\<And>x. grows (f x)) \<Longrightarrow> grows (dbind m f)"
  unfolding grows_def dbind_def by (fastforce split: prod.splits sum.splits intro: extends_trans)

lemma grows_dlift: "grows (dlift r)"
  by (simp add: grows_def extends_def)

lemma grows_append_at: "(\<And>now. plain_seq (act now)) \<Longrightarrow> grows (append_at st act)"
  unfolding grows_def extends_def by (metis append_at_cases append_Nil2)

lemma grows_if: "grows m \<Longrightarrow> grows m' \<Longrightarrow> grows (if b then m else m')"
  by simp

lemma record_grows: "grows (record_local_announcement_proof c sts task p)"
  unfolding record_local_announcement_proof_def
  by (intro grows_dbind grows_if grows_dlift grows_append_at) simp_all

text \<open>The four records of a proof, each referring to the one before.\<close>

definition proof_rows :: "AnnouncementProof \<Rightarrow> stamps \<Rightarrow> row list \<Rightarrow> bool" where
  "proof_rows p sts rows \<longleftrightarrow>
     map r_activity_id rows = map (\<lambda>i. st_id (sts i)) [0, 1, 2, 3] \<and>
     map r_activity_type rows = [PREPARE_INTENT, SIGNED_LOCAL, VERIFIED_LOCAL, PUBLISH_BLOCKED] \<and>
     map r_ref_activity_id rows = [None, Some (st_id (sts 0)), Some (st_id (sts 1)), Some (st_id (sts 2))] \<and>
     (\<forall>r \<in> set rows. r_agent_did r = ap_did p \<and> r_tc_room r = Some (ap_room p) \<and>
        r_tc_nonce r = Some (ap_nonce p) \<and> r_signed_payload_hash r = Some (ap_payload_hash p))"

lemma record_proof_Inr:
  assumes "ledger_ok d" and "record_local_announcement_proof c sts task p d = (Inr rs, d')"
  obtains rows where "proof_holds c p = Inr True" "activities d' = activities d @ rows" "proof_rows p sts rows"
    "ledger_ok d'" "nonces d' = nonces d"
    "map lr_activity_id [prepare_intent rs, signed_local rs, verified_local rs, publish_blocked rs] =
     map r_activity_id rows"
proof -
  from assms(2) obtain r0 d0 r1 d1 r2 d2 r3 where holds: "proof_holds c p = Inr True"
    and a0: "append_at (sts 0) (prepare_activity p task) d = (Inr r0, d0)"
    and a1: "append_at (sts 1) (signed_activity p task (lr_activity_id r0)) d0 = (Inr r1, d1)"
    and a2: "append_at (sts 2) (verified_activity p task (lr_activity_id r1)) d1 = (Inr r2, d2)"
    and a3: "append_at (sts 3) (blocked_activity p task (lr_activity_id r2)) d2 = (Inr r3, d')"
    and rs: "rs = \<lparr>prepare_intent = r0, signed_local = r1, verified_local = r2, publish_blocked = r3\<rparr>"
    by (auto simp: record_local_announcement_proof_def dbind_Inr split: if_splits)
  from assms(1) a0 obtain q0 where q0: "activities d0 = activities d @ [q0]"
    "record_of (prepare_activity p task (st_occurred (sts 0))) (st_id (sts 0)) q0"
    "lr_activity_id r0 = st_id (sts 0)" "ledger_ok d0" "nonces d0 = nonces d"
    by (rule append_at_cases) auto
  from q0(4) a1 obtain q1 where q1: "activities d1 = activities d0 @ [q1]"
    "record_of (signed_activity p task (lr_activity_id r0) (st_occurred (sts 1))) (st_id (sts 1)) q1"
    "lr_activity_id r1 = st_id (sts 1)" "ledger_ok d1" "nonces d1 = nonces d0"
    by (rule append_at_cases) auto
  from q1(4) a2 obtain q2 where q2: "activities d2 = activities d1 @ [q2]"
    "record_of (verified_activity p task (lr_activity_id r1) (st_occurred (sts 2))) (st_id (sts 2)) q2"
    "lr_activity_id r2 = st_id (sts 2)" "ledger_ok d2" "nonces d2 = nonces d1"
    by (rule append_at_cases) auto
  from q2(4) a3 obtain q3 where q3: "activities d' = activities d2 @ [q3]"
    "record_of (blocked_activity p task (lr_activity_id r2) (st_occurred (sts 3))) (st_id (sts 3)) q3"
    "lr_activity_id r3 = st_id (sts 3)" "ledger_ok d'" "nonces d' = nonces d2"
    by (rule append_at_cases) auto
  have "proof_rows p sts [q0, q1, q2, q3]"
    using q0 q1 q2 q3 by (simp add: proof_rows_def record_of_def proof_activity_defs)
  moreover have "activities d' = activities d @ [q0, q1, q2, q3]" using q0(1) q1(1) q2(1) q3(1) by simp
  moreover have "nonces d' = nonces d" using q0(5) q1(5) q2(5) q3(5) by simp
  moreover have "map lr_activity_id [prepare_intent rs, signed_local rs, verified_local rs, publish_blocked rs] =
      map r_activity_id [q0, q1, q2, q3]"
    using q0(2,3) q1(2,3) q2(2,3) q3(2,3) by (simp add: rs record_of_def)
  ultimately show thesis using that holds q3(4) by blast
qed

text \<open>
  Recording a proof appends exactly four records, each referring to the one before it,
  all bound to the identity, room, nonce and payload hash of the proof, and only when the
  proof holds. On an exception too the ledger stays consistent and keeps what it had.
\<close>

theorem proof_records_are_linked:
  assumes "ledger_ok d" and "record_local_announcement_proof c sts task p d = (res, d')"
  shows "ledger_ok d' \<and> nonces d' = nonces d \<and>
    (\<exists>rows. activities d' = activities d @ rows \<and>
       (\<forall>rs. res = Inr rs \<longrightarrow> proof_holds c p = Inr True \<and> proof_rows p sts rows \<and>
          lr_activity_id (publish_blocked rs) = st_id (sts 3)))"
proof (cases res)
  case (Inl e)
  then show ?thesis
    using record_grows [of c sts task p] assms by (auto simp: grows_def extends_def)
next
  case (Inr rs)
  with assms obtain rows where "proof_holds c p = Inr True" "activities d' = activities d @ rows"
    "proof_rows p sts rows" "ledger_ok d'" "nonces d' = nonces d"
    "map lr_activity_id [prepare_intent rs, signed_local rs, verified_local rs, publish_blocked rs] =
     map r_activity_id rows"
    by (auto elim: record_proof_Inr)
  then show ?thesis using Inr by (auto simp: proof_rows_def)
qed

section \<open>The whole preparation\<close>

lemma claim_reserves:
  assumes "claim_announcement_nonce (\<lambda>d. d) agent room nonce d = (res, d')"
  shows "(d' = d \<and> (\<exists>e. res = Inl e)) \<or>
    (\<exists>floor r. reserve (VStr agent) (VStr room) floor d = (Inr r, d') \<and>
       (\<forall>n. res = Inr n \<longrightarrow> rv_nonce r = n))"
proof (cases res)
  case (Inl e)
  then show ?thesis
    using assms
    by (auto simp: claim_announcement_nonce_def Let_def dbind_Inl others_def scope_for_room_def current_eq
        split: if_splits dest: reserve_Inl)
next
  case (Inr n)
  then show ?thesis
    using assms
    by (auto simp: claim_announcement_nonce_def Let_def dbind_Inr others_def scope_for_room_def current_eq
        split: if_splits)
qed

lemma last_nonce_update:
  "last_nonce (d\<lparr>nonces := (nonces d)(k \<mapsto> n)\<rparr>) k' = (if k' = k then n else last_nonce d k')"
  by (simp add: last_nonce_def)

lemma claim_keeps:
  assumes "reserve_announcement_nonce agent room nonce d = (res, d')" and "ledger_kept h d"
  shows "ledger_kept h d'" "activities d' = activities d" "last_nonce d k \<le> last_nonce d' k"
    "res = Inr n \<Longrightarrow> last_nonce d (agent, room) < n \<and> last_nonce d' (agent, room) = n"
proof -
  from claim_reserves [OF assms(1) [unfolded reserve_announcement_nonce_def]]
  consider e where "d' = d" "res = Inl e" | floor r where
    "reserve (VStr agent) (VStr room) floor d = (Inr r, d')" "\<forall>n. res = Inr n \<longrightarrow> rv_nonce r = n"
    by blast
  then have "ledger_kept h d' \<and> activities d' = activities d \<and> last_nonce d k \<le> last_nonce d' k \<and>
      (res = Inr n \<longrightarrow> last_nonce d (agent, room) < n \<and> last_nonce d' (agent, room) = n)"
  proof cases
    case 1
    then show ?thesis using assms(2) by simp
  next
    case 2
    then have "db_ok d' \<and> activities d' = activities d"
      using reserve_db [OF 2(1)] assms(2) by (auto simp: ledger_kept_def)
    moreover define m where "m = next_nonce d (agent, room) floor"
    from 2(1) have "rv_nonce r = m" "d' = d\<lparr>nonces := (nonces d)((agent, room) \<mapsto> m)\<rparr>"
      unfolding m_def by (auto elim!: reserve_Inr)
    moreover have "last_nonce d (agent, room) < m" by (simp add: m_def next_nonce_def)
    ultimately show ?thesis
      using 2(2) assms(2) by (auto simp: ledger_kept_def last_nonce_update)
  qed
  then show "ledger_kept h d'" "activities d' = activities d" "last_nonce d k \<le> last_nonce d' k"
    "res = Inr n \<Longrightarrow> last_nonce d (agent, room) < n \<and> last_nonce d' (agent, room) = n" by blast+
qed

text \<open>What the steps after the reservation leave: records of a proof with the reserved nonce.\<close>

definition recorded_with :: "'key ed25519 \<Rightarrow> stamps \<Rightarrow> 'key signing_arg \<Rightarrow> pystr \<Rightarrow> int \<Rightarrow> pystr \<Rightarrow>
    AnnouncementPreparation \<Rightarrow> row list \<Rightarrow> bool" where
  "recorded_with c sts arg room n text0 prep rows \<longleftrightarrow> (\<exists>cap. arg = ACapability cap) \<and>
     build_local_announcement_proof c arg (VInt n) room text0 = Inr (prep_proof prep) \<and>
     proof_holds c (prep_proof prep) = Inr True \<and> proof_rows (prep_proof prep) sts rows \<and>
     (ap_did (prep_proof prep), ap_room (prep_proof prep), ap_nonce (prep_proof prep)) = (arg_did arg, room, n) \<and>
     lr_activity_id (publish_blocked (prep_records prep)) = st_id (sts 3)"

lemma built_with:
  assumes "build_local_announcement_proof c arg (VInt n) room text0 = Inr p"
  shows "\<exists>cap. arg = ACapability cap" "(ap_did p, ap_room p, ap_nonce p) = (arg_did arg, room, n)"
  using assms
  by (auto simp: build_local_announcement_proof_def rbind_eq_Inr sign_technocore_message_Inr message_of_def
      validate_nonce_Inr split: if_splits signing_arg.splits)

lemma after_reservation:
  assumes "ledger_ok d1" and "dbind (dlift (build_local_announcement_proof c arg (VInt n) room text0)) (\<lambda>p.
      dbind (record_local_announcement_proof c sts DEFAULT_TASK p) (\<lambda>records.
        dlift (Inr \<lparr>prep_proof = p, prep_records = records\<rparr>))) d1 = (res, d')"
  shows "ledger_ok d' \<and> nonces d' = nonces d1 \<and> (\<exists>rows. activities d' = activities d1 @ rows \<and>
    (\<forall>prep. res = Inr prep \<longrightarrow> recorded_with c sts arg room n text0 prep rows))"
proof (cases "build_local_announcement_proof c arg (VInt n) room text0")
  case (Inl e)
  then show ?thesis using assms by (auto simp: dbind_def dlift_def)
next
  case (Inr p)
  obtain r2 d2 where rec: "record_local_announcement_proof c sts DEFAULT_TASK p d1 = (r2, d2)"
    by (cases "record_local_announcement_proof c sts DEFAULT_TASK p d1")
  from assms(2) Inr rec have out: "d' = d2" "res = rbind r2 (\<lambda>rs. Inr \<lparr>prep_proof = p, prep_records = rs\<rparr>)"
    by (auto simp: dbind_def dlift_def split: sum.splits)
  show ?thesis
  proof (cases r2)
    case (Inl e)
    have "extends d1 d2" using record_grows [of c sts DEFAULT_TASK p] rec unfolding grows_def by blast
    then show ?thesis using assms(1) out Inl by (auto simp: extends_def)
  next
    case r2: (Inr rs)
    from assms(1) rec [unfolded r2] obtain rows where rows: "proof_holds c p = Inr True"
      "activities d2 = activities d1 @ rows" "proof_rows p sts rows" "ledger_ok d2" "nonces d2 = nonces d1"
      "map lr_activity_id [prepare_intent rs, signed_local rs, verified_local rs, publish_blocked rs] =
       map r_activity_id rows"
      by (rule record_proof_Inr)
    from rows(3,6) have "lr_activity_id (publish_blocked rs) = st_id (sts 3)" by (auto simp: proof_rows_def)
    with rows built_with [OF Inr] Inr show ?thesis
      by (intro conjI exI [where x = rows]) (simp_all add: out r2 recorded_with_def)
  qed
qed

lemma preparation_steps:
  assumes "ledger_ok d" and "prepare_first_announcement c sts arg nonce room text0 d = (res, d')"
    and "reserve_announcement_nonce (arg_did arg) room nonce d = (reserved, d1)"
  shows "case reserved of
      Inl e \<Rightarrow> res = Inl e \<and> d' = d1
    | Inr n \<Rightarrow> last_nonce d (arg_did arg, room) < n \<and> last_nonce d1 (arg_did arg, room) = n \<and>
        nonces d' = nonces d1 \<and> (\<exists>rows. activities d' = activities d @ rows \<and>
          (\<forall>prep. res = Inr prep \<longrightarrow> recorded_with c sts arg room n text0 prep rows))"
    and "ledger_ok d'" and "activities d1 = activities d"
proof -
  note keeps = claim_keeps [OF assms(3,1)]
  show "activities d1 = activities d" using keeps by blast
  have "(case reserved of
      Inl e \<Rightarrow> res = Inl e \<and> d' = d1
    | Inr n \<Rightarrow> last_nonce d (arg_did arg, room) < n \<and> last_nonce d1 (arg_did arg, room) = n \<and>
        nonces d' = nonces d1 \<and> (\<exists>rows. activities d' = activities d @ rows \<and>
          (\<forall>prep. res = Inr prep \<longrightarrow> recorded_with c sts arg room n text0 prep rows))) \<and> ledger_ok d'"
  proof (cases reserved)
    case (Inl e)
    with assms(2,3) keeps(1) show ?thesis by (auto simp: prepare_first_announcement_def dbind_def)
  next
    case (Inr n)
    with assms(2,3) have "dbind (dlift (build_local_announcement_proof c arg (VInt n) room text0)) (\<lambda>p.
      dbind (record_local_announcement_proof c sts DEFAULT_TASK p) (\<lambda>records.
        dlift (Inr \<lparr>prep_proof = p, prep_records = records\<rparr>))) d1 = (res, d')"
      by (simp add: prepare_first_announcement_def dbind_def)
    from after_reservation [OF keeps(1) this] keeps(2,4) Inr show ?thesis by simp
  qed
  then show "case reserved of
      Inl e \<Rightarrow> res = Inl e \<and> d' = d1
    | Inr n \<Rightarrow> last_nonce d (arg_did arg, room) < n \<and> last_nonce d1 (arg_did arg, room) = n \<and>
        nonces d' = nonces d1 \<and> (\<exists>rows. activities d' = activities d @ rows \<and>
          (\<forall>prep. res = Inr prep \<longrightarrow> recorded_with c sts arg room n text0 prep rows))" "ledger_ok d'"
    by blast+
qed

lemma prepare_cases:
  assumes "ledger_ok d" and "prepare_first_announcement c sts arg nonce room text0 d = (res, d')"
  obtains (failed) e where "res = Inl e" "ledger_ok d'" "last_nonce d (arg_did arg, room) \<le> last_nonce d' (arg_did arg, room)"
      "\<exists>rows. activities d' = activities d @ rows"
  | (prepared) cap p rs rows where "res = Inr \<lparr>prep_proof = p, prep_records = rs\<rparr>" "arg = ACapability cap"
      "build_local_announcement_proof c arg (VInt (last_nonce d' (arg_did arg, room))) room text0 = Inr p"
      "last_nonce d (arg_did arg, room) < last_nonce d' (arg_did arg, room)"
      "proof_holds c p = Inr True" "activities d' = activities d @ rows" "proof_rows p sts rows"
      "lr_activity_id (publish_blocked rs) = st_id (sts 3)" "ledger_ok d'"
proof -
  let ?key = "(arg_did arg, room)"
  obtain reserved d1 where n: "reserve_announcement_nonce (arg_did arg) room nonce d = (reserved, d1)"
    by (meson surj_pair)
  note steps = preparation_steps [OF assms n]
  show thesis
  proof (cases reserved)
    case (Inl e)
    then show thesis
      using steps claim_keeps(3) [OF n assms(1), of ?key] by (intro failed [of e]) auto
  next
    case (Inr k)
    with steps obtain rows where k: "last_nonce d ?key < k" "last_nonce d' ?key = k" "activities d' = activities d @ rows"
      and prep: "\<And>prep. res = Inr prep \<Longrightarrow> recorded_with c sts arg room k text0 prep rows"
      by (auto simp: last_nonce_def)
    show thesis
    proof (cases res)
      case (Inl e)
      then show thesis using steps k by (intro failed [of e]) auto
    next
      case (Inr q)
      obtain p rs where q: "q = \<lparr>prep_proof = p, prep_records = rs\<rparr>" by (cases q)
      with prep [OF Inr] obtain cap where "arg = ACapability cap" "build_local_announcement_proof c arg (VInt k) room text0 = Inr p"
        "proof_holds c p = Inr True" "proof_rows p sts rows" "lr_activity_id (publish_blocked rs) = st_id (sts 3)"
        by (auto simp: recorded_with_def)
      then show thesis using steps k Inr q by (intro prepared [of p rs cap rows]) simp_all
    qed
  qed
qed

text \<open>
  C17. The nonce is spent before anything else happens and is never given back. When the
  reservation fails, nothing is built or recorded: the preparation raises the same
  exception and leaves the ledger as the reservation left it, without a new record.
  Otherwise the reserved nonce is above the one stored for this author and room and is
  stored from then on, whether the rest succeeds or raises at any point, and no other
  counter changes after it. A finished preparation used a capability and has a proof that holds,
  for this author, this room and that nonce; the four linked records of that proof are the only
  new ones. The ledger stays consistent in every case.
\<close>

theorem preparation_spends_a_fresh_nonce:
  assumes "ledger_ok d" and "prepare_first_announcement c sts arg nonce room text0 d = (res, d')"
    and "reserve_announcement_nonce (arg_did arg) room nonce d = (reserved, d1)"
  shows "ledger_ok d' \<and> activities d1 = activities d \<and>
    (case reserved of
      Inl e \<Rightarrow> res = Inl e \<and> d' = d1
    | Inr n \<Rightarrow> last_nonce d (arg_did arg, room) < n \<and> last_nonce d1 (arg_did arg, room) = n \<and>
        nonces d' = nonces d1 \<and> (\<exists>rows. activities d' = activities d @ rows \<and>
          (\<forall>prep. res = Inr prep \<longrightarrow> recorded_with c sts arg room n text0 prep rows)))"
  using preparation_steps [OF assms] by blast

section \<open>A concrete announcement\<close>

lemma lobby_key: "text_key ROOT_AGENT_DID FIRST_ANNOUNCEMENT_ROOM" "ROOT_AGENT_DID \<noteq> []"
  "FIRST_ANNOUNCEMENT_ROOM \<noteq> []"
  by (simp_all add: text_key_def ROOT_AGENT_DID_def FIRST_ANNOUNCEMENT_ROOM_def is_scalar_ascii)

text \<open>Another process reserves the nonces up to four between the read and the reservation.\<close>

theorem claimed_nonce_is_fresh_witness:
  "\<exists>d'. claim_announcement_nonce
       (\<lambda>d. d\<lparr>nonces := (nonces d)((ROOT_AGENT_DID, FIRST_ANNOUNCEMENT_ROOM) \<mapsto> 4)\<rparr>)
       ROOT_AGENT_DID FIRST_ANNOUNCEMENT_ROOM VNone empty_db = (Inr 5, d') \<and>
     last_nonce d' (ROOT_AGENT_DID, FIRST_ANNOUNCEMENT_ROOM) = 5"
proof -
  let ?o = "\<lambda>d. d\<lparr>nonces := (nonces d)((ROOT_AGENT_DID, FIRST_ANNOUNCEMENT_ROOM) \<mapsto> 4)\<rparr>"
  have "\<exists>d'. claim_announcement_nonce ?o ROOT_AGENT_DID FIRST_ANNOUNCEMENT_ROOM VNone empty_db = (Inr 5, d')"
    using lobby_key
    by (simp add: claim_announcement_nonce_def Let_def dbind_def others_def scope_for_room_def current_eq
        reserve_eq next_nonce_def last_nonce_update MAX_STORABLE_NONCE_def empty_db_def dlift_def last_nonce_def)
  with claimed_nonce_is_fresh show ?thesis by blast
qed

theorem reserve_announcement_nonce_functional_witness:
  "reserve_announcement_nonce ROOT_AGENT_DID FIRST_ANNOUNCEMENT_ROOM (VInt 3) empty_db =
     (Inr 3, empty_db\<lparr>nonces := (nonces empty_db)((ROOT_AGENT_DID, FIRST_ANNOUNCEMENT_ROOM) \<mapsto> 3)\<rparr>)"
  using reserve_announcement_nonce_functional [OF lobby_key(2,3,1), of empty_db 3]
  by (simp add: valid_nonce_def last_nonce_def MAX_STORABLE_NONCE_def empty_db_def)

lemma toy_capability_ok: "capability_ok toy_backend (toy_capability notes)"
  by (rule build_capability_ok [OF toy_backend_ok toy_build])

lemma toy_proof: "\<exists>p. build_local_announcement_proof toy_backend (ACapability (toy_capability notes)) (VInt 5)
    (str_lit ''room'') (str_lit ''7|v'') = Inr p"
proof -
  from toy_signs [of "notes"] obtain m where m: "sign_technocore_message toy_backend (toy_capability notes)
      (VStr (str_lit ''room'')) (VInt 5) (VStr (str_lit ''7|v'')) = Inr m" by blast
  then obtain b sig where b: "message_payload (VStr (str_lit ''room'')) (VInt 5) (VStr (str_lit ''7|v'')) DEFAULT_SWEEP False = Inr b"
    and sig: "signer_sign toy_backend (cap_sign (toy_capability notes)) (VBytes b) = Inr sig"
    and m': "m = message_of (toy_capability notes) (str_lit ''room'') 5 (str_lit ''7|v'') sig b"
    by (auto simp: sign_technocore_message_Inr simp del: str_lit_Cons)
  have "verify_message toy_backend (VStr (sm_did m)) (VStr (sm_signature m)) (VStr (str_lit ''room'')) (VInt 5)
      (VStr (str_lit ''7|v'')) = Inr True"
    using capability_signature_verifies [OF toy_capability_ok sig] b
    by (simp add: verify_message_rebuilt m' message_of_def del: str_lit_Cons)
  moreover have "single_line_sweep (VStr (str_lit ''7|v'')) None = Inr (str_lit ''7|v'')"
    by (simp add: single_line_sweep_Inr swept_example del: str_lit_Cons)
  moreover have "message_payload (VStr (str_lit ''room'')) (VInt 5) (VStr (str_lit ''7|v'')) DEFAULT_SWEEP True = Inr b"
    using b message_payload_swept [of "str_lit ''room''" 5 "str_lit ''7|v''" b] by (simp add: swept_example del: str_lit_Cons)
  moreover have "sm_swept_text m = str_lit ''7|v''" by (simp add: m' message_of_def swept_example del: str_lit_Cons)
  moreover have "validate_nonce (VInt 5) = Inr 5" by (simp add: validate_nonce_Inr valid_nonce_def)
  moreover obtain h where "sha256_text (str_lit ''7|v'') = Inr h"
    by (simp add: sha256_text_def utf8_encode_def utf8_char_def)
  ultimately show ?thesis
    using m by (simp add: build_local_announcement_proof_def del: str_lit_Cons)
qed

theorem local_proof_is_sound_witness:
  "\<exists>p. build_local_announcement_proof toy_backend (ACapability (toy_capability False)) (VInt 5)
      (str_lit ''room'') (str_lit ''7|v'') = Inr p \<and> proof_holds toy_backend p = Inr True"
  using toy_proof local_proof_is_sound [OF toy_capability_ok] by blast

definition toy_stamps :: stamps where
  "toy_stamps i = \<lparr>st_id = [49 + i], st_recorded = [50], st_occurred = [51]\<rparr>"

theorem proof_records_are_linked_witness:
  "\<exists>p res d'. build_local_announcement_proof toy_backend (ACapability (toy_capability False)) (VInt 5)
      (str_lit ''room'') (str_lit ''7|v'') = Inr p \<and>
    record_local_announcement_proof toy_backend toy_stamps DEFAULT_TASK p empty_db = (res, d') \<and>
    ledger_ok d' \<and> (\<forall>rs. res = Inr rs \<longrightarrow> length (activities d') = 4)"
proof -
  obtain p where p: "build_local_announcement_proof toy_backend (ACapability (toy_capability False)) (VInt 5)
      (str_lit ''room'') (str_lit ''7|v'') = Inr p" using toy_proof by blast
  obtain res d' where r: "record_local_announcement_proof toy_backend toy_stamps DEFAULT_TASK p empty_db = (res, d')"
    by (cases "record_local_announcement_proof toy_backend toy_stamps DEFAULT_TASK p empty_db")
  have "proof_rows p toy_stamps rows \<Longrightarrow> length rows = 4" for rows
    by (drule arg_cong [of _ _ length, OF conjunct1, OF proof_rows_def [THEN iffD1]]) simp
  with proof_records_are_linked [OF ledger_ok_empty r] p r show ?thesis
    by (intro exI [where x = p] exI [where x = res] exI [where x = d']) (auto simp: activities_empty)
qed

lemma toy_did_key: "arg_did (ACapability (toy_capability False)) = toy_did" "toy_did \<noteq> []" "scalar_str toy_did"
proof -
  show "arg_did (ACapability (toy_capability False)) = toy_did"
    by (simp add: toy_capability_def CapabilitySigner_init_def toy_handle_def toy_did_def)
  show "toy_did \<noteq> []" by (simp add: toy_did_def did_key_text_def DID_PREFIX_def)
  have "\<forall>c \<in> set B58_ALPHABET. is_scalar c" by (simp add: B58_ALPHABET_def is_scalar_ascii)
  moreover have "c \<in> set B58_ALPHABET" if "c \<in> set (b58encode bs)" for c bs
    using that nth_mem [of 0 B58_ALPHABET] by (auto simp: b58encode_digits dest!: be_digits_lt)
  ultimately show "scalar_str toy_did"
    by (auto simp: scalar_str_def toy_did_def did_key_text_def DID_PREFIX_def MULTIBASE_BASE58BTC_def is_scalar_ascii)
qed

theorem preparation_spends_a_fresh_nonce_witness:
  "\<exists>res d'. prepare_first_announcement toy_backend toy_stamps (ACapability (toy_capability False)) VNone
      FIRST_ANNOUNCEMENT_ROOM FIRST_ANNOUNCEMENT_TEXT empty_db = (res, d') \<and> ledger_ok d' \<and>
    last_nonce d' (arg_did (ACapability (toy_capability False)), FIRST_ANNOUNCEMENT_ROOM) = 1 \<and>
    (\<forall>prep. res = Inr prep \<longrightarrow> ap_nonce (prep_proof prep) = 1)"
proof -
  let ?arg = "ACapability (toy_capability False)" and ?room = FIRST_ANNOUNCEMENT_ROOM
  obtain res d' where r: "prepare_first_announcement toy_backend toy_stamps ?arg VNone ?room
      FIRST_ANNOUNCEMENT_TEXT empty_db = (res, d')"
    by (metis surj_pair)
  have key: "text_key (arg_did ?arg) ?room" "arg_did ?arg \<noteq> []" "?room \<noteq> []"
    using lobby_key toy_did_key by (simp_all add: text_key_def)
  obtain d1 where n: "reserve_announcement_nonce (arg_did ?arg) ?room VNone empty_db = (Inr 1, d1)"
    using key
    by (simp add: reserve_announcement_nonce_def claim_announcement_nonce_def Let_def dbind_def others_def
        scope_for_room_def current_eq reserve_eq next_nonce_def last_nonce_update MAX_STORABLE_NONCE_def
        empty_db_def dlift_def last_nonce_def)
  from preparation_spends_a_fresh_nonce [OF ledger_ok_empty r n] r show ?thesis
    by (auto simp: recorded_with_def last_nonce_def)
qed

end
