(* ===== verification/Publish.thy ===== *)
theory Publish
  imports Announcement
begin

text \<open>
  \<open>technocore/announcement.py\<close>, the public half: \<open>publish_first_announcement_once\<close>
  prepares the proof, opens a gate for this one message, sends once and records the
  result.
\<close>

section \<open>Publishing\<close>

record AnnouncementPublishResult =
  pr_preparation :: AnnouncementPreparation
  pr_record :: LedgerRecord
  pr_response_hash :: pystr
  pr_server_seq :: seq_value

definition response_hash :: "json \<Rightarrow> exn + pystr" where
  "response_hash response = rbind (dumps response) sha256_text"

definition opt_member :: "string \<Rightarrow> pystr option \<Rightarrow> (pystr \<times> json) list" where
  "opt_member name v = (case v of None \<Rightarrow> [] | Some s \<Rightarrow> [(str_lit name, JStr s)])"

definition publish_meta ::
  "AnnouncementProof \<Rightarrow> bool \<Rightarrow> pystr \<Rightarrow> pystr option \<Rightarrow> pystr option \<Rightarrow> json" where
  "publish_meta p delivered status rhash error =
     JObj ([(str_lit ''canonical_text_hash'', JStr (ap_canonical_text_hash p)),
            (str_lit ''message_sha256'', JStr FIRST_ANNOUNCEMENT_SHA256),
            (str_lit ''publish_status'', JStr status),
            (str_lit ''sent_once'', JBool delivered),
            stage ''publish_result''] @
           opt_member ''server_response_hash'' rhash @ opt_member ''error'' error)"

definition publish_activity ::
  "AnnouncementPreparation \<Rightarrow> bool \<Rightarrow> pystr \<Rightarrow> pystr option \<Rightarrow> seq_value option \<Rightarrow> pystr option \<Rightarrow> pystr \<Rightarrow> Activity" where
  "publish_activity prep delivered status rhash server_seq error now =
     (proof_activity (prep_proof prep) PUBLISH_RESULT now)
       \<lparr>a_ref_activity_id := Some (lr_activity_id (publish_blocked (prep_records prep))),
        a_tc_seq := server_seq, a_signature := Some (ap_signature (prep_proof prep)),
        a_result_hash := rhash,
        a_meta := Some (publish_meta (prep_proof prep) delivered status rhash error)\<rparr>"

definition record_publish_result ::
  "stamp \<Rightarrow> AnnouncementPreparation \<Rightarrow> bool \<Rightarrow> pystr \<Rightarrow> pystr option \<Rightarrow> seq_value option \<Rightarrow> pystr option \<Rightarrow>
     LedgerRecord dbop" where
  "record_publish_result st prep delivered status rhash server_seq error =
     append_at st (publish_activity prep delivered status rhash server_seq error)"

definition publish_guards :: "bool \<Rightarrow> pystr \<Rightarrow> pystr \<Rightarrow> exn + unit" where
  "publish_guards confirm room message_sha256 =
     rbind (unless_raise confirm (announce_error ConfirmationRequired)) (\<lambda>_.
     rbind (unless_raise (room = FIRST_ANNOUNCEMENT_ROOM) (announce_error RoomNotPrepared)) (\<lambda>_.
     unless_raise (message_sha256 = FIRST_ANNOUNCEMENT_SHA256) (announce_error HashNotPrepared)))"

text \<open>The write that the proof describes.\<close>

definition announcement_write :: "AnnouncementProof \<Rightarrow> bytes \<Rightarrow> SignedWrite" where
  "announcement_write p payload =
     \<lparr>sw_did = ap_did p, sw_room = ap_room p, sw_nonce = ap_nonce p, sw_text = ap_original_text p,
      sw_swept_text = ap_canonical_text p, sw_signature = ap_signature p, sw_payload = payload\<rparr>"

definition prepared_write :: "'key ed25519 \<Rightarrow> AnnouncementProof \<Rightarrow> pystr \<Rightarrow> exn + SignedWrite" where
  "prepared_write c p message_sha256 =
     (if ap_canonical_text_hash p \<noteq> message_sha256 then Inl (announce_error CanonicalHashMismatch)
      else
      rbind (proof_holds c p) (\<lambda>holds.
      if \<not> holds then Inl (announce_error ProofVerificationFailed)
      else
      rbind (message_payload (VStr (ap_room p)) (VInt (ap_nonce p)) (VStr (ap_canonical_text p))
               DEFAULT_SWEEP True) (\<lambda>payload.
      let w = announcement_write p payload in
      rbind (write_verifies c w) (\<lambda>ok.
        if ok then Inr w else Inl (announce_error WriteVerificationFailed)))))"

text \<open>\<open>ok is not True or not isinstance(seq, int)\<close>: the sequence number when neither holds.\<close>

definition accepted_seq :: "json \<Rightarrow> seq_value option" where
  "accepted_seq response =
     (case response of
        JObj ms \<Rightarrow>
          if get ms ''ok'' = JBool True
          then (case get ms ''seq'' of JInt i \<Rightarrow> Some (SeqInt i) | JBool b \<Rightarrow> Some (SeqBool b) | _ \<Rightarrow> None)
          else None
      | _ \<Rightarrow> None)"

text \<open>What happens to the server's answer.\<close>

definition conclude_publish ::
  "stamp \<Rightarrow> AnnouncementPreparation \<Rightarrow> json \<Rightarrow> AnnouncementPublishResult dbop" where
  "conclude_publish st prep response =
     dbind (dlift (response_hash response)) (\<lambda>h.
     case accepted_seq response of
       None \<Rightarrow>
         dbind (record_publish_result st prep False (str_lit ''UNEXPECTED_RESPONSE'') (Some h) None None) (\<lambda>_.
           dlift (Inl (announce_error UnexpectedResponse)))
     | Some seq \<Rightarrow>
         dbind (record_publish_result st prep True PUBLISHED (Some h) (Some seq) None) (\<lambda>rec.
           dlift (Inr \<lparr>pr_preparation = prep, pr_record = rec, pr_response_hash = h, pr_server_seq = seq\<rparr>)))"

definition conclude_failure :: "stamp \<Rightarrow> AnnouncementPreparation \<Rightarrow> exn \<Rightarrow> AnnouncementPublishResult dbop" where
  "conclude_failure st prep e =
     (if is_TechnocoreError e then
        dbind (record_publish_result st prep False (str_lit ''AMBIGUOUS_OR_FAILED'') None None
                 (Some (exc_name e))) (\<lambda>_. dlift (Inl (announce_error PublishNotClean)))
      else dlift (Inl e))"

definition publish_first_announcement_once ::
  "'key io \<Rightarrow> stamps \<Rightarrow> 'key signing_arg \<Rightarrow> pystr \<Rightarrow> pystr \<Rightarrow> bool \<Rightarrow> TechnocoreClient \<Rightarrow> db \<Rightarrow>
     (exn + AnnouncementPublishResult) \<times> db \<times> TechnocoreClient" where
  "publish_first_announcement_once io sts arg room message_sha256 confirm cl d =
     (case publish_guards confirm room message_sha256 of
        Inl e \<Rightarrow> (Inl e, d, cl)
      | Inr _ \<Rightarrow>
          (case prepare_first_announcement (backend io) sts arg VNone room FIRST_ANNOUNCEMENT_TEXT d of
             (Inl e, d1) \<Rightarrow> (Inl e, d1, cl)
           | (Inr prep, d1) \<Rightarrow>
               (let p = prep_proof prep in
                case rbind (prepared_write (backend io) p message_sha256) (\<lambda>w.
                     rbind (Gate_init (client_host cl) (VStr (ap_room p)) message_sha256 (VInt (ap_nonce p)) True)
                       (\<lambda>gate. Inr (w, gate))) of
                  Inl e \<Rightarrow> (Inl e, d1, cl)
                | Inr (w, gate) \<Rightarrow>
                    (case send_signed_message io w (Some gate) cl of
                       (Inl e, _, cl') \<Rightarrow>
                         (let (r, d2) = conclude_failure (sts 4) prep e d1 in (r, d2, cl'))
                     | (Inr response, _, cl') \<Rightarrow>
                         (let (r, d2) = conclude_publish (sts 4) prep response d1 in (r, d2, cl'))))))"

section \<open>The record of the result\<close>

lemma publish_activity_fields [simp]:
  "a_activity_type (publish_activity prep dl status h sq err now) = PUBLISH_RESULT"
  "a_ref_activity_id (publish_activity prep dl status h sq err now) =
     Some (lr_activity_id (publish_blocked (prep_records prep)))"
  "a_tc_seq (publish_activity prep dl status h sq err now) = sq"
  by (simp_all add: publish_activity_def proof_activity_def plain_activity_def)

text \<open>The ledger after the outcome: unchanged, or with one result that refers to the proof.\<close>

definition result_recorded :: "AnnouncementPreparation \<Rightarrow> db \<Rightarrow> db \<Rightarrow> bool" where
  "result_recorded prep d d' \<longleftrightarrow> (\<exists>r. activities d' = activities d @ [r] \<and>
     r_activity_type r = PUBLISH_RESULT \<and>
     r_ref_activity_id r = Some (lr_activity_id (publish_blocked (prep_records prep))))"

lemma record_publish_result_cases:
  assumes "ledger_ok d" and "record_publish_result st prep dl status h sq err d = (res, d')"
  shows "(\<exists>e. res = Inl e \<and> d' = d) \<or>
    (\<exists>lr. res = Inr lr \<and> result_recorded prep d d' \<and> nonces d' = nonces d \<and>
       (seq_bool sq = None \<longrightarrow> ledger_ok d'))"
proof -
  let ?a = "publish_activity prep dl status h sq err (st_occurred st)"
  have a: "(\<lambda>(i, t, a). append_activity i t a) (st_id st, st_recorded st, ?a) d = (res, d')"
    using assms(2) by (simp add: record_publish_result_def append_at_def)
  have "plain_seq ?a" if "seq_bool sq = None" using that by (simp add: plain_seq_def)
  with assms(1) a show ?thesis
    by (cases rule: ledger_log.put_cases) (auto simp: result_recorded_def record_of_def)
qed

text \<open>The ends of a publication, on the ledger that the preparation left.\<close>

definition concluded ::
  "AnnouncementPreparation \<Rightarrow> db \<Rightarrow> (exn + AnnouncementPublishResult) \<Rightarrow> db \<Rightarrow> bool" where
  "concluded prep d res d' \<longleftrightarrow> nonces d' = nonces d \<and>
     (case res of
        Inr out \<Rightarrow> result_recorded prep d d' \<and> pr_preparation out = prep \<and>
          (seq_bool (Some (pr_server_seq out)) = None \<longrightarrow> ledger_ok d')
      | Inl e \<Rightarrow> ledger_ok d' \<and> (d' = d \<or> result_recorded prep d d' \<and>
          e \<in> {announce_error PublishNotClean, announce_error UnexpectedResponse}))"

lemma conclude_publish_concluded:
  assumes "ledger_ok d" and "conclude_publish st prep response d = (res, d')"
  shows "concluded prep d res d'"
proof (cases "response_hash response")
  case (Inl e)
  then show ?thesis using assms by (auto simp: conclude_publish_def dbind_def dlift_def concluded_def)
next
  case (Inr h)
  show ?thesis
  proof (cases "accepted_seq response")
    case None
    let ?m = "record_publish_result st prep False (str_lit ''UNEXPECTED_RESPONSE'') (Some h) None None"
    obtain r d1 where m: "?m d = (r, d1)" by (cases "?m d")
    from record_publish_result_cases [OF assms(1) m] show ?thesis
      using assms Inr None m
      by (auto simp: conclude_publish_def dbind_def dlift_def concluded_def simp del: str_lit_Cons)
  next
    case (Some sq)
    let ?m = "record_publish_result st prep True PUBLISHED (Some h) (Some sq) None"
    obtain r d1 where m: "?m d = (r, d1)" by (cases "?m d")
    from record_publish_result_cases [OF assms(1) m] show ?thesis
      using assms Inr Some m by (auto simp: conclude_publish_def dbind_def dlift_def concluded_def)
  qed
qed

lemma conclude_failure_concluded:
  assumes "ledger_ok d" and "conclude_failure st prep e d = (res, d')"
  shows "concluded prep d res d' \<and> (\<exists>e. res = Inl e)"
proof (cases "is_TechnocoreError e")
  case True
  let ?m = "record_publish_result st prep False (str_lit ''AMBIGUOUS_OR_FAILED'') None None (Some (exc_name e))"
  obtain r d1 where m: "?m d = (r, d1)" by (cases "?m d")
  from record_publish_result_cases [OF assms(1) m] show ?thesis
    using assms True m
    by (auto simp: conclude_failure_def dbind_def dlift_def concluded_def simp del: str_lit_Cons)
qed (use assms in \<open>auto simp: conclude_failure_def concluded_def\<close>)

section \<open>Properties\<close>

lemma send_with_gate:
  assumes "send_signed_message io w (Some g) cl = (r, g', cl')"
  shows "sent cl' = sent cl \<and> (\<exists>e. r = Inl e) \<or> sent_one io w (Some g) cl cl'"
proof -
  obtain r1 g1 cl1 where b: "send_body io w (Some g) cl = (r1, g1, cl1)" by (metis prod_cases3)
  with assms have "r = r1" "cl' = cl1" by (auto simp: send_signed_message_def)
  with send_body_sends [OF b] show ?thesis by auto
qed

lemma prepared_write_Inr:
  "prepared_write c p sha = Inr w \<Longrightarrow> ap_canonical_text_hash p = sha \<and> proof_holds c p = Inr True \<and>
     (\<exists>payload. w = announcement_write p payload) \<and> write_verifies c w = Inr True"
  by (auto simp: prepared_write_def rbind_eq_Inr Let_def split: if_splits)

lemma build_fields:
  "build_local_announcement_proof c arg (VInt n) room t = Inr p \<Longrightarrow> ap_room p = room \<and> ap_nonce p = n"
  by (auto simp: build_local_announcement_proof_def rbind_eq_Inr sign_technocore_message_Inr message_of_def
      validate_nonce_Inr split: if_splits signing_arg.splits)

text \<open>
  The request that publishes a prepared proof, and everything that holds when it leaves:
  \<open>d\<close> is the database before the call and \<open>d1\<close> the one when the request is sent.
\<close>

definition published_once ::
  "'key io \<Rightarrow> stamps \<Rightarrow> 'key signing_arg \<Rightarrow> AnnouncementPreparation \<Rightarrow>
     TechnocoreClient \<Rightarrow> db \<Rightarrow> TechnocoreClient \<Rightarrow> db \<Rightarrow> bool" where
  "published_once io sts arg prep cl d cl' d1 \<longleftrightarrow>
     (let p = prep_proof prep in
      \<exists>payload path rows. sent cl' = sent cl @ [(base_url cl @ path, [])] \<and>
        write_path (announcement_write p payload) = Inr path \<and>
        write_verifies (backend io) (announcement_write p payload) = Inr True \<and>
        (\<exists>cap. arg = ACapability cap) \<and> is_public cl \<and>
        proof_holds (backend io) p = Inr True \<and> ap_canonical_text_hash p = FIRST_ANNOUNCEMENT_SHA256 \<and>
        ap_room p = FIRST_ANNOUNCEMENT_ROOM \<and>
        last_nonce d (arg_did arg, FIRST_ANNOUNCEMENT_ROOM) < ap_nonce p \<and>
        last_nonce d1 (arg_did arg, FIRST_ANNOUNCEMENT_ROOM) = ap_nonce p \<and>
        ledger_ok d1 \<and> activities d1 = activities d @ rows \<and> proof_rows p sts rows \<and>
        lr_activity_id (publish_blocked (prep_records prep)) = st_id (sts 3))"

lemma publish_prepared:
  assumes "prepare_first_announcement (backend io) sts arg VNone FIRST_ANNOUNCEMENT_ROOM t d = (Inr prep, d1)"
    and "ledger_ok d" and "prepared_write (backend io) (prep_proof prep) FIRST_ANNOUNCEMENT_SHA256 = Inr w"
    and "send_signed_message io w (Some g) cl = (r, g', cl')"
  shows "sent cl' = sent cl \<and> (\<exists>e. r = Inl e) \<or> published_once io sts arg prep cl d cl' d1"
proof -
  from assms(2,1) obtain cap p rs rows where prep: "prep = \<lparr>prep_proof = p, prep_records = rs\<rparr>" "arg = ACapability cap"
    "build_local_announcement_proof (backend io) arg (VInt (last_nonce d1 (arg_did arg, FIRST_ANNOUNCEMENT_ROOM)))
       FIRST_ANNOUNCEMENT_ROOM t = Inr p"
    "last_nonce d (arg_did arg, FIRST_ANNOUNCEMENT_ROOM) < last_nonce d1 (arg_did arg, FIRST_ANNOUNCEMENT_ROOM)"
    "proof_holds (backend io) p = Inr True" "activities d1 = activities d @ rows" "proof_rows p sts rows"
    "lr_activity_id (publish_blocked rs) = st_id (sts 3)" "ledger_ok d1"
    by (cases rule: prepare_cases) auto
  from prepared_write_Inr [OF assms(3)] obtain payload where w: "w = announcement_write p payload"
    "ap_canonical_text_hash p = FIRST_ANNOUNCEMENT_SHA256" "write_verifies (backend io) w = Inr True"
    by (auto simp: prep(1))
  show ?thesis
    using send_with_gate [OF assms(4)]
  proof
    assume "sent_one io w (Some g) cl cl'"
    then obtain path where "is_public cl" "write_path w = Inr path" "sent cl' = sent cl @ [(base_url cl @ path, [])]"
      by (auto simp: sent_one_def write_allowed_def)
    then have "published_once io sts arg prep cl d cl' d1"
      using prep w build_fields [OF prep(3)]
      by (auto simp: published_once_def Let_def)
    then show ?thesis ..
  qed blast
qed

lemma concluded_prefix: "concluded prep d res d' \<Longrightarrow> \<exists>rows. activities d' = activities d @ rows"
  by (auto simp: concluded_def result_recorded_def split: sum.splits)

lemma publish_outcome:
  assumes "ledger_ok d"
    and "publish_first_announcement_once io sts arg room sha confirm cl d = (res, d', cl')"
  shows "(\<exists>rows. activities d' = activities d @ rows) \<and>
    (sent cl' = sent cl \<and> (\<exists>e. res = Inl e) \<or>
     confirm \<and> room = FIRST_ANNOUNCEMENT_ROOM \<and> sha = FIRST_ANNOUNCEMENT_SHA256 \<and>
     (\<exists>prep d1. published_once io sts arg prep cl d cl' d1 \<and> concluded prep d1 res d'))"
proof (cases "publish_guards confirm room sha")
  case (Inl e)
  then show ?thesis using assms(2) by (auto simp: publish_first_announcement_once_def)
next
  case (Inr u)
  then have args: "confirm" "room = FIRST_ANNOUNCEMENT_ROOM" "sha = FIRST_ANNOUNCEMENT_SHA256"
    by (auto simp: publish_guards_def rbind_eq_Inr)
  have ok: "publish_guards True FIRST_ANNOUNCEMENT_ROOM FIRST_ANNOUNCEMENT_SHA256 = Inr ()"
    by (simp add: publish_guards_def unless_raise_def)
  obtain r1 d1 where prep: "prepare_first_announcement (backend io) sts arg VNone FIRST_ANNOUNCEMENT_ROOM
      FIRST_ANNOUNCEMENT_TEXT d = (r1, d1)" by (meson surj_pair)
  from assms(1) prep have grown: "(\<exists>rows. activities d1 = activities d @ rows) \<and> ledger_ok d1"
    by (cases rule: prepare_cases) auto
  let ?next = "\<lambda>prep. rbind (prepared_write (backend io) (prep_proof prep) sha) (\<lambda>w.
     rbind (Gate_init (client_host cl) (VStr (ap_room (prep_proof prep))) sha (VInt (ap_nonce (prep_proof prep))) True)
       (\<lambda>gate. Inr (w, gate)))"
  consider (stopped) e where "r1 = Inl e" | (no_gate) p e where "r1 = Inr p" "?next p = Inl e"
    | (gate) p w g where "r1 = Inr p" "?next p = Inr (w, g)"
    by (metis surj_pair old.sum.exhaust)
  then show ?thesis
  proof cases
    case stopped
    then show ?thesis using assms(2) prep grown by (auto simp: publish_first_announcement_once_def ok args)
  next
    case no_gate
    then show ?thesis
      using assms(2) prep grown by (auto simp: publish_first_announcement_once_def ok args Let_def)
  next
    case gate
    then have w: "prepared_write (backend io) (prep_proof p) FIRST_ANNOUNCEMENT_SHA256 = Inr w"
      by (auto simp: rbind_eq_Inr args)
    obtain r2 g2 cl2 where snd: "send_signed_message io w (Some g) cl = (r2, g2, cl2)" by (metis prod_cases3)
    obtain r3 d3 where fin: "(case r2 of Inl e \<Rightarrow> conclude_failure (sts 4) p e d1
        | Inr response \<Rightarrow> conclude_publish (sts 4) p response d1) = (r3, d3)" by (meson surj_pair)
    have out: "res = r3" "d' = d3" "cl' = cl2"
      using assms(2) prep gate snd fin
      by (auto simp: publish_first_announcement_once_def ok args Let_def split: sum.splits)
    have done_: "concluded p d1 res d'" "(\<exists>e. r2 = Inl e) \<longrightarrow> (\<exists>e. res = Inl e)"
      using fin grown conclude_failure_concluded [of d1 "sts 4" p _ r3 d3]
        conclude_publish_concluded [of d1 "sts 4" p _ r3 d3]
      by (auto simp: out split: sum.splits)
    have "sent cl' = sent cl \<and> (\<exists>e. r2 = Inl e) \<or> published_once io sts arg p cl d cl' d1"
      using publish_prepared [OF prep [unfolded gate(1)] assms(1) w snd] by (simp add: out)
    moreover obtain rows more where "activities d1 = activities d @ rows" "activities d' = activities d1 @ more"
      using grown concluded_prefix [OF done_(1)] by blast
    then have "\<exists>rows. activities d' = activities d @ rows" by auto
    ultimately show ?thesis using args done_ by blast
  qed
qed

text \<open>
  C2. The public message leaves at most once, and only with everything in place. Either
  nothing was sent and the call raised, or exactly one request was: confirmed, for the
  prepared room and hash, through a capability, to a public host, for a write that
  verifies under the local proof, whose four records were already in the ledger and whose
  nonce is fresh and stored. The ledger keeps all its old records in every case.
\<close>

theorem announcement_leaves_at_most_once:
  assumes "ledger_ok d"
    and "publish_first_announcement_once io sts arg room sha confirm cl d = (res, d', cl')"
  shows "(\<exists>rows. activities d' = activities d @ rows) \<and>
    (sent cl' = sent cl \<and> (\<exists>e. res = Inl e) \<or>
     confirm \<and> room = FIRST_ANNOUNCEMENT_ROOM \<and> sha = FIRST_ANNOUNCEMENT_SHA256 \<and>
     (\<exists>prep d1. published_once io sts arg prep cl d cl' d1 \<and> concluded prep d1 res d'))"
  by (rule publish_outcome [OF assms])

text \<open>
  The answer is hashed after the message was sent and before anything is recorded, and
  the hash is partial: an answer with a number that is not finite, or with a lone
  surrogate, makes the call raise \<open>ValueError\<close> or \<open>UnicodeEncodeError\<close>, and the
  ledger gets no result for a message that is public.
\<close>

theorem unhashable_answer_leaves_no_result:
  "conclude_publish st prep (JObj [(k, JNonFinite)]) d = (Inl ValueError, d) \<and>
   conclude_publish st prep (JObj [(k, JStr [0xD800])]) d = (Inl UnicodeEncodeError, d)"
proof -
  have "response_hash (JObj [(k, JNonFinite)]) = Inl ValueError"
    by (simp add: response_hash_def dumps_def)
  moreover have "response_hash (JObj [(k, JStr [0xD800])]) = Inl UnicodeEncodeError"
  proof -
    have "\<exists>t. dumps (JObj [(k, JStr [0xD800])]) = Inr t \<and> 0xD800 \<in> set t"
      by (simp add: dumps_def json_str_def escape_char.simps)
    then obtain t where t: "dumps (JObj [(k, JStr [0xD800])]) = Inr t" "0xD800 \<in> set t" by blast
    moreover have "\<not> is_scalar 0xD800" by (simp add: is_scalar_def is_surrogate_def)
    ultimately have "\<not> is_ok (utf8_encode t)" using utf8_encode_ok_iff by blast
    then have "utf8_encode t = Inl UnicodeEncodeError"
      using utf8_encode_Inl by (cases "utf8_encode t") auto
    then show ?thesis by (simp add: response_hash_def t(1) sha256_text_def)
  qed
  ultimately show ?thesis by (simp add: conclude_publish_def dbind_def dlift_def)
qed

text \<open>
  A host that is not one of the public ones is noticed only when the gate is opened,
  after the preparation: the call raises \<open>PublicWriteRefused\<close>, not
  \<open>AnnouncementPreparationError\<close>, nothing is sent, but the nonce is spent and the four
  records of the proof are in the ledger.
\<close>

theorem local_host_is_refused_after_the_preparation:
  assumes "Settings.lower (client_host cl) \<notin> set PUBLIC_HOSTS" and "confirm"
    and "prepare_first_announcement (backend io) sts arg VNone FIRST_ANNOUNCEMENT_ROOM
      FIRST_ANNOUNCEMENT_TEXT d = (r, d1)"
  shows "\<exists>e. publish_first_announcement_once io sts arg FIRST_ANNOUNCEMENT_ROOM FIRST_ANNOUNCEMENT_SHA256
      confirm cl d = (Inl e, d1, cl)"
proof (cases r)
  case (Inl e)
  then show ?thesis using assms(2,3) by (simp add: publish_first_announcement_once_def publish_guards_def unless_raise_def)
next
  case (Inr prep)
  let ?p = "prep_proof prep"
  have "\<exists>e. Gate_init (client_host cl) (VStr (ap_room ?p)) FIRST_ANNOUNCEMENT_SHA256 (VInt (ap_nonce ?p)) True = Inl e"
    using assms(1) by (cases "validate_room (VStr (ap_room ?p))"; cases "validate_nonce (VInt (ap_nonce ?p))")
      (auto simp: Gate_init_def unless_raise_def)
  then obtain e where "Gate_init (client_host cl) (VStr (ap_room ?p)) FIRST_ANNOUNCEMENT_SHA256 (VInt (ap_nonce ?p)) True = Inl e"
    by blast
  then have "\<exists>e. rbind (prepared_write (backend io) ?p FIRST_ANNOUNCEMENT_SHA256) (\<lambda>w.
     rbind (Gate_init (client_host cl) (VStr (ap_room ?p)) FIRST_ANNOUNCEMENT_SHA256 (VInt (ap_nonce ?p)) True)
       (\<lambda>gate. Inr (w, gate))) = Inl e"
    by (cases "prepared_write (backend io) ?p FIRST_ANNOUNCEMENT_SHA256") auto
  then show ?thesis
    using assms(2,3) Inr
    by (auto simp: publish_first_announcement_once_def publish_guards_def unless_raise_def Let_def)
qed

section \<open>A concrete publication\<close>

theorem announcement_leaves_at_most_once_witness:
  "\<exists>res d' cl'. publish_first_announcement_once (toy_io JNull) toy_stamps (ACapability (toy_capability False))
      FIRST_ANNOUNCEMENT_ROOM FIRST_ANNOUNCEMENT_SHA256 True (toy_client (str_lit ''technocore.chat'')) empty_db =
      (res, d', cl') \<and> length (sent cl') \<le> 1 \<and> (sent cl' = [] \<longrightarrow> (\<exists>e. res = Inl e))"
proof -
  obtain res d' cl' where s: "publish_first_announcement_once (toy_io JNull) toy_stamps
      (ACapability (toy_capability False)) FIRST_ANNOUNCEMENT_ROOM FIRST_ANNOUNCEMENT_SHA256 True
      (toy_client (str_lit ''technocore.chat'')) empty_db = (res, d', cl')" by (metis prod_cases3)
  have "sent (toy_client h) = []" for h by (simp add: toy_client_def)
  with announcement_leaves_at_most_once [OF ledger_ok_empty s] s show ?thesis
    by (auto simp: published_once_def Let_def)
qed

theorem local_host_is_refused_after_the_preparation_witness:
  "\<exists>e d1. publish_first_announcement_once (toy_io JNull) toy_stamps (ACapability (toy_capability False))
      FIRST_ANNOUNCEMENT_ROOM FIRST_ANNOUNCEMENT_SHA256 True (toy_client (str_lit ''localhost'')) empty_db =
      (Inl e, d1, toy_client (str_lit ''localhost''))"
proof -
  obtain r d1 where p: "prepare_first_announcement (backend (toy_io JNull)) toy_stamps
      (ACapability (toy_capability False)) VNone FIRST_ANNOUNCEMENT_ROOM FIRST_ANNOUNCEMENT_TEXT empty_db = (r, d1)"
    by (meson surj_pair)
  have "Settings.lower (client_host (toy_client (str_lit ''localhost''))) \<notin> set PUBLIC_HOSTS"
    by (simp add: toy_client_def PUBLIC_HOSTS_def Settings.lower_def lower_char_def)
  from local_host_is_refused_after_the_preparation [OF this TrueI p] obtain e where
    "publish_first_announcement_once (toy_io JNull) toy_stamps (ACapability (toy_capability False))
      FIRST_ANNOUNCEMENT_ROOM FIRST_ANNOUNCEMENT_SHA256 True (toy_client (str_lit ''localhost'')) empty_db =
      (Inl e, d1, toy_client (str_lit ''localhost''))" ..
  then show ?thesis by (intro exI)
qed

end
