(* ===== verification/Session.thy ===== *)
theory Session
  imports Publish
begin

text \<open>
  The program at work: any number of processes share one ledger, write recorded messages
  (\<open>technocore/outbound.py\<close>) and publish announcements (\<open>technocore/announcement.py\<close>). A
  step is what one transaction or one request does; between the steps of a process all
  others may act, and a process may stop after any of its steps. \<open>send_and_record\<close> and
  \<open>publish_first_announcement_once\<close> are shown to be runs of these steps.
\<close>

section \<open>Tokens\<close>

text \<open>
  Identifiers of records and nonces are issued once, held by one process and spent on one
  request.
\<close>

definition tokens_ok :: "('p \<Rightarrow> 't option) \<Rightarrow> 't list \<Rightarrow> ('t \<Rightarrow> bool) \<Rightarrow> bool" where
  "tokens_ok held used issued \<longleftrightarrow> distinct used \<and> (\<forall>t \<in> set used. issued t) \<and>
     (\<forall>p t. held p = Some t \<longrightarrow> issued t \<and> t \<notin> set used) \<and>
     (\<forall>p q t. held p = Some t \<and> held q = Some t \<longrightarrow> p = q)"

lemma tokens_start: "tokens_ok (\<lambda>_. None) [] issued"
  by (simp add: tokens_ok_def)

lemma tokens_move:
  assumes "tokens_ok held used issued" and "\<And>u. issued u \<Longrightarrow> issued' u"
    and "new = None \<or> new = held p \<or> (\<exists>t. new = Some t \<and> \<not> issued t \<and> issued' t)"
  shows "tokens_ok (held(p := new)) used issued'"
  using assms by (auto simp: tokens_ok_def)

lemma tokens_spend: "tokens_ok held used issued \<Longrightarrow> held p = Some t \<Longrightarrow>
    tokens_ok (held(p := None)) (used @ [t]) issued"
  by (auto simp: tokens_ok_def)

section \<open>State\<close>

text \<open>
  Where a process stands: it has recorded the intent of a write, reserved the nonce of an
  announcement, or recorded the proof of one. A departure is a request that left, with the
  record and the write it was sent for.
\<close>

datatype job =
    Free
  | Intended pystr SignedWrite
  | Chosen "pystr \<times> pystr" int
  | Proved pystr AnnouncementProof

record departure =
  dep_request :: request
  dep_record :: pystr
  dep_write :: SignedWrite
  dep_announces :: bool

record session =
  base :: db
  wire :: "departure list"
  jobs :: "nat \<Rightarrow> job"

definition session_start :: "db \<Rightarrow> session" where
  "session_start d = \<lparr>base = d, wire = [], jobs = (\<lambda>_. Free)\<rparr>"

text \<open>The requests that a client sent in addition.\<close>

definition departures ::
  "pystr \<Rightarrow> SignedWrite \<Rightarrow> bool \<Rightarrow> TechnocoreClient \<Rightarrow> TechnocoreClient \<Rightarrow> departure list" where
  "departures k w announces cl cl' =
     map (\<lambda>r. \<lparr>dep_request = r, dep_record = k, dep_write = w, dep_announces = announces\<rparr>)
       (drop (length (sent cl)) (sent cl'))"

abbreviation at_job :: "session \<Rightarrow> nat \<Rightarrow> job \<Rightarrow> nat \<Rightarrow> job" where
  "at_job s p j \<equiv> (jobs s)(p := j)"

section \<open>Steps\<close>

text \<open>
  \<open>session_intent\<close> and \<open>session_send\<close> are the two halves of \<open>send_and_record\<close>, whose outcome record
  is a \<open>session_ledger\<close> step. \<open>session_reserve\<close> and \<open>session_prove\<close> are the nonce and the last of the
  four records of \<open>prepare_first_announcement\<close>, and \<open>session_announce\<close> is what
  \<open>publish_first_announcement_once\<close> does from the signed write to the answer. \<open>session_ledger\<close> is
  any transaction on the ledger by any process; in a run that is not \<open>honest\<close> it may append a
  \<open>bool\<close> as server sequence number. A step takes a new client each time, so it
  allows more than a process with one client can do.
\<close>

inductive session_step :: "'key ed25519 \<Rightarrow> bool \<Rightarrow> session \<Rightarrow> session \<Rightarrow> bool" for c honest where
  session_ledger: "ledger_step honest (base s) d' \<Longrightarrow> session_step c honest s (s\<lparr>base := d'\<rparr>)"
| session_intent: "jobs s p = Free \<Longrightarrow> record_intent st w task (base s) = (Inr k, d') \<Longrightarrow>
    session_step c honest s (s\<lparr>base := d', jobs := at_job s p (Intended k w)\<rparr>)"
| session_send: "jobs s p = Intended k w \<Longrightarrow> backend io = c \<Longrightarrow>
    send_signed_message io w None cl = (r, g, cl') \<Longrightarrow>
    session_step c honest s (s\<lparr>wire := wire s @ departures k w False cl cl', jobs := at_job s p Free\<rparr>)"
| session_reserve: "jobs s p = Free \<Longrightarrow>
    reserve_announcement_nonce agent room nonce (base s) = (Inr n, d') \<Longrightarrow>
    session_step c honest s (s\<lparr>base := d', jobs := at_job s p (Chosen (agent, room) n)\<rparr>)"
| session_prove: "jobs s p = Chosen (arg_did arg, room) n \<Longrightarrow>
    build_local_announcement_proof c arg (VInt n) room t = Inr pf \<Longrightarrow>
    append_at st (blocked_activity pf task ref) (base s) = (Inr rec, d') \<Longrightarrow>
    session_step c honest s (s\<lparr>base := d', jobs := at_job s p (Proved (lr_activity_id rec) pf)\<rparr>)"
| session_announce: "jobs s p = Proved k pf \<Longrightarrow> backend io = c \<Longrightarrow> prepared_write c pf sha = Inr w \<Longrightarrow>
    Gate_init (client_host cl) (VStr (ap_room pf)) sha (VInt (ap_nonce pf)) True = Inr gate \<Longrightarrow>
    send_signed_message io w (Some gate) cl = (r, g, cl') \<Longrightarrow>
    session_step c honest s (s\<lparr>wire := wire s @ departures k w True cl cl', jobs := at_job s p Free\<rparr>)"
| session_crash: "session_step c honest s (s\<lparr>jobs := at_job s p Free\<rparr>)"

section \<open>The invariant\<close>

text \<open>A record names the message that a request carries.\<close>

definition names_write :: "row \<Rightarrow> SignedWrite \<Rightarrow> bool" where
  "names_write r w \<longleftrightarrow> r_agent_did r = sw_did w \<and> r_tc_room r = Some (sw_room w) \<and>
     r_tc_nonce r = Some (sw_nonce w) \<and> r_signed_payload_hash r = Some (sha256_hex (sw_payload w))"

definition backed :: "'key ed25519 \<Rightarrow> db \<Rightarrow> departure \<Rightarrow> bool" where
  "backed c d x \<longleftrightarrow> write_verifies c (dep_write x) = Inr True \<and>
     (\<exists>host path. write_path (dep_write x) = Inr path \<and> dep_request x = (host @ path, [])) \<and>
     (\<exists>r \<in> set (activities d). r_activity_id r = dep_record x \<and> names_write r (dep_write x) \<and>
        r_activity_type r = (if dep_announces x then PUBLISH_BLOCKED else INTENT))"

text \<open>What a process holds is in the ledger.\<close>

fun job_ok :: "'key ed25519 \<Rightarrow> db \<Rightarrow> job \<Rightarrow> bool" where
  "job_ok c d Free \<longleftrightarrow> True"
| "job_ok c d (Intended k w) \<longleftrightarrow> (\<exists>r \<in> set (activities d). r_activity_id r = k \<and> names_write r w \<and>
     r_activity_type r = INTENT)"
| "job_ok c d (Chosen key n) \<longleftrightarrow> True"
| "job_ok c d (Proved k pf) \<longleftrightarrow>
     (\<exists>r \<in> set (activities d). r_activity_id r = k \<and> r_activity_type r = PUBLISH_BLOCKED \<and>
        (\<forall>sha w. prepared_write c pf sha = Inr w \<longrightarrow> names_write r w))"

fun record_held :: "job \<Rightarrow> pystr option" where
  "record_held (Intended k w) = Some k"
| "record_held (Proved k pf) = Some k"
| "record_held j = None"

fun nonce_held :: "job \<Rightarrow> ((pystr \<times> pystr) \<times> int) option" where
  "nonce_held (Chosen key n) = Some (key, n)"
| "nonce_held (Proved k pf) = Some ((ap_did pf, ap_room pf), ap_nonce pf)"
| "nonce_held j = None"

definition nonce_spent :: "departure \<Rightarrow> (pystr \<times> pystr) \<times> int" where
  "nonce_spent x = ((sw_did (dep_write x), sw_room (dep_write x)), sw_nonce (dep_write x))"

definition nonces_spent :: "departure list \<Rightarrow> ((pystr \<times> pystr) \<times> int) list" where
  "nonces_spent xs = map nonce_spent (filter dep_announces xs)"

definition session_ok :: "'key ed25519 \<Rightarrow> bool \<Rightarrow> session \<Rightarrow> bool" where
  "session_ok c honest s \<longleftrightarrow> ledger_kept honest (base s) \<and> (\<forall>x \<in> set (wire s). backed c (base s) x) \<and>
     (\<forall>p. job_ok c (base s) (jobs s p)) \<and>
     tokens_ok (\<lambda>p. record_held (jobs s p)) (map dep_record (wire s))
       (\<lambda>k. k \<in> r_activity_id ` set (activities (base s))) \<and>
     tokens_ok (\<lambda>p. nonce_held (jobs s p)) (nonces_spent (wire s))
       (\<lambda>(key, n). n \<le> last_nonce (base s) key)"

section \<open>What a step leaves unchanged\<close>

lemma ledger_step_nonces:
  assumes "ledger_step h d d'" and "ledger_kept h d"
  shows "last_nonce d k \<le> last_nonce d' k"
  using assms(1)
proof (cases rule: ledger_step.cases)
  case (step_append a i t r)
  have "nonces d' = nonces d"
  proof (cases r)
    case (Inl e)
    then show ?thesis using step_append append_activity_Inl by blast
  next
    case (Inr lr)
    then have "append_activity i t a d = (Inr lr, d')" using step_append by simp
    with assms(2) show ?thesis by (rule append_result)
  qed
  then show ?thesis by (simp add: last_nonce_def)
next
  case (step_reserve agent scope floor r)
  then show ?thesis
    by (cases r) (auto simp: last_nonce_update next_nonce_def dest: reserve_Inl elim!: reserve_Inr)
next
  case (step_observe agent scope nonce r)
  then show ?thesis
    by (cases r) (auto simp: last_nonce_update dest: observe_Inl elim!: observe_Inr)
qed (auto simp: update_activities_def delete_activities_def last_nonce_def split: if_splits)

lemma backed_later: "backed c d x \<Longrightarrow> activities d' = activities d @ rows \<Longrightarrow> backed c d' x"
  by (auto simp: backed_def)

lemma job_ok_later: "job_ok c d j \<Longrightarrow> activities d' = activities d @ rows \<Longrightarrow> job_ok c d' j"
  by (cases j) auto

lemma held_upd: "(\<lambda>q. if q = p then t else g q) = g(p := t)"
  by auto

lemmas held_simps = if_distrib [of record_held] if_distrib [of nonce_held] held_upd

text \<open>A process goes from one job to another while the ledger grows.\<close>

lemma session_ok_move:
  assumes "session_ok c h s" and "ledger_kept h d'" and ext: "activities d' = activities (base s) @ rows"
    and mono: "\<And>k. last_nonce (base s) k \<le> last_nonce d' k" and "job_ok c d' j"
    and "record_held j = None \<or> record_held j = record_held (jobs s p) \<or>
      (\<exists>k. record_held j = Some k \<and> k \<notin> r_activity_id ` set (activities (base s)) \<and>
         k \<in> r_activity_id ` set (activities d'))"
    and "nonce_held j = None \<or> nonce_held j = nonce_held (jobs s p) \<or>
      (\<exists>key n. nonce_held j = Some (key, n) \<and> last_nonce (base s) key < n \<and> n \<le> last_nonce d' key)"
  shows "session_ok c h (s\<lparr>base := d', jobs := at_job s p j\<rparr>)"
proof -
  have "tokens_ok ((\<lambda>q. record_held (jobs s q))(p := record_held j)) (map dep_record (wire s))
      (\<lambda>k. k \<in> r_activity_id ` set (activities d'))"
    by (rule tokens_move [where issued = "\<lambda>k. k \<in> r_activity_id ` set (activities (base s))"])
      (use assms(1,6) ext in \<open>auto simp: session_ok_def\<close>)
  moreover have "tokens_ok ((\<lambda>q. nonce_held (jobs s q))(p := nonce_held j)) (nonces_spent (wire s))
      (\<lambda>(key, n). n \<le> last_nonce d' key)"
    by (rule tokens_move [where issued = "\<lambda>(key, n). n \<le> last_nonce (base s) key"])
      (use assms(1,7) mono in \<open>auto simp: session_ok_def intro: order_trans\<close>)
  moreover have "\<forall>x \<in> set (wire s). backed c d' x" "\<forall>q. job_ok c d' (((jobs s)(p := j)) q)"
    using assms(1,5) backed_later [of c, OF _ ext] job_ok_later [of c, OF _ ext] by (auto simp: session_ok_def)
  ultimately show ?thesis using assms(2) by (simp add: session_ok_def held_simps)
qed

lemma session_ok_base:
  assumes "session_ok c h s" and "ledger_kept h d'" and "activities d' = activities (base s) @ rows"
    and "\<And>k. last_nonce (base s) k \<le> last_nonce d' k"
  shows "session_ok c h (s\<lparr>base := d'\<rparr>)"
proof -
  have "job_ok c d' (jobs s 0)"
    using assms(1) job_ok_later [of c, OF _ assms(3)] by (simp add: session_ok_def)
  from session_ok_move [OF assms this, of 0] show ?thesis by simp
qed

text \<open>A process spends what it holds on a request.\<close>

lemma session_ok_leave:
  assumes "session_ok c h s" and "record_held (jobs s p) = Some k"
    and "departures k w b cl cl' = [] \<or> (\<exists>x. departures k w b cl cl' = [x] \<and> backed c (base s) x \<and> dep_record x = k \<and>
      (if dep_announces x then nonce_held (jobs s p) = Some (nonce_spent x) else True))"
  shows "session_ok c h (s\<lparr>wire := wire s @ departures k w b cl cl', jobs := at_job s p Free\<rparr>)"
proof -
  let ?issued = "\<lambda>k. k \<in> r_activity_id ` set (activities (base s))"
  let ?spent = "\<lambda>(key, n). n \<le> last_nonce (base s) key"
  have ok: "tokens_ok (\<lambda>p. record_held (jobs s p)) (map dep_record (wire s)) ?issued"
    "tokens_ok (\<lambda>p. nonce_held (jobs s p)) (nonces_spent (wire s)) ?spent"
    using assms(1) by (simp_all add: session_ok_def)
  have "tokens_ok ((\<lambda>q. record_held (jobs s q))(p := None)) (map dep_record (wire s @ departures k w b cl cl')) ?issued"
    using assms(3) tokens_spend [OF ok(1) assms(2)] tokens_move [OF ok(1), of ?issued None] by auto
  moreover have "tokens_ok ((\<lambda>q. nonce_held (jobs s q))(p := None))
      (nonces_spent (wire s @ departures k w b cl cl')) ?spent"
    using assms(3)
  proof (elim disjE exE conjE)
    fix x
    assume x: "departures k w b cl cl' = [x]"
      "if dep_announces x then nonce_held (jobs s p) = Some (nonce_spent x) else True"
    show ?thesis
      using x tokens_spend [OF ok(2), of p "nonce_spent x"] tokens_move [OF ok(2), of ?spent None p]
      by (cases "dep_announces x") (simp_all add: nonces_spent_def)
  qed (use tokens_move [OF ok(2), of ?spent None p] in \<open>simp add: nonces_spent_def\<close>)
  ultimately show ?thesis
    using assms(1,3) by (auto simp: session_ok_def held_simps)
qed

lemma departures_cases:
  assumes "send_signed_message io w gate cl = (r, g, cl')"
  obtains (none) "departures k w b cl cl' = []"
  | (left) path where "write_verifies (backend io) w = Inr True" "write_path w = Inr path"
      "departures k w b cl cl' = [\<lparr>dep_request = (base_url cl @ path, []), dep_record = k, dep_write = w,
         dep_announces = b\<rparr>]"
proof -
  obtain r1 g1 cl1 where b: "send_body io w gate cl = (r1, g1, cl1)" by (metis prod_cases3)
  with assms have "cl' = cl1" by (auto simp: send_signed_message_def)
  with send_body_sends [OF b] have "sent cl' = sent cl \<or> sent_one io w gate cl cl'" by auto
  then show thesis
    using that by (auto simp: departures_def sent_one_def)
qed

lemma append_at_fresh:
  assumes "ledger_kept h d" and "append_at st act d = (Inr rec, d')"
  shows "st_id st \<notin> r_activity_id ` set (activities d)"
proof -
  from assms(2) have "append_activity (st_id st) (st_recorded st) (act (st_occurred st)) d = (Inr rec, d')"
    by (simp add: append_at_def)
  with assms(1) show ?thesis by (rule append_result)
qed

lemma proved_names:
  assumes "build_local_announcement_proof c arg (VInt n) room t = Inr pf"
    and "record_of (blocked_activity pf task ref now) k r"
    and "prepared_write c pf sha = Inr w"
  shows "names_write r w"
proof -
  from assms(1) obtain payload where "message_payload (VStr (ap_room pf)) (VInt (ap_nonce pf)) (VStr (ap_canonical_text pf))
      DEFAULT_SWEEP True = Inr payload" "ap_payload_hash pf = sha256_hex payload"
    by (auto simp: build_local_announcement_proof_def rbind_eq_Inr sign_technocore_message_Inr message_of_def
        validate_nonce_Inr split: if_splits signing_arg.splits)
  with assms(2,3) show ?thesis
    by (auto simp: names_write_def record_of_def blocked_activity_def proof_activity_def plain_activity_def
        prepared_write_def announcement_write_def rbind_eq_Inr Let_def split: if_splits)
qed

lemma proved_key:
  "build_local_announcement_proof c arg (VInt n) room t = Inr pf \<Longrightarrow>
     (ap_did pf, ap_room pf) = (arg_did arg, room) \<and> ap_nonce pf = n"
  by (auto simp: build_local_announcement_proof_def rbind_eq_Inr sign_technocore_message_Inr message_of_def
      validate_nonce_Inr split: if_splits signing_arg.splits)

section \<open>Every step keeps the invariant\<close>

lemma reserve_announcement_keeps:
  assumes "reserve_announcement_nonce agent room nonce d = (Inr n, d')" and "ledger_kept h d"
  shows "ledger_kept h d'" "activities d' = activities d @ []" "last_nonce d k \<le> last_nonce d' k"
    "last_nonce d (agent, room) < n" "n \<le> last_nonce d' (agent, room)"
  using claim_keeps(1,2) [OF assms] claim_keeps(3) [OF assms, of k] claim_keeps(4) [OF assms refl] by auto

lemma session_step_ok:
  assumes "session_step c h s s'" and ok: "session_ok c h s"
  shows "session_ok c h s'"
  using assms(1)
proof cases
  case (session_ledger d')
  from ok have l: "ledger_kept h (base s)" by (simp add: session_ok_def)
  obtain rows where "ledger_kept h d'" "activities d' = activities (base s) @ rows"
    using ledger_step_extends [OF session_ledger(2) l] by blast
  with ok show ?thesis
    unfolding session_ledger(1) using ledger_step_nonces [OF session_ledger(2) l] by (rule session_ok_base)
next
  case (session_intent p st w task k d')
  from ok have l: "ledger_kept h (base s)" by (simp add: session_ok_def)
  note fresh = record_intent_fresh [OF l session_intent(3)]
  from l session_intent(3) obtain i where i: "k = st_id st" "activities d' = activities (base s) @ [i]" "ledger_kept h d'"
    "record_of (intent_activity w task (st_occurred st)) (st_id st) i" "nonces d' = nonces (base s)"
    by (rule record_intent_cases) auto
  then have r: "r_activity_id i = k" "names_write i w" "r_activity_type i = INTENT"
    by (auto simp: record_of_def names_write_def intent_activity_def plain_activity_def)
  show ?thesis
    unfolding session_intent(1)
    by (rule session_ok_move [OF ok i(3,2)])
      (use i r fresh in \<open>auto simp: last_nonce_def\<close>)
next
  case (session_send p k w io r g cl cl')
  have "\<exists>x \<in> set (activities (base s)). r_activity_id x = k \<and> names_write x w \<and> r_activity_type x = INTENT"
    using ok session_send(2) unfolding session_ok_def by (metis job_ok.simps(2))
  then show ?thesis
    unfolding session_send(1) using session_send(2,3)
    by (intro session_ok_leave [OF ok]; cases rule: departures_cases [OF session_send(4), of k False])
      (auto simp: backed_def)
next
  case (session_reserve p agent room nonce n d')
  from ok have l: "ledger_kept h (base s)" by (simp add: session_ok_def)
  note keeps = reserve_announcement_keeps [OF session_reserve(3) l]
  show ?thesis
    unfolding session_reserve(1)
    by (rule session_ok_move [OF ok keeps(1,2)]) (use keeps in auto)
next
  case (session_prove p arg room n t pf st task ref rec d')
  from ok have l: "ledger_kept h (base s)" by (simp add: session_ok_def)
  note fresh = append_at_fresh [OF l session_prove(4)]
  from l session_prove(4) obtain r where r: "activities d' = activities (base s) @ [r]"
    "record_of (blocked_activity pf task ref (st_occurred st)) (st_id st) r" "lr_activity_id rec = st_id st"
    "ledger_kept h d'" "nonces d' = nonces (base s)"
    by (rule append_at_cases) auto
  have "names_write r w" if "prepared_write c pf sha = Inr w" for sha w
    by (rule proved_names [OF session_prove(3) r(2) that])
  moreover have "r_activity_id r = st_id st" "r_activity_type r = PUBLISH_BLOCKED"
    using r(2) by (auto simp: record_of_def proof_activity_defs)
  ultimately show ?thesis
    unfolding session_prove(1)
    by (intro session_ok_move [OF ok r(4,1)])
      (use r fresh session_prove(2) proved_key [OF session_prove(3)] in \<open>auto simp: last_nonce_def\<close>)
next
  case (session_announce p k pf io sha w cl gate r g cl')
  have job: "job_ok c (base s) (Proved k pf)" using ok session_announce(2) unfolding session_ok_def by metis
  obtain payload where w: "w = announcement_write pf payload" using prepared_write_Inr [OF session_announce(4)] by blast
  from job session_announce(4) have "\<exists>x \<in> set (activities (base s)). r_activity_id x = k \<and> names_write x w \<and>
      r_activity_type x = PUBLISH_BLOCKED" by auto
  then show ?thesis
    unfolding session_announce(1) using session_announce(2,3)
    by (intro session_ok_leave [OF ok]; cases rule: departures_cases [OF session_announce(6), of k True])
      (auto simp: backed_def nonce_spent_def w announcement_write_def)
next
  case (session_crash p)
  from ok have "ledger_kept h (base s)" by (simp add: session_ok_def)
  then show ?thesis
    unfolding session_crash using session_ok_move [OF ok, of "base s" "[]" Free p] by simp
qed

lemma session_start_ok: "ledger_kept h d \<Longrightarrow> session_ok c h (session_start d)"
  by (auto simp: session_ok_def session_start_def nonces_spent_def tokens_start)

lemma session_reached_ok:
  "(session_step c h)\<^sup>*\<^sup>* (session_start d) s \<Longrightarrow> ledger_kept h d \<Longrightarrow> session_ok c h s"
  by (induction rule: rtranclp_induct) (auto intro: session_start_ok session_step_ok)

section \<open>The operations are runs\<close>

abbreviation session_run :: "'key ed25519 \<Rightarrow> bool \<Rightarrow> session \<Rightarrow> session \<Rightarrow> bool" where
  "session_run c h \<equiv> (session_step c h)\<^sup>*\<^sup>*"

lemma session_upd:
  "s\<lparr>jobs := j, base := d\<rparr> = s\<lparr>base := d, jobs := j\<rparr>" "s\<lparr>wire := x, base := d\<rparr> = s\<lparr>base := d, wire := x\<rparr>"
  "s\<lparr>jobs := j, wire := x\<rparr> = s\<lparr>wire := x, jobs := j\<rparr>"
  by (cases s; simp)+

lemma run_ledger: "ledger_step h (base s) d' \<Longrightarrow> session_run c h s (s\<lparr>base := d'\<rparr>)"
  by (intro r_into_rtranclp session_ledger)

lemma run_ledger_wire: "ledger_step h d d' \<Longrightarrow> session_run c h (s\<lparr>base := d, wire := xs\<rparr>) (s\<lparr>base := d', wire := xs\<rparr>)"
  using run_ledger [of h "s\<lparr>base := d, wire := xs\<rparr>" d' c] by (cases s) simp

lemma run_append_at: "append_at st act (base s) = (r, d') \<Longrightarrow> plain_seq (act (st_occurred st)) \<Longrightarrow>
    session_run c h s (s\<lparr>base := d'\<rparr>)"
  by (intro run_ledger step_append) (auto simp: append_at_def)

lemma run_crash: "session_run c h s s' \<Longrightarrow> jobs s' = at_job s p j \<Longrightarrow> jobs s p = Free \<Longrightarrow>
    session_run c h s (s'\<lparr>jobs := jobs s\<rparr>)"
proof -
  assume run: "session_run c h s s'" and j: "jobs s' = at_job s p j" "jobs s p = Free"
  then have "at_job s' p Free = jobs s" by auto
  with session_crash [of c h s' p] run show ?thesis by (simp add: rtranclp.rtrancl_into_rtrancl)
qed

lemma send_and_record_run:
  assumes "jobs s p = Free" and "send_and_record io items_repr st1 st2 w task cl (base s) = (res, d', cl')"
  shows "\<exists>k. session_run (backend io) h s
    (s\<lparr>base := d', wire := wire s @ departures k w False cl cl'\<rparr>)"
proof -
  obtain r1 d1 where ri: "record_intent st1 w task (base s) = (r1, d1)" by (meson surj_pair)
  show ?thesis
  proof (cases r1)
    case (Inl e)
    then have "d1 = base s" using ri append_activity_Inl
      by (auto simp: record_intent_def split: prod.splits sum.splits)
    then have "s\<lparr>base := d', wire := wire s @ departures k w False cl cl'\<rparr> = s" for k
      using assms(2) ri Inl by (simp add: send_and_record_def departures_def)
    then show ?thesis by simp
  next
    case (Inr k)
    obtain r2 g cl2 where snd: "send_signed_message io w None cl = (r2, g, cl2)" by (metis prod_cases3)
    let ?s1 = "s\<lparr>base := d1, jobs := at_job s p (Intended k w)\<rparr>"
    let ?s2 = "s\<lparr>base := d1, wire := wire s @ departures k w False cl cl2\<rparr>"
    have "session_step (backend io) h s ?s1"
      using assms(1) ri Inr by (auto intro: session_intent)
    moreover have "session_step (backend io) h ?s1
        (?s1\<lparr>wire := wire ?s1 @ departures k w False cl cl2, jobs := at_job ?s1 p Free\<rparr>)"
      by (rule session_send [OF _ refl snd]) simp
    moreover have "?s1\<lparr>wire := wire ?s1 @ departures k w False cl cl2, jobs := at_job ?s1 p Free\<rparr> = ?s2"
      using assms(1) by (auto simp: fun_upd_idem)
    ultimately have run: "session_run (backend io) h s ?s2" by (metis converse_rtranclp_into_rtranclp r_into_rtranclp)
    have "cl' = cl2" and "d' = d1 \<or> ledger_step h d1 d'"
      using assms(2) ri Inr snd
      by (auto simp: send_and_record_def Let_def intro: step_append [OF activities_plain(2)]
          step_append [OF activities_plain(3)] split: sum.splits if_splits prod.splits)
    then have "session_run (backend io) h ?s2 (s\<lparr>base := d', wire := wire s @ departures k w False cl cl'\<rparr>)"
      using run_ledger_wire [of h d1 d' "backend io"] by auto
    with run show ?thesis by (blast intro: rtranclp_trans)
  qed
qed

lemma record_proof_run:
  assumes "jobs s p = Chosen (arg_did arg, room) n"
    and "build_local_announcement_proof c arg (VInt n) room t = Inr pf"
    and "record_local_announcement_proof c sts task pf (base s) = (res, d')"
  shows "(\<exists>e. res = Inl e) \<and> session_run c h s (s\<lparr>base := d'\<rparr>) \<or>
    (\<exists>rs. res = Inr rs \<and>
       session_run c h s (s\<lparr>base := d', jobs := at_job s p (Proved (lr_activity_id (publish_blocked rs)) pf)\<rparr>))"
proof -
  have grow: "session_run c h s (s\<lparr>base := d2\<rparr>)"
    if "session_run c h s (s\<lparr>base := d1\<rparr>)" "append_at st act d1 = (r, d2)" "\<And>now. plain_seq (act now)" for d1 d2 st act r
    using that run_append_at [of st act "s\<lparr>base := d1\<rparr>" r d2 c] by (auto intro: rtranclp_trans)
  note plain = proof_activities_plain
  have start: "session_run c h s (s\<lparr>base := base s\<rparr>)" by simp
  show ?thesis
  proof (cases res)
    case (Inl e)
    with assms(3) have "session_run c h s (s\<lparr>base := d'\<rparr>)"
      by (auto simp: record_local_announcement_proof_def dbind_Inl split: if_splits
          intro: grow [OF start _ plain(1)] grow [OF grow [OF start _ plain(1)] _ plain(2)]
            grow [OF grow [OF grow [OF start _ plain(1)] _ plain(2)] _ plain(3)]
            grow [OF grow [OF grow [OF grow [OF start _ plain(1)] _ plain(2)] _ plain(3)] _ plain(4)])
    with Inl show ?thesis by blast
  next
    case (Inr rs)
    with assms(3) obtain r0 d0 r1 d1 r2 d2 where a: "append_at (sts 0) (prepare_activity pf task) (base s) = (Inr r0, d0)"
      "append_at (sts 1) (signed_activity pf task (lr_activity_id r0)) d0 = (Inr r1, d1)"
      "append_at (sts 2) (verified_activity pf task (lr_activity_id r1)) d1 = (Inr r2, d2)"
      "append_at (sts 3) (blocked_activity pf task (lr_activity_id r2)) d2 = (Inr (publish_blocked rs), d')"
      by (auto simp: record_local_announcement_proof_def dbind_Inr split: if_splits)
    let ?s2 = "s\<lparr>base := d2\<rparr>"
    have "session_run c h s ?s2"
      using grow [OF grow [OF grow [OF start a(1) plain(1)] a(2) plain(2)] a(3) plain(3)] .
    moreover have "session_step c h ?s2 (?s2\<lparr>base := d', jobs := at_job ?s2 p (Proved (lr_activity_id (publish_blocked rs)) pf)\<rparr>)"
      by (rule session_prove [OF _ assms(2), of _ p "sts 3" task "lr_activity_id r2"]) (use assms(1) a(4) in auto)
    ultimately show ?thesis using Inr by (auto intro: rtranclp.rtrancl_into_rtrancl)
  qed
qed

lemma run_crash_base:
  assumes "session_run c h s (s\<lparr>base := d', jobs := at_job s p j\<rparr>)" and "jobs s p = Free"
  shows "session_run c h s (s\<lparr>base := d'\<rparr>)"
  using run_crash [OF assms(1), of p j] assms(2) by simp

lemma reserve_fresh_Inl: "reserve_announcement_nonce agent room VNone d = (Inl e, d') \<Longrightarrow> d' = d"
  by (auto simp: reserve_announcement_nonce_def claim_announcement_nonce_def Let_def dbind_Inl others_def
      current_eq dest: reserve_Inl split: if_splits)

lemma prepare_run:
  assumes "jobs s p = Free" and "prepare_first_announcement c sts arg VNone room t (base s) = (res, d')"
  shows "(\<exists>e. res = Inl e) \<and> session_run c h s (s\<lparr>base := d'\<rparr>) \<or>
    (\<exists>prep. res = Inr prep \<and> session_run c h s (s\<lparr>base := d', jobs := at_job s p
       (Proved (lr_activity_id (publish_blocked (prep_records prep))) (prep_proof prep))\<rparr>))"
proof -
  obtain r1 d1 where n: "reserve_announcement_nonce (arg_did arg) room VNone (base s) = (r1, d1)" by (meson surj_pair)
  show ?thesis
  proof (cases r1)
    case (Inl e)
    then have "res = Inl e" "d' = base s"
      using assms(2) n reserve_fresh_Inl by (auto simp: prepare_first_announcement_def dbind_def)
    then show ?thesis by simp
  next
    case (Inr k)
    let ?s1 = "s\<lparr>base := d1, jobs := at_job s p (Chosen (arg_did arg, room) k)\<rparr>"
    have chosen: "session_run c h s ?s1"
      using session_reserve [OF assms(1) n [unfolded Inr], of c] by auto
    show ?thesis
    proof (cases "build_local_announcement_proof c arg (VInt k) room t")
      case b: (Inl e)
      then have "res = Inl e" "d' = d1"
        using assms(2) n Inr by (auto simp: prepare_first_announcement_def dbind_def dlift_def)
      then show ?thesis using run_crash_base [OF chosen assms(1)] by simp
    next
      case b: (Inr pf)
      obtain r2 d2 where rec: "record_local_announcement_proof c sts DEFAULT_TASK pf d1 = (r2, d2)" by (meson surj_pair)
      have d: "d' = d2" "res = rbind r2 (\<lambda>rs. Inr \<lparr>prep_proof = pf, prep_records = rs\<rparr>)"
        using assms(2) n Inr b rec
        by (auto simp: prepare_first_announcement_def dbind_def dlift_def split: sum.splits)
      from record_proof_run [where h = h, OF _ b, of ?s1 p sts DEFAULT_TASK r2 d2] rec
      consider e where "r2 = Inl e" "session_run c h ?s1 (?s1\<lparr>base := d2\<rparr>)"
        | rs where "r2 = Inr rs" "session_run c h ?s1 (?s1\<lparr>base := d2,
            jobs := at_job ?s1 p (Proved (lr_activity_id (publish_blocked rs)) pf)\<rparr>)" by auto
      then show ?thesis
      proof cases
        case 1
        then have "session_run c h s (s\<lparr>base := d2, jobs := at_job s p (Chosen (arg_did arg, room) k)\<rparr>)"
          using rtranclp_trans [OF chosen 1(2)] by (simp add: session_upd)
        from run_crash_base [OF this assms(1)] show ?thesis using 1(1) d by simp
      next
        case 2
        then show ?thesis using rtranclp_trans [OF chosen 2(2)] d by simp
      qed
    qed
  qed
qed

lemma publish_result_run: "record_publish_result st prep dl status rhash sq err d = (r, d') \<Longrightarrow>
    (h \<Longrightarrow> seq_bool sq = None) \<Longrightarrow> ledger_step h d d'"
  unfolding record_publish_result_def append_at_def
  by (rule step_append) (simp_all add: plain_seq_def)

lemma conclude_run:
  assumes "(case r of Inl e \<Rightarrow> conclude_failure st prep e d | Inr response \<Rightarrow> conclude_publish st prep response d) = (res, d')"
    and "h \<Longrightarrow> \<forall>out. res = Inr out \<longrightarrow> seq_bool (Some (pr_server_seq out)) = None"
  shows "d' = d \<or> ledger_step h d d'"
proof (cases r)
  case (Inl e)
  with assms(1) show ?thesis
    by (auto simp: conclude_failure_def dbind_def dlift_def split: if_splits prod.splits sum.splits
        intro: publish_result_run [where sq = None])
next
  case (Inr response)
  have keep: "d1 = d" if "record_publish_result st prep dl status rhash sq err d = (Inl e, d1)"
    for dl status rhash sq err e d1
    using that append_activity_Inl by (simp add: record_publish_result_def append_at_def)
  from Inr assms show ?thesis
    by (auto simp: conclude_publish_def dbind_def dlift_def split: prod.splits sum.splits option.splits
        intro: publish_result_run dest: keep)
qed

lemma announce_run:
  assumes "jobs s p = Free"
    and "session_run (backend io) h s (s\<lparr>base := d1, jobs := at_job s p (Proved k pf)\<rparr>)"
    and "prepared_write (backend io) pf sha = Inr w"
    and "Gate_init (client_host cl) (VStr (ap_room pf)) sha (VInt (ap_nonce pf)) True = Inr gate"
    and "send_signed_message io w (Some gate) cl = (r, g, cl')"
  shows "session_run (backend io) h s (s\<lparr>base := d1, wire := wire s @ departures k w True cl cl'\<rparr>)"
proof -
  let ?s1 = "s\<lparr>base := d1, jobs := at_job s p (Proved k pf)\<rparr>"
  have "session_step (backend io) h ?s1
      (?s1\<lparr>wire := wire ?s1 @ departures k w True cl cl', jobs := at_job ?s1 p Free\<rparr>)"
    by (rule session_announce [OF _ refl assms(3-5)]) simp
  moreover have "?s1\<lparr>wire := wire ?s1 @ departures k w True cl cl', jobs := at_job ?s1 p Free\<rparr> =
      s\<lparr>base := d1, wire := wire s @ departures k w True cl cl'\<rparr>"
    using assms(1) by (auto simp: fun_upd_idem)
  ultimately show ?thesis using assms(2) by (metis rtranclp.rtrancl_into_rtrancl)
qed

lemma publish_run:
  assumes "jobs s p = Free"
    and "publish_first_announcement_once io sts arg room sha confirm cl (base s) = (res, d', cl')"
    and "h \<Longrightarrow> \<forall>out. res = Inr out \<longrightarrow> seq_bool (Some (pr_server_seq out)) = None"
  shows "\<exists>k w. session_run (backend io) h s (s\<lparr>base := d', wire := wire s @ departures k w True cl cl'\<rparr>)"
proof -
  have stay: ?thesis if "session_run (backend io) h s (s\<lparr>base := d'\<rparr>)" "cl' = cl"
  proof -
    have "s\<lparr>base := d', wire := wire s @ departures k w True cl cl'\<rparr> = s\<lparr>base := d'\<rparr>" for k w
      using that(2) by (simp add: departures_def)
    with that(1) show ?thesis by metis
  qed
  obtain r1 d1 where prep: "prepare_first_announcement (backend io) sts arg VNone room FIRST_ANNOUNCEMENT_TEXT (base s) =
      (r1, d1)" by (meson surj_pair)
  show ?thesis
  proof (cases "publish_guards confirm room sha")
    case (Inl e)
    then have "d' = base s" "cl' = cl" using assms(2) by (auto simp: publish_first_announcement_once_def)
    with stay show ?thesis by simp
  next
    case guards: (Inr u)
    from prepare_run [where h = h, OF assms(1) prep] show ?thesis
    proof (elim disjE exE conjE)
      fix e
      assume "r1 = Inl e" and run: "session_run (backend io) h s (s\<lparr>base := d1\<rparr>)"
      then have "d' = d1" "cl' = cl" using assms(2) guards prep by (auto simp: publish_first_announcement_once_def)
      with stay run show ?thesis by simp
    next
      fix q :: AnnouncementPreparation
      define k pf where "k = lr_activity_id (publish_blocked (prep_records q))" and "pf = prep_proof q"
      assume r1: "r1 = Inr q" and "session_run (backend io) h s (s\<lparr>base := d1, jobs := at_job s p
        (Proved (lr_activity_id (publish_blocked (prep_records q))) (prep_proof q))\<rparr>)"
      then have run: "session_run (backend io) h s (s\<lparr>base := d1, jobs := at_job s p (Proved k pf)\<rparr>)"
        by (simp add: k_def pf_def)
      let ?next = "rbind (prepared_write (backend io) pf sha) (\<lambda>w. rbind (Gate_init (client_host cl) (VStr (ap_room pf)) sha
        (VInt (ap_nonce pf)) True) (\<lambda>gate. Inr (w, gate)))"
      show ?thesis
      proof (cases ?next)
        case (Inl e)
        then have "d' = d1" "cl' = cl"
          using assms(2) guards prep r1 by (auto simp: publish_first_announcement_once_def pf_def Let_def)
        with stay run_crash_base [OF run assms(1)] show ?thesis by simp
      next
        case (Inr wg)
        then obtain w gate where wg: "wg = (w, gate)" "prepared_write (backend io) pf sha = Inr w"
          "Gate_init (client_host cl) (VStr (ap_room pf)) sha (VInt (ap_nonce pf)) True = Inr gate"
          by (auto simp: rbind_eq_Inr)
        obtain r2 g cl2 where snd: "send_signed_message io w (Some gate) cl = (r2, g, cl2)" by (metis prod_cases3)
        have "(case r2 of Inl e \<Rightarrow> conclude_failure (sts 4) q e d1 | Inr response \<Rightarrow> conclude_publish (sts 4) q response d1) =
            (res, d')" and cl: "cl' = cl2"
          using assms(2) guards prep r1 wg snd
          by (auto simp: publish_first_announcement_once_def pf_def Let_def split: sum.splits prod.splits)
        from conclude_run [OF this(1) assms(3)] have fin: "d' = d1 \<or> ledger_step h d1 d'" .
        have "session_run (backend io) h s (s\<lparr>base := d1, wire := wire s @ departures k w True cl cl2\<rparr>)"
          by (rule announce_run [OF assms(1) run wg(2,3) snd])
        moreover have "session_run (backend io) h (s\<lparr>base := d1, wire := wire s @ departures k w True cl cl2\<rparr>)
            (s\<lparr>base := d', wire := wire s @ departures k w True cl cl2\<rparr>)"
          using fin run_ledger_wire by auto
        ultimately show ?thesis using cl by (blast intro: rtranclp_trans)
      qed
    qed
  qed
qed

section \<open>Properties\<close>

text \<open>
  C3. Every request that ever leaves is backed by a record of its own. However any number of
  processes interleave and crash, each signed write or announcement
  on the wire has a verifying signature and a record, made before it left, that names its
  author, room, nonce and payload; no two requests share a record, and no two
  announcements a nonce. The verifier always answers, and accepts the ledger when no server sent
  a \<open>bool\<close> as sequence number.
\<close>

theorem every_request_is_backed:
  assumes "ledger_ok d" and "(session_step c honest)\<^sup>*\<^sup>* (session_start d) s"
  shows "(\<exists>v. verify_chain (base s) = Inr v \<and> (verify_ok v \<or> \<not> honest \<and> broken_by_boolean (base s) v)) \<and>
    (\<forall>x \<in> set (wire s). backed c (base s) x) \<and>
    distinct (map dep_record (wire s)) \<and> distinct (nonces_spent (wire s))"
  using session_reached_ok [OF assms(2) ledger_ok_kept [OF assms(1)]] ledger_kept_verdict [of honest "base s"]
  by (auto simp: session_ok_def tokens_ok_def)

text \<open>
  C13. The operations of the program are runs of these steps. With a free process,
  \<open>send_and_record\<close> changes the ledger and sends requests as some run does, on every branch,
  errors included, and so does \<open>publish_first_announcement_once\<close>, whatever the server answers. The
  run is an honest one, except when the server's sequence number was recorded and is a
  \<open>bool\<close>. What holds of every run therefore holds of the operations under interleaving with
  other processes.
\<close>

theorem operations_are_runs:
  assumes "jobs s p = Free"
  shows "(send_and_record io items_repr st1 st2 w task cl (base s) = (res1, d1, cl1) \<longrightarrow>
      (\<forall>honest. \<exists>k. session_run (backend io) honest s
        (s\<lparr>base := d1, wire := wire s @ departures k w False cl cl1\<rparr>))) \<and>
    (publish_first_announcement_once io sts arg room sha confirm cl (base s) = (res2, d2, cl2) \<longrightarrow>
      (\<forall>honest. (honest \<longrightarrow> (\<forall>out. res2 = Inr out \<longrightarrow> seq_bool (Some (pr_server_seq out)) = None)) \<longrightarrow>
        (\<exists>k w. session_run (backend io) honest s
          (s\<lparr>base := d2, wire := wire s @ departures k w True cl cl2\<rparr>))))"
  using send_and_record_run [OF assms] publish_run [OF assms] by metis

section \<open>A concrete session\<close>

lemma root_write_path: "\<exists>path. write_path root_write = Inr path"
  by (simp add: write_path_def root_write_def encode_path_segment_def quote_def utf8_encode_def utf8_char_def
      quote_byte_def always_safe_def hexdigit_upper_def as_str_def reject_untrusted_def json_int_def
      py_str_nat_def dec.simps MAX_STR_DIGITS_def ROOT_AGENT_DID_def)

lemma root_write_leaves:
  "\<exists>r g cl' x. send_signed_message (toy_io JNull) root_write None (toy_client (str_lit ''localhost'')) = (r, g, cl') \<and>
     (\<forall>k. departures k root_write False (toy_client (str_lit ''localhost'')) cl' = [x\<lparr>dep_record := k\<rparr>])"
proof -
  let ?cl = "toy_client (str_lit ''localhost'')"
  obtain path where path: "write_path root_write = Inr path" using root_write_path by blast
  have v: "write_verifies (backend (toy_io JNull)) root_write = Inr True"
    using root_write_verifies by (simp add: toy_io_def)
  have "write_allowed (toy_io JNull) ?cl root_write None"
    by (simp add: write_allowed_def is_public_def is_loopback_def toy_client_def PUBLIC_HOSTS_def
        LOOPBACK_HOSTS_def toy_io_def)
  then have a: "assert_write_allowed (toy_io JNull) ?cl root_write None = (Inr (), None)"
    by (simp add: assert_write_allowed_Inr)
  obtain r g cl' where s: "send_signed_message (toy_io JNull) root_write None ?cl = (r, g, cl')" by (metis prod_cases3)
  obtain b where q: "acquire_write (toy_io JNull) ?cl = (Inr (), ?cl\<lparr>budget := b\<rparr>)"
    using acquire_write_toy by blast
  obtain h cl2 where f: "fetch (toy_io JNull) (base_url ?cl @ path, []) (?cl\<lparr>budget := b\<rparr>) = (h, cl2)"
    by (meson surj_pair)
  have "cl' = cl2"
    using s v a path q f
    by (simp add: send_signed_message_def send_body_def del: str_lit_Cons split: http_result.splits if_splits)
  then have "\<exists>u. sent cl' = [u]"
    using fetch_fields [OF f] by (simp add: toy_client_def)
  then obtain u where u: "sent cl' = [u]" ..
  have none: "sent ?cl = []" by (simp add: toy_client_def)
  show ?thesis
    by (rule exI [where x = r], rule exI [where x = g], rule exI [where x = cl'],
        rule exI [where x = "\<lparr>dep_request = u, dep_record = [], dep_write = root_write, dep_announces = False\<rparr>"])
      (use s u none in \<open>simp add: departures_def del: str_lit_Cons\<close>)
qed

lemma root_session:
  "\<exists>k d1 x. record_intent toy_stamp root_write None empty_db = (Inr k, d1) \<and>
     session_run toy_backend True (session_start empty_db) \<lparr>base = d1, wire = [x], jobs = (\<lambda>_. Free)\<rparr>"
proof -
  let ?cl = "toy_client (str_lit ''localhost'')"
  let ?s = "session_start empty_db"
  obtain k d1 where i: "record_intent toy_stamp root_write None empty_db = (Inr k, d1)"
    using root_intent_recorded by blast
  obtain r g cl' x where s: "send_signed_message (toy_io JNull) root_write None ?cl = (r, g, cl')"
    "departures k root_write False ?cl cl' = [x\<lparr>dep_record := k\<rparr>]" using root_write_leaves by blast
  let ?s1 = "?s\<lparr>base := d1, jobs := at_job ?s 0 (Intended k root_write)\<rparr>"
  have "session_step toy_backend True ?s ?s1"
    by (rule session_intent [where st = toy_stamp and task = None]) (simp_all add: session_start_def i)
  moreover have "session_step toy_backend True ?s1
      (?s1\<lparr>wire := wire ?s1 @ departures k root_write False ?cl cl', jobs := at_job ?s1 0 Free\<rparr>)"
    by (rule session_send [OF _ _ s(1)]) (simp_all add: toy_io_def)
  moreover have "?s1\<lparr>wire := wire ?s1 @ departures k root_write False ?cl cl', jobs := at_job ?s1 0 Free\<rparr> =
      \<lparr>base = d1, wire = [x\<lparr>dep_record := k\<rparr>], jobs = (\<lambda>_. Free)\<rparr>"
    by (auto simp: s(2) session_start_def simp del: str_lit_Cons)
  ultimately show ?thesis using i by (metis converse_rtranclp_into_rtranclp r_into_rtranclp)
qed

theorem every_request_is_backed_witness:
  "\<exists>s x. session_run toy_backend True (session_start empty_db) s \<and> wire s = [x] \<and> backed toy_backend (base s) x"
proof -
  obtain d1 x where run: "session_run toy_backend True (session_start empty_db) \<lparr>base = d1, wire = [x], jobs = (\<lambda>_. Free)\<rparr>"
    using root_session by blast
  from every_request_is_backed [OF ledger_ok_empty this] run show ?thesis by fastforce
qed

theorem operations_are_runs_witness:
  "(\<exists>res d' cl' k. send_and_record (toy_io JNull) (\<lambda>_. []) toy_stamp toy_stamp root_write None
      (toy_client (str_lit ''localhost'')) empty_db = (res, d', cl') \<and>
    session_run toy_backend True (session_start empty_db) ((session_start empty_db)\<lparr>base := d',
      wire := departures k root_write False (toy_client (str_lit ''localhost'')) cl'\<rparr>)) \<and>
   (\<exists>e d1. publish_first_announcement_once (toy_io JNull) toy_stamps (ACapability (toy_capability False))
      FIRST_ANNOUNCEMENT_ROOM FIRST_ANNOUNCEMENT_SHA256 True (toy_client (str_lit ''localhost'')) empty_db =
      (Inl e, d1, toy_client (str_lit ''localhost'')) \<and>
    session_run toy_backend True (session_start empty_db) ((session_start empty_db)\<lparr>base := d1\<rparr>))"
proof -
  let ?cl = "toy_client (str_lit ''localhost'')"
  obtain res d' cl' where s: "send_and_record (toy_io JNull) (\<lambda>_. []) toy_stamp toy_stamp root_write None
      ?cl empty_db = (res, d', cl')" by (metis prod_cases3)
  obtain r d1 where prep: "prepare_first_announcement (backend (toy_io JNull)) toy_stamps
      (ACapability (toy_capability False)) VNone FIRST_ANNOUNCEMENT_ROOM FIRST_ANNOUNCEMENT_TEXT empty_db = (r, d1)"
    by (meson surj_pair)
  have "Settings.lower (client_host ?cl) \<notin> set PUBLIC_HOSTS"
    by (simp add: toy_client_def PUBLIC_HOSTS_def Settings.lower_def lower_char_def)
  from local_host_is_refused_after_the_preparation [OF this TrueI prep] obtain e where
    p: "publish_first_announcement_once (toy_io JNull) toy_stamps (ACapability (toy_capability False))
      FIRST_ANNOUNCEMENT_ROOM FIRST_ANNOUNCEMENT_SHA256 True ?cl empty_db = (Inl e, d1, ?cl)" ..
  have start: "jobs (session_start empty_db) 0 = Free" "base (session_start empty_db) = empty_db"
    "wire (session_start empty_db) = []" "backend (toy_io JNull) = toy_backend"
    by (simp_all add: session_start_def toy_io_def)
  note runs = operations_are_runs [OF start(1), where io = "toy_io JNull" and cl = ?cl,
      unfolded start(2-4) append_Nil]
  have "\<exists>k. session_run toy_backend True (session_start empty_db)
      ((session_start empty_db)\<lparr>base := d', wire := departures k root_write False ?cl cl'\<rparr>)"
    by (rule runs [THEN conjunct1, THEN mp, OF s, THEN spec])
  moreover have "(session_start empty_db)\<lparr>base := d1, wire := departures k w b ?cl ?cl\<rparr> =
      (session_start empty_db)\<lparr>base := d1\<rparr>" for k w b
    by (simp add: departures_def session_start_def del: str_lit_Cons)
  moreover have "\<exists>k w. session_run toy_backend True (session_start empty_db)
      ((session_start empty_db)\<lparr>base := d1, wire := departures k w True ?cl ?cl\<rparr>)"
    by (rule runs [THEN conjunct2, THEN mp, OF p, THEN spec, THEN mp]) simp
  ultimately show ?thesis using s p by (intro conjI) (blast, metis)
qed

end
