(* ===== verification/Migrations.thy ===== *)
theory Migrations
  imports Db SecretScan Settings
begin

text \<open>
  \<open>storage/db.py\<close>: the schema script, its division into statements, the migrations
  and the opening of a ledger. What a statement of the schema does is SQLite's affair: the
  function \<open>exec\<close> takes the text of a statement and the schema to the schema after it,
  or to the exception it raises. \<open>Db\<close> models the statements the program runs on the
  tables that the script creates.
\<close>

section \<open>Splitting a script\<close>

definition join_lines :: "pystr list \<Rightarrow> pystr" where
  "join_lines ls = (case ls of [] \<Rightarrow> [] | l # ls \<Rightarrow> l @ concat (map (\<lambda>x. 10 # x) ls))"

definition ends_with :: "pystr \<Rightarrow> pystr \<Rightarrow> bool" where
  "ends_with ending s = starts_with (rev ending) (rev s)"

text \<open>Blank lines and comments are dropped.\<close>

definition kept :: "pystr \<Rightarrow> bool" where
  "kept line \<longleftrightarrow> strip line \<noteq> [] \<and> \<not> starts_with (str_lit ''--'') (strip line)"

text \<open>
  The loop over the lines, with the lines of the unfinished statement and the depth of
  \<open>BEGIN\<close> \dots \<open>END;\<close> around it.
\<close>

fun split_loop :: "pystr list \<Rightarrow> pystr list \<Rightarrow> int \<Rightarrow> pystr list" where
  "split_loop [] buffer depth = (if buffer = [] then [] else [join_lines buffer])"
| "split_loop (line # rest) buffer depth =
     (if \<not> kept line then split_loop rest buffer depth
      else
        let buffer = buffer @ [line]; up = Settings.upper (strip line) in
        if ends_with (str_lit ''BEGIN'') up then split_loop rest buffer (depth + 1)
        else if starts_with (str_lit ''END;'') up then
          if depth - 1 = 0 then join_lines buffer # split_loop rest [] (depth - 1)
          else split_loop rest buffer (depth - 1)
        else if depth = 0 \<and> ends_with (str_lit '';'') (strip line)
        then join_lines buffer # split_loop rest [] depth
        else split_loop rest buffer depth)"

definition split_statements :: "pystr \<Rightarrow> pystr list" where
  "split_statements script = split_loop (splitlines script) [] 0"

text \<open>A line as \<open>splitlines\<close> yields it.\<close>

definition one_line :: "pystr \<Rightarrow> bool" where
  "one_line l \<longleftrightarrow> list_all (\<lambda>c. \<not> line_break c) l"

lemma kept_nonempty: "kept l \<Longrightarrow> l \<noteq> []"
  by (auto simp: kept_def strip_def)

lemma lines_from_one_line: "list_all (\<lambda>c. \<not> line_break c) cur \<Longrightarrow> l \<in> set (lines_from cur s) \<Longrightarrow> one_line l"
proof (induction cur s rule: lines_from.induct)
  case (2 cur c s)
  then show ?case by (auto simp: one_line_def split: if_splits)
qed (auto simp: one_line_def split: if_splits)

lemma lines_from_break: "one_line l \<Longrightarrow> lines_from cur (l @ 10 # s) = (rev cur @ l) # lines_from [] s"
  by (induction l arbitrary: cur) (auto simp: one_line_def line_break_def in_ranges_def split: if_splits)

lemma splitlines_join_lines:
  assumes "\<forall>l \<in> set ls. one_line l \<and> l \<noteq> []"
  shows "splitlines (join_lines ls) = ls"
proof (cases ls)
  case (Cons l rest)
  have "lines_from [] (l @ concat (map (\<lambda>x. 10 # x) rest)) = l # rest"
    if "\<forall>x \<in> set (l # rest). one_line x \<and> x \<noteq> []" for l rest
    using that
  proof (induction rest arbitrary: l)
    case Nil
    then show ?case using lines_from_single [of l "[]"] by (simp add: one_line_def)
  next
    case (Cons x rest)
    then show ?case by (simp add: lines_from_break)
  qed
  with assms Cons show ?thesis by (simp add: splitlines_def join_lines_def)
qed (simp add: splitlines_def join_lines_def)

text \<open>The same loop over lines that are not joined yet.\<close>

fun split_groups :: "pystr list \<Rightarrow> pystr list \<Rightarrow> int \<Rightarrow> pystr list list" where
  "split_groups [] buffer depth = (if buffer = [] then [] else [buffer])"
| "split_groups (line # rest) buffer depth =
     (if \<not> kept line then split_groups rest buffer depth
      else
        let buffer = buffer @ [line]; up = Settings.upper (strip line) in
        if ends_with (str_lit ''BEGIN'') up then split_groups rest buffer (depth + 1)
        else if starts_with (str_lit ''END;'') up then
          if depth = 1 then buffer # split_groups rest [] 0
          else split_groups rest buffer (depth - 1)
        else if depth = 0 \<and> ends_with (str_lit '';'') (strip line)
        then buffer # split_groups rest [] 0
        else split_groups rest buffer depth)"

lemma split_loop_groups: "split_loop ls buffer depth = map join_lines (split_groups ls buffer depth)"
  by (induction ls buffer depth rule: split_loop.induct) (auto simp: Let_def)

lemma concat_split_groups: "concat (split_groups ls buffer depth) = buffer @ filter kept ls"
  by (induction ls buffer depth rule: split_groups.induct) (auto simp: Let_def)

lemma splitlines_one_line: "l \<in> set (splitlines s) \<Longrightarrow> one_line l"
  using lines_from_one_line [of "[]"] by (simp add: splitlines_def)

lemma splitlines_of_statements:
  "map splitlines (split_statements script) = split_groups (splitlines script) [] 0"
proof -
  have "splitlines (join_lines g) = g" if g: "g \<in> set (split_groups (splitlines script) [] 0)" for g
  proof (rule splitlines_join_lines, intro ballI)
    fix l
    assume "l \<in> set g"
    with g have "l \<in> set (concat (split_groups (splitlines script) [] 0))" by auto
    then have "l \<in> set (splitlines script)" "kept l" by (auto simp: concat_split_groups)
    then show "one_line l \<and> l \<noteq> []" using splitlines_one_line kept_nonempty by blast
  qed
  then show ?thesis by (simp add: split_statements_def split_loop_groups map_idI)
qed

text \<open>
  Splitting a script loses nothing: the lines of the statements, in order, are the lines of
  the script that are neither blank nor comments, whatever \<open>BEGIN\<close> and \<open>END;\<close> do.
\<close>

theorem splitting_keeps_every_line:
  "concat (map splitlines (split_statements script)) = filter kept (splitlines script)"
  by (simp add: splitlines_of_statements concat_split_groups)

section \<open>Migrations\<close>

text \<open>
  A ledger file: the schema, the versions in \<open>schema_migrations\<close> (\<open>None\<close> before the table
  exists), and whether another connection keeps the write lock for longer than
  \<open>busy_timeout\<close>.
\<close>

record 's ledger_file =
  schema :: 's
  versions :: "int list option"
  held :: bool

type_synonym 's executor = "pystr \<Rightarrow> 's \<Rightarrow> exn + 's"
type_synonym migration = "int \<times> pystr list"

fun run_statements :: "'s executor \<Rightarrow> pystr list \<Rightarrow> 's \<Rightarrow> exn + 's" where
  "run_statements exec [] s = Inr s"
| "run_statements exec (st # sts) s = rbind (exec st s) (run_statements exec sts)"

text \<open>\<open>INSERT INTO schema_migrations\<close>: the version is the primary key.\<close>

definition record_version :: "int \<Rightarrow> int list \<Rightarrow> exn + int list" where
  "record_version v vs =
     rbind (bind_int v) (\<lambda>_.
     rbind (unless_raise (v \<notin> set vs) (IntegrityError UniqueViolation)) (\<lambda>_. Inr (vs @ [v])))"

text \<open>\<open>row["v"] or 0\<close>\<close>

definition current_version :: "int list \<Rightarrow> int" where
  "current_version vs = (if vs = [] then 0 else Max (set vs))"

fun migrate_loop ::
  "'s executor \<Rightarrow> migration list \<Rightarrow> int \<Rightarrow> 's \<Rightarrow> int list \<Rightarrow> exn + (int \<times> 's \<times> int list)" where
  "migrate_loop exec [] cur s vs = Inr (cur, s, vs)"
| "migrate_loop exec ((version, statements) # rest) cur s vs =
     (if version \<le> cur then migrate_loop exec rest cur s vs
      else rbind (run_statements exec statements s) (\<lambda>s'.
           rbind (record_version version vs) (\<lambda>vs'. migrate_loop exec rest version s' vs')))"

text \<open>\<open>CREATE TABLE IF NOT EXISTS\<close> commits by itself; it writes only when the table is missing.\<close>

definition bookkeeping :: "'s ledger_file \<Rightarrow> (exn + unit) \<times> 's ledger_file" where
  "bookkeeping f =
     (case versions f of
        Some _ \<Rightarrow> (Inr (), f)
      | None \<Rightarrow> if held f then (Inl (OperationalError DatabaseLocked), f)
                else (Inr (), f\<lparr>versions := Some []\<rparr>))"

definition known :: "'s ledger_file \<Rightarrow> int list" where
  "known f = (case versions f of None \<Rightarrow> [] | Some vs \<Rightarrow> vs)"

text \<open>The block under \<open>with immediate(conn) as tx\<close>, which rolls back when it raises.\<close>

definition migrate_transaction ::
  "'s executor \<Rightarrow> migration list \<Rightarrow> 's ledger_file \<Rightarrow> (exn + int) \<times> 's ledger_file" where
  "migrate_transaction exec ms f =
     (if held f then (Inl (OperationalError DatabaseLocked), f)
      else
        case migrate_loop exec ms (current_version (known f)) (schema f) (known f) of
          Inl e \<Rightarrow> (Inl e, f)
        | Inr (cur, s', vs') \<Rightarrow> (Inr cur, f\<lparr>schema := s', versions := Some vs'\<rparr>))"

definition apply_migrations ::
  "'s executor \<Rightarrow> migration list \<Rightarrow> 's ledger_file \<Rightarrow> (exn + int) \<times> 's ledger_file" where
  "apply_migrations exec ms f =
     (case bookkeeping f of
        (Inl e, f1) \<Rightarrow> (Inl e, f1)
      | (Inr _, f1) \<Rightarrow> migrate_transaction exec ms f1)"

text \<open>The migrations a ledger still lacks.\<close>

definition pending :: "migration list \<Rightarrow> 's ledger_file \<Rightarrow> migration list" where
  "pending ms f = filter (\<lambda>m. current_version (known f) < fst m) ms"

abbreviation ascending :: "migration list \<Rightarrow> bool" where
  "ascending ms \<equiv> sorted_wrt (<) (map fst ms)"

lemma current_version_snoc:
  assumes "current_version vs < v"
  shows "current_version (vs @ [v]) = v"
proof (cases "vs = []")
  case False
  with assms have "Max (set vs) < v" by (simp add: current_version_def)
  with False show ?thesis by (simp add: current_version_def)
qed (simp add: current_version_def)

lemma run_statements_append:
  "run_statements exec (a @ b) s = rbind (run_statements exec a s) (run_statements exec b)"
  by (induction a arbitrary: s) (auto simp: rbind_def split: sum.splits)

lemma current_version_bound: "v \<in> set vs \<Longrightarrow> v \<le> current_version vs"
  by (auto simp: current_version_def)

lemma migrate_loop_Inr:
  assumes "ascending ms" "cur = current_version vs"
    "migrate_loop exec ms cur s vs = Inr (cur', s', vs')"
  defines "todo \<equiv> filter (\<lambda>m. cur < fst m) ms"
  shows "run_statements exec (concat (map snd todo)) s = Inr s' \<and> vs' = vs @ map fst todo \<and>
    cur' = current_version vs' \<and> (\<forall>m \<in> set ms. fst m \<le> cur')  \<and> cur \<le> cur'"
  using assms(1-3) unfolding todo_def
proof (induction ms arbitrary: cur s vs)
  case (Cons m ms)
  obtain v sts where m: "m = (v, sts)" by (cases m)
  show ?case
  proof (cases "v \<le> cur")
    case True
    then show ?thesis using Cons m by force
  next
    case False
    then obtain s1 where s1: "run_statements exec sts s = Inr s1" "v \<notin> set vs" "bind_int v = Inr ()"
      "migrate_loop exec ms v s1 (vs @ [v]) = Inr (cur', s', vs')"
      using Cons.prems(3) m by (auto simp: rbind_def record_version_def unless_raise_def
          split: sum.splits if_splits)
    have v: "v = current_version (vs @ [v])"
      using False Cons.prems current_version_snoc [of vs v] by auto
    have later: "filter (\<lambda>m. v < fst m) ms = ms" "filter (\<lambda>m. cur < fst m) ms = ms"
      using Cons.prems(1) m False by (auto simp: filter_id_conv)
    have "run_statements exec (concat (map snd ms)) s1 = Inr s' \<and> vs' = (vs @ [v]) @ map fst ms \<and>
        cur' = current_version vs' \<and> (\<forall>m \<in> set ms. fst m \<le> cur') \<and> v \<le> cur'"
      using Cons.IH [of v "vs @ [v]" s1] Cons.prems(1) m v s1(4) False later(1) by auto
    then show ?thesis
      using m s1(1) False later(2) by (auto simp: run_statements_append rbind_def)
  qed
qed simp

lemma migrate_loop_total:
  assumes "ascending ms" "cur = current_version vs"
    "run_statements exec (concat (map snd (filter (\<lambda>m. cur < fst m) ms))) s = Inr s'"
    "\<forall>m \<in> set ms. int64_ok (fst m)"
  shows "\<exists>r. migrate_loop exec ms cur s vs = Inr r"
  using assms
proof (induction ms arbitrary: cur s vs)
  case (Cons m ms)
  obtain v sts where m: "m = (v, sts)" by (cases m)
  show ?case
  proof (cases "v \<le> cur")
    case True
    then show ?thesis using Cons m by force
  next
    case False
    have later: "filter (\<lambda>m. v < fst m) ms = ms" "filter (\<lambda>m. cur < fst m) ms = ms"
      using Cons.prems(1) m False by (auto simp: filter_id_conv)
    obtain s1 where s1: "run_statements exec sts s = Inr s1"
      "run_statements exec (concat (map snd ms)) s1 = Inr s'"
      using Cons.prems(3) m False later(2)
      by (auto simp: run_statements_append rbind_def split: sum.splits)
    have v: "v = current_version (vs @ [v])" "v \<notin> set vs"
      using False Cons.prems(2) current_version_snoc [of vs v] current_version_bound [of v vs] by auto
    have "\<exists>r. migrate_loop exec ms v s1 (vs @ [v]) = Inr r"
      using Cons.IH [of v "vs @ [v]" s1] Cons.prems(1,4) m v(1) s1(2) later(1) by auto
    then show ?thesis
      using m False s1(1) v(2) Cons.prems(4)
      by (simp add: rbind_def record_version_def bind_int_def unless_raise_def)
  qed
qed simp

lemma migrate_loop_nothing:
  "\<forall>m \<in> set ms. fst m \<le> cur \<Longrightarrow> migrate_loop exec ms cur s vs = Inr (cur, s, vs)"
  by (induction ms) auto

lemma bookkeeping_known:
  "bookkeeping f = (r, f') \<Longrightarrow> schema f' = schema f \<and> known f' = known f \<and> held f' = held f \<and>
    (r = Inr () \<longrightarrow> versions f' = Some (known f))"
  by (auto simp: bookkeeping_def known_def split: option.splits if_splits)

text \<open>All that a transaction can do to a ledger.\<close>

definition migrated :: "'s executor \<Rightarrow> migration list \<Rightarrow> 's ledger_file \<Rightarrow> 's ledger_file \<Rightarrow> bool" where
  "migrated exec ms f f' \<longleftrightarrow>
     run_statements exec (concat (map snd (pending ms f))) (schema f) = Inr (schema f') \<and>
     known f' = known f @ map fst (pending ms f)"

lemma migrate_transaction_cases:
  assumes "ascending ms" "migrate_transaction exec ms f = (r, f')"
  shows "(case r of
      Inl e \<Rightarrow> f' = f
    | Inr cur \<Rightarrow> migrated exec ms f f' \<and> versions f' = Some (known f') \<and>
        cur = current_version (known f') \<and> (\<forall>m \<in> set ms. fst m \<le> cur) \<and> \<not> held f \<and> held f' = held f)"
proof -
  show ?thesis
  proof (cases "held f")
    case False
    show ?thesis
    proof (cases "migrate_loop exec ms (current_version (known f)) (schema f) (known f)")
      case (Inr x)
      obtain cur s' vs' where x: "x = (cur, s', vs')" by (metis prod_cases3)
      then have f': "r = Inr cur" "f' = f\<lparr>schema := s', versions := Some vs'\<rparr>"
        using assms(2) False Inr by (auto simp: migrate_transaction_def)
      then have "known f' = vs'" by (simp add: known_def)
      with f' show ?thesis
        using migrate_loop_Inr [OF assms(1) refl Inr [unfolded x]] False
        by (auto simp: migrated_def pending_def)
    qed (use assms(2) False in \<open>auto simp: migrate_transaction_def\<close>)
  qed (use assms(2) in \<open>auto simp: migrate_transaction_def\<close>)
qed

lemma migrate_transaction_nothing:
  "\<not> held f \<Longrightarrow> versions f = Some (known f) \<Longrightarrow> \<forall>m \<in> set ms. fst m \<le> current_version (known f) \<Longrightarrow>
     apply_migrations exec ms f = (Inr (current_version (known f)), f)"
proof -
  assume f: "\<not> held f" "versions f = Some (known f)" "\<forall>m \<in> set ms. fst m \<le> current_version (known f)"
  then have "f\<lparr>schema := schema f, versions := Some (known f)\<rparr> = f" by simp
  then show ?thesis
    using f by (simp add: apply_migrations_def bookkeeping_def migrate_transaction_def migrate_loop_nothing)
qed

text \<open>
  C31. Migrations run once. Whatever \<open>apply_migrations\<close> answers for versions in
  ascending order, either it raised and neither schema nor versions changed, or exactly the
  statements of the missing versions ran, in order, and these versions were recorded; a second
  call then runs nothing. It succeeds when the lock is free, the versions fit the column and
  the statements succeed.
\<close>

theorem migrations_run_once:
  assumes "ascending ms" and "apply_migrations exec ms f = (r, f')"
  shows "(case r of
      Inl e \<Rightarrow> schema f' = schema f \<and> known f' = known f
    | Inr cur \<Rightarrow> run_statements exec (concat (map snd (pending ms f))) (schema f) = Inr (schema f') \<and>
        versions f' = Some (known f @ map fst (pending ms f)) \<and> cur = current_version (known f') \<and>
        apply_migrations exec ms f' = (Inr cur, f')) \<and>
    (\<not> held f \<and> (\<forall>m \<in> set ms. int64_ok (fst m)) \<and>
       (\<exists>s. run_statements exec (concat (map snd (pending ms f))) (schema f) = Inr s) \<longrightarrow>
     (\<exists>cur. r = Inr cur))"
proof (cases "bookkeeping f")
  case (Pair b f1)
  note book = bookkeeping_known [OF Pair]
  have same: "pending ms f1 = pending ms f" "migrated exec ms f1 = migrated exec ms f"
    using book by (auto simp: pending_def migrated_def fun_eq_iff)
  show ?thesis
  proof (cases b)
    case (Inl e)
    then show ?thesis
      using assms(2) Pair book by (auto simp: apply_migrations_def bookkeeping_def split: option.splits if_splits)
  next
    case (Inr u)
    then have tx: "migrate_transaction exec ms f1 = (r, f')"
      using assms(2) Pair by (simp add: apply_migrations_def)
    note cases = migrate_transaction_cases [OF assms(1) tx]
    have again: "apply_migrations exec ms f' = (Inr cur, f')" if "r = Inr cur" for cur
      using cases that migrate_transaction_nothing [of f' ms exec] by auto
    have succeeds: "\<exists>cur. r = Inr cur" if "\<not> held f" "\<forall>m \<in> set ms. int64_ok (fst m)"
      "run_statements exec (concat (map snd (pending ms f))) (schema f) = Inr s" for s
      using migrate_loop_total [OF assms(1) refl, of exec "known f" "schema f" s] that book tx Inr
      by (auto simp: migrate_transaction_def pending_def known_def split: sum.splits)
    show ?thesis
      using cases again succeeds book same
      by (auto simp: migrated_def split: sum.splits)
  qed
qed

section \<open>Openings side by side\<close>

text \<open>
  Several connections open one ledger. Each creates the bookkeeping table first and
  migrates later; other connections take and release the write lock in between.
\<close>

inductive opening_step ::
  "'s executor \<Rightarrow> migration list \<Rightarrow> 's ledger_file \<Rightarrow> 's ledger_file \<Rightarrow> bool" for exec ms where
  opening_table: "opening_step exec ms f (snd (bookkeeping f))"
| opening_migrates: "versions f = Some vs \<Longrightarrow> opening_step exec ms f (snd (migrate_transaction exec ms f))"
| opening_lock: "opening_step exec ms f (f\<lparr>held := busy\<rparr>)"

definition same_content :: "'s ledger_file \<Rightarrow> 's ledger_file \<Rightarrow> bool" where
  "same_content f f' \<longleftrightarrow> schema f' = schema f \<and> known f' = known f"

lemma known_held [simp]: "known (f\<lparr>held := b\<rparr>) = known f"
  by (simp add: known_def)

lemma migrated_same: "same_content f f' \<Longrightarrow> migrated exec ms f' = migrated exec ms f"
  by (auto simp: migrated_def same_content_def pending_def fun_eq_iff)

lemma migrated_pending:
  assumes "ascending ms" "migrated exec ms f f'"
  shows "pending ms f' = []"
proof -
  have "fst m \<le> current_version (known f')" if "m \<in> set ms" for m
  proof (cases "m \<in> set (pending ms f)")
    case True
    then have "fst m \<in> set (known f')" using assms(2) by (auto simp: migrated_def)
    then show ?thesis by (rule current_version_bound)
  next
    case False
    then have m: "fst m \<le> current_version (known f)" using that by (auto simp: pending_def)
    show ?thesis
    proof (cases "known f = []")
      case True
      show ?thesis
      proof (cases "pending ms f")
        case Nil
        then show ?thesis using m assms(2) by (simp add: migrated_def)
      next
        case (Cons p ps)
        then have "0 < fst p" "fst p \<in> set (known f')"
          using True assms(2) by (auto simp: migrated_def pending_def current_version_def dest!: filter_eq_ConsD)
        then show ?thesis using m True current_version_bound [of "fst p" "known f'"]
          by (simp add: current_version_def)
      qed
    next
      case False
      then have "Max (set (known f)) \<le> Max (set (known f'))"
        by (intro Max_mono) (use assms(2) in \<open>auto simp: migrated_def\<close>)
      moreover have "current_version (known f) = Max (set (known f))"
        "current_version (known f') = Max (set (known f'))"
        using False assms(2) by (simp_all add: current_version_def migrated_def)
      ultimately show ?thesis using m by (metis order_trans)
    qed
  qed
  then show ?thesis by (auto simp: pending_def filter_empty_conv not_less)
qed

lemma migrated_stays:
  assumes "ascending ms" "migrated exec ms f f'" "migrated exec ms f' f''"
  shows "same_content f' f''"
  using assms(3) migrated_pending [OF assms(1,2)] by (auto simp: migrated_def same_content_def)

lemma opening_step_content:
  assumes "ascending ms" "opening_step exec ms f f'"
  shows "same_content f f' \<or> migrated exec ms f f'"
  using assms(2)
proof cases
  case opening_table
  then show ?thesis
    using bookkeeping_known [of f] by (metis prod.collapse same_content_def)
next
  case (opening_migrates vs)
  obtain r where "migrate_transaction exec ms f = (r, f')" using opening_migrates by (metis prod.collapse)
  from migrate_transaction_cases [OF assms(1) this] show ?thesis
    by (auto simp: same_content_def split: sum.splits)
qed (simp add: same_content_def)

text \<open>
  C32. Side by side, every migration runs at most once. However the steps of any number
  of openings interleave, with the lock taken and lost in between, the ledger's content is
  the one they found or the one that a single run of all missing migrations leaves.
\<close>

theorem concurrent_openings_migrate_once:
  assumes "ascending ms" and "(opening_step exec ms)\<^sup>*\<^sup>* f f'"
  shows "schema f' = schema f \<and> known f' = known f \<or>
    run_statements exec (concat (map snd (pending ms f))) (schema f) = Inr (schema f') \<and>
    known f' = known f @ map fst (pending ms f)"
  using assms(2)
proof (induction rule: rtranclp_induct)
  case (step g h)
  then consider "same_content f g" | "migrated exec ms f g" by (auto simp: same_content_def migrated_def)
  then have "same_content f h \<or> migrated exec ms f h"
  proof cases
    case 1
    with opening_step_content [OF assms(1) step(2)] migrated_same [OF 1, of exec ms] show ?thesis
      by (auto simp: same_content_def)
  next
    case 2
    with opening_step_content [OF assms(1) step(2)] migrated_stays [OF assms(1) 2] show ?thesis
      by (auto simp: same_content_def migrated_def)
  qed
  then show ?case by (simp add: same_content_def migrated_def)
qed simp

section \<open>The schema\<close>

text \<open>The lines of the script; the text ends with a newline.\<close>

definition SCHEMA_LINES :: "pystr list" where
  "SCHEMA_LINES =
     [str_lit '''',
      str_lit ''-- ------------------------------------------------------------------'',
      str_lit ''-- activities: the append-only spine of the proof ledger.'',
      str_lit ''-- Contains public artefacts and hashes only. No key material, no'',
      str_lit ''-- passphrases, no API secrets, no raw prompt bodies.'',
      str_lit ''-- ------------------------------------------------------------------'',
      str_lit ''CREATE TABLE activities ('',
      str_lit ''    activity_id         TEXT PRIMARY KEY,'',
      str_lit ''    chain_index         INTEGER NOT NULL UNIQUE,'',
      str_lit ''    agent_did           TEXT    NOT NULL,'',
      str_lit ''    activity_type       TEXT    NOT NULL,'',
      str_lit ''    task_id             TEXT,'',
      str_lit ''    ref_activity_id     TEXT REFERENCES activities(activity_id),'',
      str_lit ''    tc_room             TEXT,'',
      str_lit ''    tc_seq              INTEGER,'',
      str_lit ''    tc_nonce            INTEGER,'',
      str_lit ''    signed_payload_hash TEXT,'',
      str_lit ''    signature           TEXT,'',
      str_lit ''    result_hash         TEXT,'',
      str_lit ''    provider_id         TEXT,'',
      str_lit ''    model               TEXT,'',
      str_lit ''    cost_amount         TEXT,'',
      str_lit ''    cost_unit           TEXT    NOT NULL DEFAULT 'NONE'' @ [39],
      str_lit ''                        CHECK (cost_unit IN ('NONE', 'FLOP_TEST', 'USD')),'',
      str_lit ''    occurred_at         TEXT    NOT NULL,'',
      str_lit ''    recorded_at         TEXT    NOT NULL,'',
      str_lit ''    meta_json           TEXT,'',
      str_lit ''    prev_hash           TEXT    NOT NULL,'',
      str_lit ''    entry_hash          TEXT    NOT NULL UNIQUE,'',
      str_lit ''    CHECK (length(entry_hash) = 64),'',
      str_lit ''    CHECK (length(prev_hash) = 64),'',
      str_lit ''    CHECK (chain_index >= 0)'',
      str_lit '');'',
      str_lit '''',
      str_lit ''CREATE INDEX idx_activities_did       ON activities(agent_did);'',
      str_lit ''CREATE INDEX idx_activities_type      ON activities(activity_type);'',
      str_lit ''CREATE INDEX idx_activities_task      ON activities(task_id);'',
      str_lit ''CREATE INDEX idx_activities_ref       ON activities(ref_activity_id);'',
      str_lit ''CREATE INDEX idx_activities_room_seq  ON activities(tc_room, tc_seq);'',
      str_lit '''',
      str_lit ''-- Append-only enforcement. Corrections are compensating rows, never edits.'',
      str_lit ''CREATE TRIGGER activities_no_update'',
      str_lit ''BEFORE UPDATE ON activities'',
      str_lit ''BEGIN'',
      str_lit ''    SELECT RAISE(ABORT,'',
      str_lit ''        'activities is append-only: record a compensating activity instead of updating');'',
      str_lit ''END;'',
      str_lit '''',
      str_lit ''CREATE TRIGGER activities_no_delete'',
      str_lit ''BEFORE DELETE ON activities'',
      str_lit ''BEGIN'',
      str_lit ''    SELECT RAISE(ABORT,'',
      str_lit ''        'activities is append-only: rows may never be deleted');'',
      str_lit ''END;'',
      str_lit '''',
      str_lit ''-- ------------------------------------------------------------------'',
      str_lit ''-- nonces: durable monotonic counters, one row per (did, scope).'',
      str_lit ''-- Scope is the Technocore room for messages, or 'kv:<namespace>' for notes.'',
      str_lit ''-- ------------------------------------------------------------------'',
      str_lit ''CREATE TABLE nonces ('',
      str_lit ''    agent_did   TEXT NOT NULL,'',
      str_lit ''    scope       TEXT NOT NULL,'',
      str_lit ''    last_nonce  INTEGER NOT NULL CHECK (last_nonce >= 0),'',
      str_lit ''    updated_at  TEXT NOT NULL,'',
      str_lit ''    PRIMARY KEY (agent_did, scope)'',
      str_lit '');'',
      str_lit '''',
      str_lit ''-- ------------------------------------------------------------------'',
      str_lit ''-- seen_signatures: our own replay defence. Technocore's anti-replay only'',
      str_lit ''-- holds while a message stays inside the newest ~1 MiB of the room ring,'',
      str_lit ''-- so we keep an unbounded local record instead of relying on that window.'',
      str_lit ''-- ------------------------------------------------------------------'',
      str_lit ''CREATE TABLE seen_signatures ('',
      str_lit ''    agent_did      TEXT NOT NULL,'',
      str_lit ''    tc_room        TEXT NOT NULL,'',
      str_lit ''    tc_nonce       INTEGER NOT NULL,'',
      str_lit ''    signature      TEXT NOT NULL,'',
      str_lit ''    payload_hash   TEXT NOT NULL,'',
      str_lit ''    first_seen_at  TEXT NOT NULL,'',
      str_lit ''    PRIMARY KEY (agent_did, tc_room, tc_nonce)'',
      str_lit '');'',
      str_lit '''',
      str_lit ''CREATE INDEX idx_seen_signature ON seen_signatures(signature);'']"

definition SCHEMA_V1_SQL :: pystr where
  "SCHEMA_V1_SQL = join_lines (SCHEMA_LINES @ [[]])"

definition MIGRATIONS :: "migration list" where
  "MIGRATIONS = [(1, split_statements SCHEMA_V1_SQL)]"

lemma lines_from_closed: "\<forall>l \<in> set (l # ls). one_line l \<Longrightarrow>
    lines_from [] (l @ concat (map (\<lambda>x. 10 # x) (ls @ [[]]))) = l # ls"
  by (induction ls arbitrary: l) (simp_all add: lines_from_break)

lemma splitlines_closed: "\<forall>l \<in> set ls. one_line l \<Longrightarrow> ls \<noteq> [] \<Longrightarrow> splitlines (join_lines (ls @ [[]])) = ls"
  using lines_from_closed [of "hd ls" "tl ls"] by (cases ls) (simp_all add: splitlines_def join_lines_def)

text \<open>For evaluation: lines of printable ASCII characters that end in no white space.\<close>

lemma char_codes:
  "of_char (CHR 0x20) = (32::nat)" "of_char (CHR 0x27) = (39::nat)" "of_char (CHR 0x28) = (40::nat)"
  "of_char (CHR 0x29) = (41::nat)" "of_char (CHR 0x2C) = (44::nat)" "of_char (CHR 0x2D) = (45::nat)"
  "of_char (CHR 0x2E) = (46::nat)" "of_char (CHR 0x30) = (48::nat)" "of_char (CHR 0x31) = (49::nat)"
  "of_char (CHR 0x34) = (52::nat)" "of_char (CHR 0x36) = (54::nat)" "of_char (CHR 0x3A) = (58::nat)"
  "of_char (CHR 0x3B) = (59::nat)" "of_char (CHR 0x3C) = (60::nat)" "of_char (CHR 0x3D) = (61::nat)"
  "of_char (CHR 0x3E) = (62::nat)" "of_char (CHR 0x41) = (65::nat)" "of_char (CHR 0x42) = (66::nat)"
  "of_char (CHR 0x43) = (67::nat)" "of_char (CHR 0x44) = (68::nat)" "of_char (CHR 0x45) = (69::nat)"
  "of_char (CHR 0x46) = (70::nat)" "of_char (CHR 0x47) = (71::nat)" "of_char (CHR 0x48) = (72::nat)"
  "of_char (CHR 0x49) = (73::nat)" "of_char (CHR 0x4B) = (75::nat)" "of_char (CHR 0x4C) = (76::nat)"
  "of_char (CHR 0x4D) = (77::nat)" "of_char (CHR 0x4E) = (78::nat)" "of_char (CHR 0x4F) = (79::nat)"
  "of_char (CHR 0x50) = (80::nat)" "of_char (CHR 0x51) = (81::nat)" "of_char (CHR 0x52) = (82::nat)"
  "of_char (CHR 0x53) = (83::nat)" "of_char (CHR 0x54) = (84::nat)" "of_char (CHR 0x55) = (85::nat)"
  "of_char (CHR 0x58) = (88::nat)" "of_char (CHR 0x59) = (89::nat)" "of_char (CHR 0x5F) = (95::nat)"
  "of_char (CHR 0x61) = (97::nat)" "of_char (CHR 0x62) = (98::nat)" "of_char (CHR 0x63) = (99::nat)"
  "of_char (CHR 0x64) = (100::nat)" "of_char (CHR 0x65) = (101::nat)" "of_char (CHR 0x66) = (102::nat)"
  "of_char (CHR 0x67) = (103::nat)" "of_char (CHR 0x68) = (104::nat)" "of_char (CHR 0x69) = (105::nat)"
  "of_char (CHR 0x6A) = (106::nat)" "of_char (CHR 0x6B) = (107::nat)" "of_char (CHR 0x6C) = (108::nat)"
  "of_char (CHR 0x6D) = (109::nat)" "of_char (CHR 0x6E) = (110::nat)" "of_char (CHR 0x6F) = (111::nat)"
  "of_char (CHR 0x70) = (112::nat)" "of_char (CHR 0x71) = (113::nat)" "of_char (CHR 0x72) = (114::nat)"
  "of_char (CHR 0x73) = (115::nat)" "of_char (CHR 0x74) = (116::nat)" "of_char (CHR 0x75) = (117::nat)"
  "of_char (CHR 0x76) = (118::nat)" "of_char (CHR 0x77) = (119::nat)" "of_char (CHR 0x78) = (120::nat)"
  "of_char (CHR 0x79) = (121::nat)" "of_char (CHR 0x7E) = (126::nat)"
  by simp_all

lemma one_line_ascii: "list_all (\<lambda>c. 32 \<le> c \<and> c < 128) l \<Longrightarrow> one_line l"
  by (induction l) (auto simp: one_line_def line_break_def in_ranges_def)

lemma isspace_ascii: "32 < c \<Longrightarrow> c < 128 \<Longrightarrow> \<not> isspace c"
  by (simp add: isspace_def in_ranges_def)

lemma strip_left: "l \<noteq> [] \<Longrightarrow> \<not> isspace (last l) \<Longrightarrow> strip l = dropWhile isspace l"
  by (cases l rule: rev_cases) (simp_all add: strip_def dropWhile_append)

lemma upper_char_ascii: "c < 128 \<Longrightarrow> upper_char c = [if 97 \<le> c \<and> c \<le> 122 then c - 32 else c]"
  by (auto simp: upper_char_def upper_special_def upper_split_def)

lemma upper_last: "s \<noteq> [] \<Longrightarrow> last s < 128 \<Longrightarrow> Settings.upper s \<noteq> [] \<and>
    last (Settings.upper s) = (if 97 \<le> last s \<and> last s \<le> 122 then last s - 32 else last s)"
  by (cases s rule: rev_cases) (simp_all add: Settings.upper_def upper_char_ascii)

lemma ends_with_last: "ends_with [c] s \<longleftrightarrow> s \<noteq> [] \<and> last s = c"
  by (cases s rule: rev_cases) (auto simp: ends_with_def starts_with_def)

lemma not_ends_with: "s \<noteq> [] \<Longrightarrow> last s \<noteq> last (c # e) \<Longrightarrow> \<not> ends_with (c # e) s"
  by (cases s rule: rev_cases; cases e rule: rev_cases) (auto simp: ends_with_def starts_with_def)

lemma starts_with_step: "starts_with (p # ps) (c # s) \<longleftrightarrow> p = c \<and> starts_with ps s"
  "starts_with [] s" "\<not> starts_with (p # ps) []"
  by (auto simp: starts_with_def)

lemma starts_with_upper: "c < 128 \<Longrightarrow> starts_with (p # ps) (Settings.upper (c # s)) \<longleftrightarrow>
    p = (if 97 \<le> c \<and> c \<le> 122 then c - 32 else c) \<and> starts_with ps (Settings.upper s)"
  by (auto simp: starts_with_def Settings.upper_def upper_char_ascii)

lemma ends_with_begin: "ends_with (str_lit ''BEGIN'') (Settings.upper (str_lit ''BEGIN''))"
  by (simp add: ends_with_def starts_with_def Settings.upper_def upper_char_ascii)

lemma scan_ends:
  "last [x] = x" "last (x # y # s) = last (y # s)"
  "isspace x \<Longrightarrow> dropWhile isspace (x # s) = dropWhile isspace s"
  "\<not> isspace x \<Longrightarrow> dropWhile isspace (x # s) = x # s"
  by simp_all

lemma strip_Nil: "strip [] = []"
  by (simp add: strip_def)

lemmas schema_codes = SCHEMA_LINES_def str_lit_Cons str_lit_Nil char_codes append_Cons append_Nil

lemma schema_ascii: "list_all (list_all (\<lambda>c. 32 \<le> c \<and> c < 128)) SCHEMA_LINES"
  by (simp only: schema_codes list.pred_inject) simp

lemma schema_one_line: "\<forall>l \<in> set SCHEMA_LINES. one_line l"
  using schema_ascii one_line_ascii by (auto simp: list_all_iff [of _ SCHEMA_LINES])

lemma schema_splitlines: "splitlines SCHEMA_V1_SQL = SCHEMA_LINES"
  unfolding SCHEMA_V1_SQL_def
  by (rule splitlines_closed [OF schema_one_line]) (simp add: SCHEMA_LINES_def)

lemmas line_class_evaluate = scan_ends strip_Nil kept_def strip_left isspace_ascii starts_with_step
  starts_with_upper ends_with_last not_ends_with upper_last ends_with_begin [simplified]

text \<open>
  What the loop does with a line depends on five classes of lines only, so the classes of the
  schema's lines are computed first and the lines are then carried along unread.
\<close>

definition line_class :: "pystr \<Rightarrow> nat" where
  "line_class l =
     (if \<not> kept l then 0
      else if ends_with (str_lit ''BEGIN'') (Settings.upper (strip l)) then 1
      else if starts_with (str_lit ''END;'') (Settings.upper (strip l)) then 2
      else if ends_with (str_lit '';'') (strip l) then 3 else 4)"

fun regroup :: "(nat \<times> 'a) list \<Rightarrow> 'a list \<Rightarrow> int \<Rightarrow> 'a list list" where
  "regroup [] buffer depth = (if buffer = [] then [] else [buffer])"
| "regroup ((c, l) # rest) buffer depth =
     (if c = 0 then regroup rest buffer depth
      else if c = 1 then regroup rest (buffer @ [l]) (depth + 1)
      else if c = 2 then
        (if depth = 1 then (buffer @ [l]) # regroup rest [] 0 else regroup rest (buffer @ [l]) (depth - 1))
      else if c = 3 \<and> depth = 0 then (buffer @ [l]) # regroup rest [] 0
      else regroup rest (buffer @ [l]) depth)"

lemma split_groups_classes: "split_groups ls buffer depth = regroup (zip (map line_class ls) ls) buffer depth"
  by (induction ls buffer depth rule: split_groups.induct) (auto simp: Let_def line_class_def)

lemma schema_classes: "map line_class SCHEMA_LINES =
    [0, 0, 0, 0, 0, 0, 4, 4, 4, 4, 4, 4, 4, 4, 4, 4, 4, 4, 4, 4, 4, 4, 4, 4, 4, 4, 4, 4, 4, 4,
     4, 4, 3, 0, 3, 3, 3, 3, 3, 0, 0, 4, 4, 1, 4, 3, 2, 0, 4, 4, 1, 4, 3, 2, 0, 0, 0, 0, 0, 4,
     4, 4, 4, 4, 4, 3, 0, 0, 0, 0, 0, 0, 4, 4, 4, 4, 4, 4, 4, 4, 3, 0, 3]"
  by (simp only: schema_codes) (simp add: line_class_def line_class_evaluate del: last.simps dropWhile.simps)


text \<open>
  The schema is split into its eleven statements, each with its first line, its last line
  and its number of lines: the body of a trigger stays in one statement although it contains
  semicolons.
\<close>

theorem schema_splits_into_its_statements:
  "map (\<lambda>s. (hd (splitlines s), last (splitlines s), length (splitlines s))) (split_statements SCHEMA_V1_SQL) =
    [(str_lit ''CREATE TABLE activities ('', str_lit '');'', 27),
     (str_lit ''CREATE INDEX idx_activities_did       ON activities(agent_did);'', str_lit ''CREATE INDEX idx_activities_did       ON activities(agent_did);'', 1),
     (str_lit ''CREATE INDEX idx_activities_type      ON activities(activity_type);'', str_lit ''CREATE INDEX idx_activities_type      ON activities(activity_type);'', 1),
     (str_lit ''CREATE INDEX idx_activities_task      ON activities(task_id);'', str_lit ''CREATE INDEX idx_activities_task      ON activities(task_id);'', 1),
     (str_lit ''CREATE INDEX idx_activities_ref       ON activities(ref_activity_id);'', str_lit ''CREATE INDEX idx_activities_ref       ON activities(ref_activity_id);'', 1),
     (str_lit ''CREATE INDEX idx_activities_room_seq  ON activities(tc_room, tc_seq);'', str_lit ''CREATE INDEX idx_activities_room_seq  ON activities(tc_room, tc_seq);'', 1),
     (str_lit ''CREATE TRIGGER activities_no_update'', str_lit ''END;'', 6),
     (str_lit ''CREATE TRIGGER activities_no_delete'', str_lit ''END;'', 6),
     (str_lit ''CREATE TABLE nonces ('', str_lit '');'', 7),
     (str_lit ''CREATE TABLE seen_signatures ('', str_lit '');'', 9),
     (str_lit ''CREATE INDEX idx_seen_signature ON seen_signatures(signature);'', str_lit ''CREATE INDEX idx_seen_signature ON seen_signatures(signature);'', 1)]"
proof -
  have "map (\<lambda>s. f (splitlines s)) (split_statements SCHEMA_V1_SQL) = map f (split_groups SCHEMA_LINES [] 0)" for f
    using splitlines_of_statements [of SCHEMA_V1_SQL] by (metis schema_splitlines map_map comp_apply map_cong)
  from this [of "\<lambda>g. (hd g, last g, length g)"] show ?thesis
    by (elim ssubst)
      (simp only: split_groups_classes schema_classes, simp add: SCHEMA_LINES_def del: str_lit_Cons)
qed

section \<open>Opening a ledger\<close>

text \<open>
  \<open>connect\<close>: the file as it is found and as it is left. A ledger opened for reading is not
  migrated; the pragmas set modes of the connection and not the content of the file.
  \<open>opening\<close> is what \<open>expanduser\<close>, \<open>mkdir\<close> and \<open>sqlite3.connect\<close> raise before the content is reached, if
  anything.
\<close>

definition new_file :: "'s \<Rightarrow> 's ledger_file" where
  "new_file blank = \<lparr>schema = blank, versions = None, held = False\<rparr>"

definition connect ::
  "'s executor \<Rightarrow> 's \<Rightarrow> exn + unit \<Rightarrow> bool \<Rightarrow> 's ledger_file option \<Rightarrow>
     (exn + unit) \<times> 's ledger_file option" where
  "connect exec blank opening read_only found =
     (case opening of
        Inl e \<Rightarrow> (Inl e, found)
      | Inr _ \<Rightarrow>
          if read_only then
            (case found of None \<Rightarrow> (Inl FileNotFoundError, None) | Some f \<Rightarrow> (Inr (), Some f))
          else
            let f = (case found of None \<Rightarrow> new_file blank | Some f \<Rightarrow> f) in
            case apply_migrations exec MIGRATIONS f of
              (Inl e, f') \<Rightarrow> (Inl e, Some f')
            | (Inr _, f') \<Rightarrow> (Inr (), Some f'))"

lemma ascending_MIGRATIONS [simp]: "ascending MIGRATIONS"
  by (simp add: MIGRATIONS_def)

lemma apply_migrations_Inr:
  assumes "ascending ms" "apply_migrations exec ms f = (Inr cur, f')"
  shows "migrated exec ms f f' \<and> versions f' = Some (known f') \<and> \<not> held f' \<and>
    cur = current_version (known f') \<and> (\<forall>m \<in> set ms. fst m \<le> cur)"
proof (cases "bookkeeping f")
  case (Pair b f1)
  note book = bookkeeping_known [OF Pair]
  have "migrate_transaction exec ms f1 = (Inr cur, f')"
    using assms(2) Pair by (auto simp: apply_migrations_def split: sum.splits)
  from migrate_transaction_cases [OF assms(1) this] show ?thesis
    using migrated_same [of f f1 exec ms] book by (auto simp: same_content_def)
qed

text \<open>
  What opening a ledger does to the file. An exception before the content is reached leaves it
  as it is. For reading, opening changes nothing and raises exactly when there is no file. For writing, a ledger that did not exist gets the statements of the
  schema and version 1, every ledger ends at version 1 or later, and opening it again
  changes nothing.
\<close>

theorem opening_a_ledger:
  "connect exec blank (Inl e) read_only found = (Inl e, found) \<and>
   (connect exec blank opening True found = (r, found') \<longrightarrow> found' = found \<and>
      r = rbind opening (\<lambda>_. if found = None then Inl FileNotFoundError else Inr ())) \<and>
   (connect exec blank opening False found = (Inr (), found') \<longrightarrow>
      (\<exists>f. found' = Some f \<and> 1 \<le> current_version (known f) \<and>
         connect exec blank opening False found' = (Inr (), found') \<and>
         (found = None \<longrightarrow> versions f = Some [1] \<and>
            run_statements exec (split_statements SCHEMA_V1_SQL) blank = Inr (schema f))))"
proof (intro conjI impI)
  assume c: "connect exec blank opening False found = (Inr (), found')"
  define f0 where "f0 = (case found of None \<Rightarrow> new_file blank | Some f \<Rightarrow> f)"
  obtain cur f where f: "apply_migrations exec MIGRATIONS f0 = (Inr cur, f)" "found' = Some f"
    using c by (auto simp: connect_def f0_def Let_def split: prod.splits sum.splits)
  have opens: "opening = Inr ()" using c by (cases "opening") (simp_all add: connect_def)
  note ran = apply_migrations_Inr [OF ascending_MIGRATIONS f(1)]
  have one: "1 \<le> current_version (known f)" using ran by (simp add: MIGRATIONS_def)
  have again: "apply_migrations exec MIGRATIONS f = (Inr (current_version (known f)), f)"
    by (rule migrate_transaction_nothing) (use ran in auto)
  have new: "versions f = Some [1] \<and> run_statements exec (split_statements SCHEMA_V1_SQL) blank = Inr (schema f)"
    if "found = None"
    using that ran by (auto simp: f0_def new_file_def migrated_def pending_def known_def
        current_version_def MIGRATIONS_def)
  show "\<exists>f. found' = Some f \<and> 1 \<le> current_version (known f) \<and>
         connect exec blank opening False found' = (Inr (), found') \<and>
         (found = None \<longrightarrow> versions f = Some [1] \<and>
            run_statements exec (split_statements SCHEMA_V1_SQL) blank = Inr (schema f))"
    using one again new f(2) by (auto simp: connect_def opens)
qed (auto simp: connect_def split: option.splits sum.splits)

section \<open>Witnesses\<close>

text \<open>A ledger whose schema is the list of the statements that ran.\<close>

definition recorder :: "pystr \<Rightarrow> pystr list \<Rightarrow> exn + pystr list" where
  "recorder st log = Inr (log @ [st])"

definition two_migrations :: "migration list" where
  "two_migrations = [(1, [str_lit ''a'']), (2, [str_lit ''b'', str_lit ''c''])]"

definition old_file :: "pystr list ledger_file" where
  "old_file = \<lparr>schema = [str_lit ''a''], versions = Some [1], held = False\<rparr>"

definition migrated_file :: "pystr list ledger_file" where
  "migrated_file = \<lparr>schema = [str_lit ''a'', str_lit ''b'', str_lit ''c''], versions = Some [1, 2], held = False\<rparr>"

lemma migrate_old_file: "apply_migrations recorder two_migrations old_file = (Inr 2, migrated_file)"
  by (simp add: apply_migrations_def bookkeeping_def migrate_transaction_def known_def current_version_def
      two_migrations_def old_file_def migrated_file_def recorder_def record_version_def bind_int_def
      int64_ok_def unless_raise_def rbind_def)

theorem migrations_run_once_witness:
  "apply_migrations recorder two_migrations migrated_file = (Inr 2, migrated_file)"
proof -
  have "ascending two_migrations" by (simp add: two_migrations_def)
  from migrations_run_once [OF this migrate_old_file] show ?thesis by simp
qed

theorem concurrent_openings_migrate_once_witness:
  "(opening_step recorder two_migrations)\<^sup>*\<^sup>* old_file migrated_file \<and>
   (schema migrated_file = schema old_file \<or>
    known migrated_file = known old_file @ map fst (pending two_migrations old_file))"
proof -
  have asc: "ascending two_migrations" by (simp add: two_migrations_def)
  have "opening_step recorder two_migrations old_file (snd (migrate_transaction recorder two_migrations old_file))"
    by (rule opening_migrates [of _ "[1]"]) (simp add: old_file_def)
  then have "opening_step recorder two_migrations old_file migrated_file"
    using migrate_old_file by (simp add: apply_migrations_def bookkeeping_def old_file_def)
  then have steps: "(opening_step recorder two_migrations)\<^sup>*\<^sup>* old_file migrated_file" by blast
  from concurrent_openings_migrate_once [OF asc steps] steps show ?thesis by blast
qed

theorem opening_a_ledger_witness:
  "connect recorder [] (Inr ()) True (Some old_file) = (Inr (), Some old_file)"
proof -
  obtain r f where c: "connect recorder [] (Inr ()) True (Some old_file) = (r, f)" by (meson surj_pair)
  from opening_a_ledger [THEN conjunct2, THEN conjunct1, THEN mp, OF c] c show ?thesis by simp
qed

end
