(* ===== verification/TreeScan.thy ===== *)
theory TreeScan
  imports SecretScan Did
begin

text \<open>
  \<open>tools/secret_scan.py\<close>: which files a scan reads, what it prints and its exit code. The
  working tree is an argument: the entries that \<open>rglob\<close> lists, which of them are regular
  files, their text, and what \<open>git\<close> prints for the staged names. A resolved path is the
  list of its parts.
\<close>

section \<open>What a command prints\<close>

datatype channel = Stdout | Stderr

type_synonym lines = "(channel \<times> pystr) list"

definition say :: "string \<Rightarrow> channel \<times> pystr" where
  "say s = (Stdout, str_lit s)"

definition complain :: "string \<Rightarrow> channel \<times> pystr" where
  "complain s = (Stderr, str_lit s)"

section \<open>The working tree\<close>

text \<open>
  \<open>root_parts\<close> are the parts of \<open>Path(root).resolve()\<close>; \<open>entries\<close> are relative to it.
  \<open>read_utf8\<close> is \<open>None\<close> where \<open>read_text\<close> raises \<open>UnicodeDecodeError\<close> or \<open>OSError\<close>, and
  \<open>git_staged\<close> where \<open>git\<close> is missing or fails.
\<close>

record worktree =
  root_parts :: "pystr list"
  entries :: "pystr list list"
  regular :: "pystr list \<Rightarrow> bool"
  read_utf8 :: "pystr list \<Rightarrow> pystr option"
  git_staged :: "pystr option"

record scan_args =
  sa_paths :: "pystr list list"
  sa_all :: bool
  sa_staged :: bool

definition SKIP_DIRS :: "pystr list" where
  "SKIP_DIRS = map str_lit
    [''.git'', ''.venv'', ''venv'', ''__pycache__'', ''.pytest_cache'', ''node_modules'',
     ''.ruff_cache'', ''build'', ''dist'', ''.mypy_cache'']"

definition iter_tree :: "worktree \<Rightarrow> pystr list list" where
  "iter_tree t =
     filter (\<lambda>p. regular t p \<and> \<not> list_ex (\<lambda>part. part \<in> set SKIP_DIRS) p)
       (map (\<lambda>rel. root_parts t @ rel) (entries t))"

text \<open>\<open>root / line\<close>: an absolute right side replaces the left one.\<close>

fun split_on :: "nat \<Rightarrow> pystr \<Rightarrow> pystr \<Rightarrow> pystr list" where
  "split_on sep cur [] = [rev cur]"
| "split_on sep cur (c # s) = (if c = sep then rev cur # split_on sep [] s else split_on sep (c # cur) s)"

definition path_join :: "pystr list \<Rightarrow> pystr \<Rightarrow> pystr list" where
  "path_join root line =
     (let parts = filter (\<lambda>x. x \<noteq> [] \<and> x \<noteq> str_lit ''.'') (split_on 47 [] line) in
      if starts_with (str_lit ''//'') line \<and> \<not> starts_with (str_lit ''///'') line
      then str_lit ''//'' # parts
      else if starts_with (str_lit ''/'') line then str_lit ''/'' # parts
      else root @ parts)"

definition staged_files :: "worktree \<Rightarrow> pystr list list" where
  "staged_files t =
     (case git_staged t of
        None \<Rightarrow> []
      | Some out \<Rightarrow>
          map (path_join (root_parts t))
            (filter (\<lambda>line. line \<noteq> [] \<and> regular t (path_join (root_parts t) line)) (splitlines out)))"

definition scan_targets :: "worktree \<Rightarrow> scan_args \<Rightarrow> pystr list list" where
  "scan_targets t a =
     (if sa_all a then iter_tree t
      else if sa_staged a then staged_files t
      else if sa_paths a \<noteq> [] then sa_paths a
      else iter_tree t)"

section \<open>Scanning\<close>

fun relative_to :: "pystr list \<Rightarrow> pystr list \<Rightarrow> exn + pystr list" where
  "relative_to [] p = Inr p"
| "relative_to (r # rs) (x # p) = (if r = x then relative_to rs p else Inl ValueError)"
| "relative_to (r # rs) [] = Inl ValueError"

definition as_posix :: "pystr list \<Rightarrow> pystr" where
  "as_posix rel =
     (case rel of [] \<Rightarrow> str_lit ''.'' | x # xs \<Rightarrow> x @ concat (map (\<lambda>y. 47 # y) xs))"

definition scan_path :: "worktree \<Rightarrow> pystr list \<Rightarrow> exn + Finding list" where
  "scan_path t p =
     rbind (relative_to (root_parts t) p) (\<lambda>rel. Inr (scan_file (as_posix rel) (read_utf8 t p)))"

fun scan_paths :: "worktree \<Rightarrow> pystr list list \<Rightarrow> exn + Finding list" where
  "scan_paths t [] = Inr []"
| "scan_paths t (p # ps) =
     (if \<not> regular t p then scan_paths t ps
      else rbind (scan_path t p) (\<lambda>found. rbind (scan_paths t ps) (\<lambda>rest. Inr (found @ rest))))"

definition render_finding :: "Finding \<Rightarrow> pystr" where
  "render_finding f =
     f_path f @ 58 # dec (f_line f) @ str_lit '': ['' @ f_rule_id f @ str_lit ''] '' @ f_note f"

definition scan_report :: "nat \<Rightarrow> Finding list \<Rightarrow> lines" where
  "scan_report n findings =
     (if findings \<noteq> [] then
        (Stderr, str_lit ''SECRET SCAN: FAIL '' @ 0x2014 # 32 # dec (length findings) @ str_lit '' finding(s)'')
        # map (\<lambda>f. (Stderr, str_lit ''  '' @ render_finding f)) findings @
        [(Stderr, 10 # str_lit ''Matched text is intentionally not shown. Inspect the file locally.'' @
           10 # str_lit ''If a match is a deliberate inert example, add the marker '' @ 39 # ALLOW_MARKER @
           39 # str_lit '' to that line.'')]
      else
        [(Stdout, str_lit ''SECRET SCAN: PASS '' @ 0x2014 # 32 # dec n @ str_lit '' file(s) scanned, 0 findings'')])"

definition scan_main :: "worktree \<Rightarrow> scan_args \<Rightarrow> exn + (nat \<times> lines)" where
  "scan_main t a =
     (let targets = scan_targets t a in
      rbind (scan_paths t targets) (\<lambda>findings.
        Inr (if findings \<noteq> [] then 1 else 0, scan_report (length targets) findings)))"

section \<open>What a scan finds\<close>

lemma relative_to_Inr: "relative_to r p = Inr rel \<longleftrightarrow> p = r @ rel"
  by (induction r p rule: relative_to.induct) auto

lemma relative_to_Inl: "relative_to r p = Inl e \<longleftrightarrow> e = ValueError \<and> (\<forall>rel. p \<noteq> r @ rel)"
  by (induction r p rule: relative_to.induct) auto

lemma scan_paths_Inr: "scan_paths t ps = Inr fs \<longleftrightarrow>
    (\<forall>p \<in> set ps. regular t p \<longrightarrow> (\<exists>rel. p = root_parts t @ rel)) \<and>
    fs = concat (map (\<lambda>p. scan_file (as_posix (drop (length (root_parts t)) p)) (read_utf8 t p))
      (filter (regular t) ps))"
  by (induction ps arbitrary: fs) (auto simp: rbind_eq_Inr scan_path_def relative_to_Inr)

lemma scan_paths_Inl: "scan_paths t ps = Inl e \<Longrightarrow>
    e = ValueError \<and> (\<exists>p \<in> set ps. regular t p \<and> (\<forall>rel. p \<noteq> root_parts t @ rel))"
  by (induction ps) (auto simp: rbind_def scan_path_def relative_to_Inl split: sum.splits if_splits)

lemma iter_tree_iff: "p \<in> set (iter_tree t) \<longleftrightarrow>
    (\<exists>rel \<in> set (entries t). p = root_parts t @ rel) \<and> regular t p \<and> (\<forall>part \<in> set p. part \<notin> set SKIP_DIRS)"
  by (auto simp: iter_tree_def list_ex_iff)

definition whole_tree :: "scan_args \<Rightarrow> bool" where
  "whole_tree a \<longleftrightarrow> sa_all a \<or> \<not> sa_staged a \<and> sa_paths a = []"

lemma whole_tree_targets: "whole_tree a \<Longrightarrow> scan_targets t a = iter_tree t"
  by (auto simp: whole_tree_def scan_targets_def)

lemma scan_main_Inr: "scan_main t a = Inr (code, out) \<longleftrightarrow>
    (\<exists>fs. scan_paths t (scan_targets t a) = Inr fs \<and> code = (if fs = [] then 0 else 1) \<and>
       out = scan_report (length (scan_targets t a)) fs)"
  by (auto simp: scan_main_def Let_def rbind_eq_Inr)


lemma scan_main_nothing: "scan_targets t a = [] \<Longrightarrow> scan_main t a = Inr (0, scan_report 0 [])"
  by (simp add: scan_main_def)

section \<open>Properties\<close>

text \<open>
  The exit code is the verdict. A scan raises exactly when a regular file among its
  targets lies outside the root; otherwise it answers 0 when no target has a finding and 1
  when some target has one.
\<close>

theorem scan_exit_code:
  "((\<exists>e. scan_main t a = Inl e) \<longleftrightarrow>
     (\<exists>p \<in> set (scan_targets t a). regular t p \<and> (\<forall>rel. p \<noteq> root_parts t @ rel))) \<and>
   (\<forall>code out. scan_main t a = Inr (code, out) \<longrightarrow>
     code = (if \<forall>rel. root_parts t @ rel \<in> set (scan_targets t a) \<and> regular t (root_parts t @ rel) \<longrightarrow>
                  scan_file (as_posix rel) (read_utf8 t (root_parts t @ rel)) = [] then 0 else 1))"
proof (intro conjI allI impI)
  have "(\<exists>e. scan_main t a = Inl e) \<longleftrightarrow> (\<forall>fs. scan_paths t (scan_targets t a) \<noteq> Inr fs)"
    by (cases "scan_paths t (scan_targets t a)") (simp_all add: scan_main_def Let_def)
  then show "(\<exists>e. scan_main t a = Inl e) \<longleftrightarrow>
     (\<exists>p \<in> set (scan_targets t a). regular t p \<and> (\<forall>rel. p \<noteq> root_parts t @ rel))"
    by (auto simp: scan_paths_Inr)
next
  fix code out
  assume "scan_main t a = Inr (code, out)"
  then obtain fs where fs: "scan_paths t (scan_targets t a) = Inr fs" "code = (if fs = [] then 0 else 1)"
    by (auto simp: scan_main_Inr)
  have "fs = [] \<longleftrightarrow> (\<forall>rel. root_parts t @ rel \<in> set (scan_targets t a) \<and> regular t (root_parts t @ rel) \<longrightarrow>
      scan_file (as_posix rel) (read_utf8 t (root_parts t @ rel)) = [])"
    using fs(1) by (fastforce simp: scan_paths_Inr)
  with fs(2) show "code = (if \<forall>rel. root_parts t @ rel \<in> set (scan_targets t a) \<and>
      regular t (root_parts t @ rel) \<longrightarrow>
      scan_file (as_posix rel) (read_utf8 t (root_parts t @ rel)) = [] then 0 else 1)" by simp
qed


text \<open>
  The exemption goes by the name alone: a file whose suffix counts as binary is not opened,
  so a private key that is stored as text in \<open>a.png\<close> or \<open>a.db\<close> is never a finding.
\<close>

theorem binary_suffix_hides_a_key:
  assumes "map ascii_lower (path_suffix rel) \<in> set BINARY_SUFFIXES"
  shows "scan_file rel content = scan_name rel"
  using assms by (simp add: scan_file_def Let_def)

text \<open>
  The skipped names are compared with every part of the absolute path, also with those
  above the root. In a checkout below a directory that is named \<open>build\<close>, \<open>dist\<close> or \<open>venv\<close> a
  scan of the whole tree reads no file and passes, whatever the tree holds.
\<close>

theorem checkout_below_a_skipped_name_passes:
  assumes "whole_tree a" and "part \<in> set (root_parts t)" and "part \<in> set SKIP_DIRS"
  shows "scan_main t a = Inr (0, scan_report 0 [])"
proof (rule scan_main_nothing)
  have "p \<notin> set (iter_tree t)" for p using assms(2,3) by (auto simp: iter_tree_iff)
  then show "scan_targets t a = []" unfolding whole_tree_targets [OF assms(1)] by fastforce
qed

text \<open>
  When \<open>git\<close> fails or is missing, a scan of the staged files passes without having
  read anything.
\<close>

theorem staged_scan_fails_open:
  assumes "\<not> sa_all a" and "sa_staged a" and "git_staged t = None"
  shows "scan_main t a = Inr (0, scan_report 0 [])"
  by (rule scan_main_nothing) (simp add: scan_targets_def staged_files_def assms)

section \<open>Witnesses\<close>

text \<open>A tree with one file, and the same tree below a directory \<open>build\<close>.\<close>

definition key_tree :: "pystr list \<Rightarrow> worktree" where
  "key_tree root = \<lparr>root_parts = root, entries = [[str_lit ''a.txt'']], regular = (\<lambda>_. True),
     read_utf8 = (\<lambda>_. Some example_pem), git_staged = None\<rparr>"

definition all_files :: scan_args where
  "all_files = \<lparr>sa_paths = [], sa_all = True, sa_staged = False\<rparr>"



theorem binary_suffix_hides_a_key_witness:
  "matches_in pem_private_key_block example_pem \<and>
   scan_file (str_lit ''a.png'') (Some example_pem) = scan_name (str_lit ''a.png'')"
proof
  have "path_suffix (str_lit ''a.png'') = str_lit ''.png''" by (simp add: path_suffix_def path_name_def)
  then have "map ascii_lower (path_suffix (str_lit ''a.png'')) \<in> set BINARY_SUFFIXES"
    by (simp add: BINARY_SUFFIXES_def ascii_lower_def)
  from binary_suffix_hides_a_key [OF this]
  show "scan_file (str_lit ''a.png'') (Some example_pem) = scan_name (str_lit ''a.png'')" .
qed (rule example_pem_matches)

theorem checkout_below_a_skipped_name_passes_witness:
  "scan_main (key_tree [str_lit ''build'']) all_files = Inr (0, scan_report 0 [])"
  by (rule checkout_below_a_skipped_name_passes [of _ "str_lit ''build''"])
    (simp_all add: key_tree_def all_files_def whole_tree_def SKIP_DIRS_def)

theorem staged_scan_fails_open_witness:
  "scan_main (key_tree []) \<lparr>sa_paths = [], sa_all = False, sa_staged = True\<rparr> = Inr (0, scan_report 0 [])"
  by (rule staged_scan_fails_open) (simp_all add: key_tree_def)

end
