(* ===== verification/Cli.thy ===== *)
theory Cli
  imports Publish Migrations TreeScan "HOL-Library.Multiset"
begin

text \<open>
  \<open>flopoffice/__main__.py\<close>: the commands, their output and exit codes, and
  \<open>Break.render\<close> of \<open>proof/verify.py\<close>, which \<open>verify-ledger\<close> prints. A command
  yields an exit code or the exception that escapes it. A path argument is the text of the
  \<open>Path\<close> made from it.
\<close>

section \<open>The process around a command\<close>

definition EXIT_OK :: int where "EXIT_OK = 0"
definition EXIT_BROKEN :: int where "EXIT_BROKEN = 2"
definition EXIT_ERROR :: int where "EXIT_ERROR = 3"

text \<open>
  What the commands read: ledger files by path, the answer of \<open>git status\<close> (\<open>None\<close>
  for an \<open>OSError\<close>), the typed passphrase, and \<open>str\<close> of an exception. \<open>sys_ledger\<close> is what the
  questions about the path and \<open>connect\<close> yield: an exception, for instance of a file that is
  locked or no database, no file, or the ledger in it.
\<close>

record 'key system =
  sys_io :: "'key io"
  sys_fs :: filesystem
  sys_ledger :: "pystr \<Rightarrow> exn + db option"
  sys_git :: "(int \<times> pystr) option"
  sys_passphrase :: pystr
  sys_stamps :: stamps
  sys_netloc_ok :: "pystr \<Rightarrow> bool"
  sys_start :: rat
  sys_exn_text :: "exn \<Rightarrow> pystr"

definition ledger_not_found :: "pystr \<Rightarrow> channel \<times> pystr" where
  "ledger_not_found path = (Stderr, str_lit ''ledger not found: '' @ path)"

section \<open>verify-ledger\<close>

fun kind_text :: "BreakKind \<Rightarrow> string" where
  "kind_text HASH_MISMATCH = ''entry_hash does not match the record'' @ [CHR 0x27] @ ''s contents''"
| "kind_text LINK_MISMATCH = ''prev_hash does not match the previous record'' @ [CHR 0x27] @ ''s entry_hash''"
| "kind_text INDEX_GAP = ''chain_index is not contiguous (a record is missing)''"
| "kind_text BAD_GENESIS = ''first record does not carry the genesis prev_hash''"

text \<open>Every break of \<open>verify_chain\<close> carries both hashes.\<close>

definition render_break :: "Break \<Rightarrow> pystr" where
  "render_break b = join_lines
     [str_lit ''  first break at chain_index '' @ str_int (b_chain_index b),
      str_lit ''  activity_id: '' @ (if b_activity_id b = [] then str_lit ''<missing>'' else b_activity_id b),
      str_lit ''  reason:      '' @ str_lit (kind_text (b_kind b)),
      str_lit ''  expected:    '' @ b_expected b,
      str_lit ''  found:       '' @ b_found b]"

definition cmd_verify_ledger :: "'key system \<Rightarrow> pystr \<Rightarrow> (exn + int) \<times> lines" where
  "cmd_verify_ledger sys path =
     (case sys_ledger sys path of
        Inl e \<Rightarrow> (Inl e, [])
      | Inr None \<Rightarrow> (Inr EXIT_ERROR, [ledger_not_found path])
      | Inr (Some d) \<Rightarrow>
          (case verify_chain d of
             Inl e \<Rightarrow> (Inl e, [])
           | Inr v \<Rightarrow>
               (case v_status v of
                  EMPTY \<Rightarrow> (Inr EXIT_OK, [say ''LEDGER: EMPTY - no activities recorded yet''])
                | VALID \<Rightarrow> (Inr EXIT_OK,
                    [(Stdout, str_lit ''LEDGER: VALID - '' @ dec (v_records_checked v) @ str_lit '' record(s) verified''),
                     (Stdout, str_lit ''  head entry_hash: '' @ (case v_head_hash v of None \<Rightarrow> str_lit ''None'' | Some h \<Rightarrow> h)),
                     say (''  note: local, application-level tamper evidence only. '' @
                          ''Not a blockchain and not external attestation.'')])
                | BROKEN \<Rightarrow> (Inr EXIT_BROKEN,
                    (Stdout, str_lit ''LEDGER: BROKEN - '' @ dec (v_records_checked v) @
                       str_lit '' record(s) verified before the break'') #
                    (case v_first_break v of None \<Rightarrow> [] | Some b \<Rightarrow> [(Stdout, render_break b)])))))"

section \<open>ledger-status\<close>

text \<open>
  \<open>GROUP BY activity_type ORDER BY n DESC\<close>; SQL leaves the order of equal counts open,
  here they come in the order of the type names.
\<close>

definition type_counts :: "db \<Rightarrow> (pystr \<times> nat) list" where
  "type_counts d =
     (let types = map r_activity_type (activities d) in
      sort_key (\<lambda>tn. - int (snd tn)) (map (\<lambda>t. (t, count_list types t)) (sort (remdups types))))"

definition ljust :: "nat \<Rightarrow> pystr \<Rightarrow> pystr" where
  "ljust n s = s @ replicate (n - length s) 32"

definition cmd_ledger_status :: "'key system \<Rightarrow> pystr \<Rightarrow> (exn + int) \<times> lines" where
  "cmd_ledger_status sys path =
     (case sys_ledger sys path of
        Inl e \<Rightarrow> (Inl e, [])
      | Inr None \<Rightarrow> (Inr EXIT_ERROR, [ledger_not_found path])
      | Inr (Some d) \<Rightarrow>
          (let pending = dangling_intents d in
           (Inr EXIT_OK,
            [(Stdout, str_lit ''records:   '' @ dec (Ledger.count d)),
             (Stdout, str_lit ''head hash: '' @
                (case select_head d of None \<Rightarrow> str_lit ''-'' | Some r \<Rightarrow> r_entry_hash r))] @
            map (\<lambda>(t, n). (Stdout, str_lit ''  '' @ ljust 28 t @ 32 # dec n)) (type_counts d) @
            (if pending = [] then []
             else (Stdout, 10 # str_lit ''WARNING: '' @ dec (length pending) @
                     str_lit '' write intent(s) with no recorded outcome:'') #
                  map (\<lambda>i. (Stdout, str_lit ''  '' @ i)) pending))))"

section \<open>doctor\<close>

fun source_text :: "did_source \<Rightarrow> string" where
  "source_text Committed = ''committed''"
| "source_text FromEnvironment = ''environment''"

definition yes_no :: "bool \<Rightarrow> pystr" where
  "yes_no b = (if b then str_lit ''yes'' else str_lit ''no'')"

definition posture :: "Settings \<Rightarrow> bool \<Rightarrow> lines" where
  "posture s full_did =
     [say ''flop-agent-office - posture'',
      (Stdout, str_lit ''  env:                 '' @ Settings.env s),
      (Stdout, str_lit ''  ledger:              '' @ ledger_path s),
      (Stdout, str_lit ''  root agent DID:      '' @
         (if full_did then did (root_agent_did s) else DidKey_short (root_agent_did s)) @
         str_lit ''  ('' @ str_lit (source_text (root_agent_did_source s)) @ str_lit '')''),
      (Stdout, str_lit ''  root signer configured: '' @ yes_no (root_signer_configured s)),
      (Stdout, str_lit ''  root signer enabled:    '' @ yes_no (root_signer_enabled s)),
      (Stdout, str_lit ''  capability signer:      '' @
         (if root_signer_configured s then str_lit ''READY-BY-CONFIG'' else str_lit ''NOT LOADED'') @
         str_lit '' (key never loaded by doctor)''),
      (Stdout, str_lit ''  technocore base url: '' @
         (case technocore_base_url s of None \<Rightarrow> str_lit ''<unset>''
          | Some u \<Rightarrow> if u = [] then str_lit ''<unset>'' else u)),
      (Stdout, str_lit ''  local writes:        '' @
         (if allow_local_write s then str_lit ''enabled'' else str_lit ''disabled'')),
      say '''',
      say ''  root agent DID is PUBLIC identity only:'',
      say ''    not a wallet, not proof of trust, not proof of FLOP eligibility,'',
      say ''    not an on-chain identity, and not authorisation to sign.'',
      say '''',
      say ''  production signer:   RAW SIGNER UNAVAILABLE'',
      say ''  public technocore:   WRITES BLOCKED (host denylist)'',
      say ''  FLOP / faucet / wallet code: NONE'']"

fun is_ConfigError :: "exn \<Rightarrow> bool" where
  "is_ConfigError (ConfigError _) = True"
| "is_ConfigError _ = False"

definition cmd_doctor :: "'key system \<Rightarrow> bool \<Rightarrow> (exn + int) \<times> lines" where
  "cmd_doctor sys full_did =
     (case load (sys_fs sys) (os_environ (sys_io sys)) None of
        Inl e \<Rightarrow>
          if is_ConfigError e
          then (Inr EXIT_ERROR, [(Stderr, str_lit ''CONFIG ERROR: '' @ sys_exn_text sys e)])
          else (Inl e, [])
      | Inr s \<Rightarrow> (Inr EXIT_OK, posture s full_did))"

section \<open>publish-technocore-announcement\<close>

record publish_args =
  pa_base_url :: pystr
  pa_room :: pystr
  pa_message_sha256 :: pystr
  pa_ledger :: "pystr option"
  pa_confirm :: bool

definition PUBLISH_BASE :: pystr where
  "PUBLISH_BASE = str_lit ''https://technocore.chat''"

definition repo_is_clean :: "'key system \<Rightarrow> bool" where
  "repo_is_clean sys =
     (case sys_git sys of None \<Rightarrow> False | Some (code, out) \<Rightarrow> code = 0 \<and> strip out = [])"

text \<open>The checks before the flow, in order, each with its message.\<close>

definition publish_refusal :: "'key system \<Rightarrow> publish_args \<Rightarrow> string option" where
  "publish_refusal sys a =
     (if \<not> pa_confirm a then Some ''ERROR: exact public publish confirmation flag is required''
      else if pa_room a \<noteq> FIRST_ANNOUNCEMENT_ROOM
      then Some ''ERROR: room does not match the reviewed announcement''
      else if pa_message_sha256 a \<noteq> FIRST_ANNOUNCEMENT_SHA256
      then Some ''ERROR: message SHA-256 does not match the reviewed announcement''
      else if rstrip_slash (pa_base_url a) \<noteq> PUBLISH_BASE
      then Some ''ERROR: base URL must be exactly https://technocore.chat''
      else if \<not> repo_is_clean sys
      then Some ''ERROR: repository has uncommitted changes; refusing to publish''
      else None)"

text \<open>\<open>connect\<close> creates the ledger when there is none, or raises.\<close>

definition opened :: "'key system \<Rightarrow> pystr \<Rightarrow> exn + db" where
  "opened sys path = rbind (sys_ledger sys path) (\<lambda>found.
     Inr (case found of None \<Rightarrow> empty_db | Some d \<Rightarrow> d))"

definition publish_ledger_path :: "publish_args \<Rightarrow> Settings \<Rightarrow> pystr" where
  "publish_ledger_path a s = (case pa_ledger a of Some (c # cs) \<Rightarrow> c # cs | _ \<Rightarrow> ledger_path s)"

text \<open>The ledger as the flow leaves it, when it was opened, and the requests that left come last.\<close>

definition publish_flow ::
  "'key system \<Rightarrow> publish_args \<Rightarrow> Settings \<Rightarrow>
     (exn + AnnouncementPublishResult) \<times> db option \<times> request list" where
  "publish_flow sys a s =
     (let io = sys_io sys in
      case root_agent_capability_signer (backend io) (sys_fs sys) (os_environ io)
             (VStr (sys_passphrase sys)) True False None of
        Inl e \<Rightarrow> (Inl e, None, [])
      | Inr cap \<Rightarrow>
          (case opened sys (publish_ledger_path a s) of
             Inl e \<Rightarrow> (Inl e, None, [])
           | Inr ledger \<Rightarrow>
               (case TechnocoreClient_init (sys_netloc_ok sys) (pa_base_url a) (sys_start sys) of
                  Inl e \<Rightarrow> (Inl e, Some ledger, [])
                | Inr cl \<Rightarrow>
                    (let (r, d, cl') = publish_first_announcement_once io (sys_stamps sys) (ACapability cap)
                           (pa_room a) (pa_message_sha256 a) True cl ledger
                     in (r, Some d, sent cl')))))"

text \<open>\<open>except (AnnouncementPreparationError, ConfigError, DidMismatchError, KeystoreError)\<close>.\<close>

fun stops_fail_closed :: "exn \<Rightarrow> bool" where
  "stops_fail_closed (AnnouncementPreparationError _) = True"
| "stops_fail_closed e = (is_ConfigError e \<or> is_KeystoreError e)"

fun seq_text :: "seq_value \<Rightarrow> pystr" where
  "seq_text (SeqInt i) = str_int i"
| "seq_text (SeqBool b) = str_bool b"

definition publish_report :: "AnnouncementPublishResult \<Rightarrow> lines" where
  "publish_report r =
     (let who = ap_did (prep_proof (pr_preparation r)) in
      [(Stdout, str_lit ''root DID: '' @ take 4 (removeprefix DID_PREFIX who) @ str_lit ''...'' @ drop (length who - 4) who),
       say ''message prepared: yes'',
       say ''canonicalization: PASS'',
       say ''signature verification: PASS'',
       say ''ledger proof: recorded'',
       say ''Technocore publish: SENT'',
       (Stdout, str_lit ''server seq: '' @ seq_text (pr_server_seq r)),
       say ''status: PUBLISHED''])"

definition cmd_publish ::
  "'key system \<Rightarrow> publish_args \<Rightarrow> (exn + int) \<times> lines \<times> db option \<times> request list" where
  "cmd_publish sys a =
     (case publish_refusal sys a of
        Some message \<Rightarrow> (Inr EXIT_ERROR, [complain message], None, [])
      | None \<Rightarrow>
          (case load (sys_fs sys) (os_environ (sys_io sys)) None of
             Inl e \<Rightarrow>
               if is_ConfigError e
               then (Inr EXIT_ERROR, [complain ''ERROR: public/path configuration is invalid''], None, [])
               else (Inl e, [], None, [])
           | Inr s \<Rightarrow>
               if keystore_path s = None
               then (Inr EXIT_ERROR, [complain ''ERROR: explicit FLOPOFFICE_KEYSTORE configuration is required''],
                     None, [])
               else
                 (case publish_flow sys a s of
                    (Inr r, d, reqs) \<Rightarrow> (Inr EXIT_OK, publish_report r, d, reqs)
                  | (Inl e, d, reqs) \<Rightarrow>
                      if stops_fail_closed e
                      then (Inr EXIT_ERROR, [complain ''ERROR: publish flow stopped fail-closed''], d, reqs)
                      else (Inl e, [], d, reqs))))"

section \<open>Dispatch\<close>

definition cmd_scan_secrets :: "worktree \<Rightarrow> exn + (nat \<times> lines)" where
  "cmd_scan_secrets tree = scan_main tree \<lparr>sa_paths = [], sa_all = True, sa_staged = False\<rparr>"

text \<open>The parsed command line; the argument parser itself is the standard library's.\<close>

datatype command =
    VerifyLedger pystr | LedgerStatus pystr | ScanSecrets worktree
  | Doctor bool | PublishAnnouncement publish_args

fun run_command :: "'key system \<Rightarrow> command \<Rightarrow> exn + int" where
  "run_command sys (VerifyLedger path) = fst (cmd_verify_ledger sys path)"
| "run_command sys (LedgerStatus path) = fst (cmd_ledger_status sys path)"
| "run_command sys (ScanSecrets tree) = rbind (cmd_scan_secrets tree) (\<lambda>(code, _). Inr (int code))"
| "run_command sys (Doctor full_did) = fst (cmd_doctor sys full_did)"
| "run_command sys (PublishAnnouncement a) = fst (cmd_publish sys a)"

section \<open>Properties\<close>

text \<open>
  The exit code of \<open>verify-ledger\<close> is the verdict: when the ledger can be opened and its rows
  are storable the command never raises, and answers 0 exactly when the rows form a chain, 2
  when they do not, and 3 only when there is no file.
\<close>

theorem verify_ledger_exit_code:
  assumes "sys_ledger sys path = Inr found" and "\<forall>d. found = Some d \<longrightarrow> (\<forall>r \<in> set (activities d). storable_row r)"
  shows "fst (cmd_verify_ledger sys path) = Inr
    (case found of
       None \<Rightarrow> EXIT_ERROR
     | Some d \<Rightarrow> if chain_ok (select_ordered d) then EXIT_OK else EXIT_BROKEN)"
proof (cases found)
  case None
  then show ?thesis by (simp add: cmd_verify_ledger_def assms(1))
next
  case (Some d)
  with assms(2) have rows: "\<forall>r \<in> set (activities d). storable_row r" by blast
  have "\<exists>v. verify_chain d = Inr v \<and>
      (if chain_ok (select_ordered d) then v_status v \<in> {VALID, EMPTY} else v_status v = BROKEN)"
  proof (cases "activities d = []")
    case True
    then have "chain_ok (select_ordered d)" by (simp add: select_ordered_def chain_ok_def)
    then show ?thesis using verify_chain_empty [of d] True by auto
  next
    case False
    show ?thesis
    proof (cases "chain_ok (select_ordered d)")
      case True
      then show ?thesis using verify_chain_valid [OF True False] by simp
    next
      case nok: False
      then obtain i where i: "i < length (select_ordered d)" "\<forall>j < i. linked (select_ordered d) j"
          "\<not> linked (select_ordered d) i"
        using chain_dichotomy by blast
      from verify_chain_break [OF rows i] nok show ?thesis by (auto simp: is_break_def)
    qed
  qed
  then obtain v where "verify_chain d = Inr v"
    "if chain_ok (select_ordered d) then v_status v \<in> {VALID, EMPTY} else v_status v = BROKEN" by blast
  then show ?thesis
    by (cases "v_status v"; cases "chain_ok (select_ordered d)") (simp_all add: cmd_verify_ledger_def assms(1) Some)
qed

lemma count_list_map: "count_list (map f xs) t = length (filter (\<lambda>x. f x = t) xs)"
  by (induction xs) auto

lemma sum_counts: "set xs \<subseteq> set ts \<Longrightarrow> distinct ts \<Longrightarrow> sum_list (map (count_list xs) ts) = length xs"
  by (simp add: sum_list_distinct_conv_sum_set sum_count_set)

text \<open>
  The table of \<open>ledger-status\<close> accounts for every record: it names each type that
  occurs exactly once, with its number of records, largest first, and the numbers add up
  to the count that the command prints.
\<close>

theorem status_table_accounts_for_every_record:
  "distinct (map fst (type_counts d)) \<and>
   set (map fst (type_counts d)) = r_activity_type ` set (activities d) \<and>
   (\<forall>(t, n) \<in> set (type_counts d). n = length (filter (\<lambda>r. r_activity_type r = t) (activities d))) \<and>
   sorted_wrt (\<ge>) (map snd (type_counts d)) \<and>
   sum_list (map snd (type_counts d)) = Ledger.count d"
proof -
  let ?ts = "map r_activity_type (activities d)"
  let ?xs = "map (\<lambda>t. (t, count_list ?ts t)) (sort (remdups ?ts))"
  let ?k = "\<lambda>tn :: pystr \<times> nat. - int (snd tn)"
  have same: "mset (type_counts d) = mset ?xs" by (simp add: type_counts_def Let_def)
  then have set: "set (type_counts d) = set ?xs" by (rule mset_eq_setD)
  have "mset (map fst (type_counts d)) = mset (map fst ?xs)" "mset (map snd (type_counts d)) = mset (map snd ?xs)"
    using same by (metis mset_map)+
  moreover have "map fst ?xs = sort (remdups ?ts)" "map snd ?xs = map (count_list ?ts) (sort (remdups ?ts))"
    by (simp_all add: comp_def)
  ultimately have "distinct (map fst (type_counts d))"
    and fsts: "set (map fst (type_counts d)) = r_activity_type ` set (activities d)"
    and sum: "sum_list (map snd (type_counts d)) = sum_list (map (count_list ?ts) (sort (remdups ?ts)))"
    by (metis distinct_remdups distinct_sort mset_eq_imp_distinct_iff,
        metis mset_eq_setD set_remdups set_sort list.set_map,
        metis sum_mset_sum_list)
  moreover have "sum_list (map (count_list ?ts) (sort (remdups ?ts))) = Ledger.count d"
    by (subst sum_counts) (simp_all add: Ledger.count_def)
  moreover have "sorted (map ?k (type_counts d))" by (simp add: type_counts_def Let_def)
  then have "sorted_wrt (\<ge>) (map snd (type_counts d))" by (simp add: sorted_wrt_map)
  moreover have "count_list ?ts t = length (filter (\<lambda>r. r_activity_type r = t) (activities d))" for t
    by (rule count_list_map)
  then have "\<forall>(t, n) \<in> set (type_counts d). n = length (filter (\<lambda>r. r_activity_type r = t) (activities d))"
    unfolding set by auto
  ultimately show ?thesis by simp
qed

lemma client_init: "TechnocoreClient_init netloc_ok url now = Inr cl \<Longrightarrow>
    sent cl = [] \<and> base_url cl = rstrip_slash url"
  by (auto simp: TechnocoreClient_init_def Let_def rbind_eq_Inr split: prod.splits)

text \<open>What one run of the flow leaves: nothing sent and an exception, or one request.\<close>

definition flow_outcome ::
  "publish_args \<Rightarrow> (exn + AnnouncementPublishResult) \<Rightarrow> db option \<Rightarrow> request list \<Rightarrow> bool" where
  "flow_outcome a r file reqs \<longleftrightarrow>
     reqs = [] \<and> (\<exists>e. r = Inl e) \<or>
     (\<exists>path. reqs = [(rstrip_slash (pa_base_url a) @ path, [])]) \<and>
     (\<forall>x. r = Inr x \<longrightarrow>
        (\<exists>d. file = Some d \<and> (\<exists>q \<in> set (activities d). r_activity_type q = PUBLISH_RESULT)))"

lemma publish_flow_outcome:
  assumes "publish_flow sys a s = (r, file, reqs)"
    and "\<forall>d. opened sys (publish_ledger_path a s) = Inr d \<longrightarrow> ledger_ok d"
  shows "flow_outcome a r file reqs"
proof -
  let ?io = "sys_io sys" and ?open = "opened sys (publish_ledger_path a s)"
  let ?cap = "root_agent_capability_signer (backend ?io) (sys_fs sys) (os_environ ?io)
    (VStr (sys_passphrase sys)) True False None"
  let ?cl = "TechnocoreClient_init (sys_netloc_ok sys) (pa_base_url a) (sys_start sys)"
  consider (none) "\<exists>e. ?cap = Inl e \<or> ?open = Inl e \<or> ?cl = Inl e"
    | (all) cap d cl where "?cap = Inr cap" "?open = Inr d" "?cl = Inr cl"
    by (meson old.sum.exhaust)
  then show ?thesis
  proof cases
    case none
    then show ?thesis
      using assms(1) by (auto simp: publish_flow_def Let_def flow_outcome_def split: sum.splits prod.splits)
  next
    case all
    obtain res d' cl' where p: "publish_first_announcement_once ?io (sys_stamps sys) (ACapability cap)
        (pa_room a) (pa_message_sha256 a) True cl d = (res, d', cl')" by (metis prod_cases3)
    have out: "r = res" "file = Some d'" "reqs = sent cl'"
      using assms(1) p by (auto simp: publish_flow_def Let_def all)
    note cl = client_init [OF all(3)]
    have "ledger_ok d" using assms(2) all(2) by blast
    from publish_outcome [OF this p] consider "sent cl' = sent cl" "\<exists>e. res = Inl e"
      | prep d1 where "published_once ?io (sys_stamps sys) (ACapability cap) prep cl d cl' d1"
        "concluded prep d1 res d'" by blast
    then show ?thesis
    proof cases
      case 1
      then show ?thesis using cl by (simp add: flow_outcome_def out)
    next
      case 2
      have "\<exists>q \<in> set (activities d'). r_activity_type q = PUBLISH_RESULT" if "res = Inr x" for x
        using 2(2) that by (auto simp: concluded_def result_recorded_def)
      then show ?thesis
        using 2(1) cl by (auto simp: published_once_def Let_def flow_outcome_def out)
    qed
  qed
qed

text \<open>
  C18. The command that publishes sends at most one request, and only when it was confirmed
  for the reviewed room, message and host, from a clean repository. Exit code 0 means that
  exactly one request was sent and its result is in the ledger.
\<close>

theorem publish_command_sends_at_most_once:
  assumes "cmd_publish sys a = (res, out, file, reqs)"
    and "\<forall>path d. opened sys path = Inr d \<longrightarrow> ledger_ok d"
  shows "(reqs = [] \<or>
      (\<exists>path. reqs = [(PUBLISH_BASE @ path, [])]) \<and> pa_confirm a \<and>
      pa_room a = FIRST_ANNOUNCEMENT_ROOM \<and> pa_message_sha256 a = FIRST_ANNOUNCEMENT_SHA256 \<and>
      rstrip_slash (pa_base_url a) = PUBLISH_BASE \<and> (\<exists>out. sys_git sys = Some (0, out) \<and> strip out = []) \<and>
      (\<exists>s. load (sys_fs sys) (os_environ (sys_io sys)) None = Inr s \<and> keystore_path s \<noteq> None)) \<and>
    (res = Inr EXIT_OK \<longrightarrow> length reqs = 1 \<and>
      (\<exists>d. file = Some d \<and> (\<exists>r \<in> set (activities d). r_activity_type r = PUBLISH_RESULT)))"
proof -
  have no_ok: "EXIT_ERROR \<noteq> EXIT_OK" by (simp add: EXIT_ERROR_def EXIT_OK_def)
  show ?thesis
  proof (cases "publish_refusal sys a")
    case (Some m)
    then show ?thesis using assms(1) no_ok by (auto simp: cmd_publish_def)
  next
    case None
    then have checks: "pa_confirm a" "pa_room a = FIRST_ANNOUNCEMENT_ROOM"
      "pa_message_sha256 a = FIRST_ANNOUNCEMENT_SHA256" "rstrip_slash (pa_base_url a) = PUBLISH_BASE"
      "\<exists>out. sys_git sys = Some (0, out) \<and> strip out = []"
      by (auto simp: publish_refusal_def repo_is_clean_def split: if_splits option.splits)
    show ?thesis
    proof (cases "load (sys_fs sys) (os_environ (sys_io sys)) None")
      case (Inl e)
      then show ?thesis using assms(1) no_ok by (auto simp: cmd_publish_def None split: if_splits)
    next
      case load: (Inr s)
      show ?thesis
      proof (cases "keystore_path s = None")
        case True
        then show ?thesis using assms(1) no_ok by (auto simp: cmd_publish_def None load)
      next
        case False
        obtain r f q where flow: "publish_flow sys a s = (r, f, q)" by (metis prod_cases3)
        have out: "file = f" "reqs = q" "res = Inr EXIT_OK \<longrightarrow> (\<exists>x. r = Inr x)"
          using assms(1) no_ok False by (auto simp: cmd_publish_def None load flow split: sum.splits if_splits)
        from publish_flow_outcome [OF flow] assms(2) have "flow_outcome a r f q" by blast
        then show ?thesis
          using out None load False checks by (auto simp: flow_outcome_def)
      qed
    qed
  qed
qed

text \<open>
  Not every failure stops fail-closed: an exception of a class that the command does not
  name escapes it, after the passphrase was typed. What \<open>load_encrypted_pem\<close> raises
  for a passphrase that UTF-8 cannot encode is such an exception.
\<close>

theorem keystore_failure_may_escape:
  assumes "publish_refusal sys a = None" and "load (sys_fs sys) (os_environ (sys_io sys)) None = Inr s"
    and "keystore_path s = Some path"
    and "load_encrypted_pem (backend (sys_io sys)) (sys_fs sys) path (VStr (sys_passphrase sys)) = Inl e"
  shows "cmd_publish sys a =
    (if stops_fail_closed e
     then (Inr EXIT_ERROR, [complain ''ERROR: publish flow stopped fail-closed''],
           None, [])
     else (Inl e, [], None, []))"
proof -
  have "root_agent_capability_signer (backend (sys_io sys)) (sys_fs sys) (os_environ (sys_io sys))
      (VStr (sys_passphrase sys)) True False None = Inl e"
    using assms by (simp add: root_agent_capability_signer_def build_capability_signer_def unless_raise_def)
  then show ?thesis by (simp add: cmd_publish_def publish_flow_def Let_def assms)
qed

section \<open>A concrete process\<close>

definition toy_system :: "pystr \<Rightarrow> unit system" where
  "toy_system passphrase =
     \<lparr>sys_io = (toy_io JNull)\<lparr>os_environ := toy_environ\<rparr>, sys_fs = toy_files, sys_ledger = (\<lambda>_. Inr None),
      sys_git = Some (0, []), sys_passphrase = passphrase, sys_stamps = toy_stamps,
      sys_netloc_ok = (\<lambda>_. True), sys_start = 0, sys_exn_text = (\<lambda>_. [])\<rparr>"

definition toy_args :: publish_args where
  "toy_args = \<lparr>pa_base_url = PUBLISH_BASE, pa_room = FIRST_ANNOUNCEMENT_ROOM,
     pa_message_sha256 = FIRST_ANNOUNCEMENT_SHA256, pa_ledger = None, pa_confirm = True\<rparr>"

lemma toy_not_refused: "publish_refusal (toy_system pw) toy_args = None"
  by (simp add: publish_refusal_def toy_args_def toy_system_def repo_is_clean_def rstrip_slash_def
      PUBLISH_BASE_def strip_def)

theorem verify_ledger_exit_code_witness:
  "fst (cmd_verify_ledger ((toy_system [])\<lparr>sys_ledger := (\<lambda>_. Inr (Some (empty_db\<lparr>activities := [example_row]\<rparr>)))\<rparr>) [])
     \<in> {Inr EXIT_OK, Inr EXIT_BROKEN}"
  using verify_ledger_exit_code [of "(toy_system [])\<lparr>sys_ledger := (\<lambda>_. Inr (Some (empty_db\<lparr>activities := [example_row]\<rparr>)))\<rparr>" "[]"]
    storable_example by simp

theorem publish_command_sends_at_most_once_witness:
  "\<exists>res out file reqs. cmd_publish (toy_system (str_lit ''k'')) toy_args = (res, out, file, reqs) \<and> length reqs \<le> 1"
proof -
  obtain res out written reqs where c: "cmd_publish (toy_system (str_lit ''k'')) toy_args = (res, out, written, reqs)"
    by (metis prod_cases4)
  have "\<forall>path d. opened (toy_system (str_lit ''k'')) path = Inr d \<longrightarrow> ledger_ok d"
    using ledger_ok_empty by (auto simp: opened_def toy_system_def)
  from publish_command_sends_at_most_once [OF c this] have "length reqs \<le> 1" by auto
  with c show ?thesis by blast
qed

lemma upper_of_upper: "\<forall>c \<in> set s. c < 97 \<Longrightarrow> Settings.upper s = s"
proof -
  have "upper_char c = [c]" if "c < 97" for c
    using that by (simp add: upper_char_def upper_special_def upper_split_def)
  then have "concat (map upper_char s) = s" if "\<forall>c \<in> set s. c < 97"
    using that by (induction s) auto
  then show "\<forall>c \<in> set s. c < 97 \<Longrightarrow> Settings.upper s = s" by (simp add: Settings.upper_def)
qed

lemma toy_names_not_secret:
  "\<not> secret_shaped ENV_OVERRIDE" "\<not> secret_shaped (str_lit ''FLOPOFFICE_KEYSTORE'')"
proof -
  have "Settings.upper ENV_OVERRIDE = ENV_OVERRIDE"
    by (rule upper_of_upper) (simp add: ENV_OVERRIDE_def)
  then show "\<not> secret_shaped ENV_OVERRIDE"
    by (simp add: secret_shaped_def) (simp add: ENV_OVERRIDE_def FORBIDDEN_ENV_SUBSTRINGS_def starts_with_def)
  have "Settings.upper (str_lit ''FLOPOFFICE_KEYSTORE'') = str_lit ''FLOPOFFICE_KEYSTORE''"
    by (rule upper_of_upper) simp
  then show "\<not> secret_shaped (str_lit ''FLOPOFFICE_KEYSTORE'')"
    by (simp add: secret_shaped_def FORBIDDEN_ENV_SUBSTRINGS_def starts_with_def)
qed

lemma toy_settings:
  "\<exists>s. load toy_files toy_environ None = Inr s \<and> keystore_path s = Some (str_lit ''k'')"
proof -
  have "reject_secret_env toy_environ = Inr ()"
    using toy_names_not_secret
    by (simp add: reject_secret_env_def unless_raise_def toy_environ_def del: str_lit_Cons)
  then have "load toy_files toy_environ None = load toy_files [] (Some toy_environ)"
    by (simp add: load_def)
  with toy_load_settings show ?thesis by auto
qed

theorem keystore_failure_may_escape_witness:
  "fst (cmd_publish (toy_system [0xD800]) toy_args) = Inl UnicodeEncodeError"
proof -
  obtain s where s: "load toy_files toy_environ None = Inr s" "keystore_path s = Some (str_lit ''k'')"
    using toy_settings by blast
  from keystore_failure_may_escape [OF toy_not_refused _ s(2), of "[0xD800]" UnicodeEncodeError] s(1)
    lone_surrogate_passphrase
  show ?thesis by (simp add: toy_system_def toy_io_def)
qed

end
