(* ===== verification/Sha256Check.thy ===== *)
theory Sha256Check
  imports Sha256
begin
unbundle bit_operations_syntax

text \<open>
  A known answer: the model of SHA-256 gives the digest of \<open>abc\<close> that FIPS 180-4 prints.
  The rules below keep every intermediate word reduced, so that the rounds evaluate by
  rewriting.
\<close>

definition reduce32 :: "u32 \<Rightarrow> u32" where "reduce32 x = x"

lemma word_of_nat_reduce: "(word_of_nat n :: u32) = word_of_nat (n mod 4294967296)"
  by (simp add: word_of_nat_eq_iff take_bit_eq_mod)

lemma reduce32_numeral: "reduce32 (numeral k) = word_of_nat (numeral k mod 4294967296)"
  unfolding reduce32_def word_of_nat_reduce [symmetric] by (rule of_nat_numeral [symmetric])

lemma reduce32_small: "reduce32 0 = 0" "reduce32 1 = 1" by (simp_all add: reduce32_def)

definition next_state :: "u32 \<Rightarrow> u32 \<Rightarrow> u32 \<Rightarrow> u32 \<Rightarrow> u32 \<Rightarrow> u32 \<Rightarrow> u32 \<Rightarrow> u32 \<Rightarrow> u32 \<Rightarrow> sha_state" where
  "next_state t1 t2 a b c d e f g = Sha (reduce32 (t1 + t2)) a b c (reduce32 (d + t1)) e f g"

lemma round_step: "sha_round k w (Sha a b c d e f g h) =
    next_state (reduce32 (h + Sigma1 e + Ch e f g + k + w)) (reduce32 (Sigma0 a + Maj a b c)) a b c d e f g"
  by (simp add: next_state_def reduce32_def Let_def)

definition rotr32 :: "nat \<Rightarrow> u32 \<Rightarrow> u32" where "rotr32 n x = drop_bit n x OR reduce32 (push_bit (32 - n) x)"

lemma rotr_step: "rotr n x = rotr32 n x" by (simp add: rotr_def rotr32_def reduce32_def)

lemma not_step: "Ch x y z = (x AND y) XOR ((4294967295 XOR x) AND z)"
proof -
  have m: "(4294967295 :: u32) = - 1" by simp
  have "NOT x = - 1 XOR x" by (rule bit_eqI) (simp add: bit_simps)
  then show ?thesis unfolding Ch_def m by simp
qed

lemma rounds_step: "sha_rounds (k # ks) (w0 # ws) s =
    sha_rounds ks (ws @ [reduce32 (sigma1 ((w0 # ws) ! 14) + (w0 # ws) ! 9 + sigma0 ((w0 # ws) ! 1) + w0)])
      (sha_round k w0 s)"
  by (simp add: reduce32_def)

lemmas sha_eval = reduce32_numeral reduce32_small next_state_def round_step rotr_step rotr32_def not_step rounds_step
  Sigma0_def Sigma1_def sigma0_def sigma1_def Maj_def

lemma abc_rounds:
  "sha_rounds round_constants [1633837952, 0, 0, 0, 0, 0, 0, 0, 0, 0, 0, 0, 0, 0, 0, 24] sha_init =
   Sha 1349398616 3550093669 80891244 3093179625 1593118500 4212265488 2492278198 2518632596"
  by (simp add: sha_eval sha_init_def round_constants_def del: sha_rounds.simps(2) sha_round.simps)

lemma fifty_two: "replicate 52 x = [x, x, x, x, x, x, x, x, x, x, x, x, x, x, x, x, x, x, x, x, x, x, x, x, x, x, x, x, x, x, x, x, x, x, x, x, x, x, x, x, x, x, x, x, x, x, x, x, x, x, x, x]"
  by (simp add: numeral_eq_Suc)

lemma be_bytes_4: "be_bytes 4 n = [n div 16777216 mod 256, n div 65536 mod 256, n div 256 mod 256, n mod 256]"
proof -
  have "(4 :: nat) = Suc (Suc (Suc (Suc 0)))" by simp
  then show ?thesis by (simp only: be_bytes.simps append.simps div_mult2_eq [symmetric]) simp
qed

lemma be_bytes_8: "be_bytes 8 n = be_bytes 4 (n div 4294967296) @ be_bytes 4 n"
proof -
  have "(8 :: nat) = Suc (Suc (Suc (Suc (Suc (Suc (Suc (Suc 0)))))))" "(4 :: nat) = Suc (Suc (Suc (Suc 0)))"
    by simp_all
  then show ?thesis by (simp only: be_bytes.simps append.simps append_Nil div_mult2_eq [symmetric]) simp
qed

lemma abc_padded:
  "be_words (sha_pad [97, 98, 99]) = [1633837952, 0, 0, 0, 0, 0, 0, 0, 0, 0, 0, 0, 0, 0, 0, 24]"
  "length (sha_pad [97, 98, 99]) = 64"
  by (simp_all add: sha_pad_def fifty_two be_bytes_8 be_bytes_4)

lemma abc_block:
  "sha_block [1633837952, 0, 0, 0, 0, 0, 0, 0, 0, 0, 0, 0, 0, 0, 0, 24] sha_init =
   Sha 3128432319 2399260650 1094795486 1571693091 2953011619 2518121116 3021012833 4060091821"
  unfolding sha_block_def abc_rounds by (simp add: sha_init_def)

lemma sha256_of_abc:
  "sha256_hex [97, 98, 99] =
     str_lit ''ba7816bf8f01cfea414140de5dae2223b00361a396177a9cb410ff61f20015ad''"
proof -
  have "sha256 [97, 98, 99] =
      sha_digest (Sha 3128432319 2399260650 1094795486 1571693091 2953011619 2518121116 3021012833 4060091821)"
    by (simp add: sha256_def abc_padded abc_block)
  then show ?thesis
    by (simp add: sha256_hex_def hex_bytes_def hexdigit_def be_bytes_4)
qed

end
