(* ===== verification/Spec2Isabelle.thy ===== *)
theory Spec2Isabelle
  imports Canonical Did Signature LedgerSafety NonceConc Capability Untrusted RateLimit Client Outbound
    Announcement Publish Session Migrations TreeScan Cli Sha256Check
begin

text \<open>
  A verification library for FLOP-Agent-Office, the Python program under \<open>src/\<close> that
  signs messages for the public board Technocore and keeps a tamper-evident ledger of
  what it did.

  \<^bold>\<open>The program.\<close> A message is swept and validated into a canonical payload
  (\<open>identity/canonical.py\<close>). Its nonce comes from a durable counter in SQLite
  (\<open>identity/nonce.py\<close>, \<open>storage/db.py\<close>). The private key lives in an encrypted file that
  the keystore opens (\<open>identity/keystore.py\<close>); the wiring compares it with the configured
  identity (\<open>config/settings.py\<close>, \<open>identity/wiring.py\<close>) and hands out only a capability
  that signs messages and notes (\<open>identity/capability.py\<close>). The client reads rooms as
  untrusted data and sends signed writes only to loopback hosts, or once to the public
  host through a gate (\<open>technocore/client.py\<close>, \<open>ratelimit.py\<close>, \<open>untrusted.py\<close>). Every
  write is recorded before and after it is sent (\<open>technocore/outbound.py\<close>,
  \<open>announcement.py\<close>) in a hash-chained ledger (\<open>proof/hashchain.py\<close>, \<open>ledger.py\<close>,
  \<open>verify.py\<close>) that refuses secrets (\<open>tools/secret_scan.py\<close>). \<open>flopoffice/__main__.py\<close> is the
  command line over all of it.

  \<^bold>\<open>The Python layer.\<close> \<open>Prelude\<close> has the result type \<open>exn + 'a\<close> with its bind \<open>rbind\<close>, the
  locales \<open>codec\<close> and \<open>strict_codec\<close> of every encoder and decoder, and list lemmas. \<open>PyStr\<close> models
  \<open>str\<close> as a list of code points with the categories the program asks for, and UTF-8;
  \<open>Errors\<close> the exceptions and the dynamic values of the \<open>isinstance\<close> checks; \<open>PyUrl\<close> percent
  encoding; \<open>PyDyn\<close> truthiness, \<open>str()\<close> and \<open>int()\<close> of JSON values; \<open>Json\<close> \<open>json.dumps\<close> with the
  options of the program; \<open>Sha256\<close> \<open>hashlib.sha256\<close>, checked against a published digest in
  \<open>Sha256Check\<close>; \<open>Regex\<close> a backtracking matcher for \<open>re\<close>; \<open>Positional\<close> numerals in any base.
  Python integers are \<open>int\<close>; bytes, file modes and SHA-256 words are machine words; the
  64-bit limit of SQLite is a check on binding.

  \<^bold>\<open>Which theory models what.\<close>
  \<^item> \<open>Canonical\<close>: \<open>identity/canonical.py\<close>, the sweep, the validators, both payloads and the path
    segments. The payload determines room, nonce and text; acceptance is characterised.
  \<^item> \<open>Did\<close>, \<open>Signature\<close>, \<open>Signing\<close>: \<open>identity/did.py\<close>, \<open>signer.py\<close>, \<open>verifier.py\<close>. Round trips of both
    texts; the contract \<open>signature_scheme\<close> of signers and \<open>verify\<close>; when \<open>verify\<close> raises.
  \<^item> \<open>Settings\<close>, \<open>Keystore\<close>, \<open>Capability\<close>: \<open>config/\<close>, \<open>identity/keystore.py\<close>, \<open>capability.py\<close> and
    \<open>wiring.py\<close>. What \<open>load\<close> checks and raises, when a keystore opens and what escapes from
    it, that the capability belongs to the expected identity and signs nothing but canonical payloads.
  \<^item> \<open>Db\<close>, \<open>Nonce\<close>, \<open>NonceConc\<close>: the tables, constraints, triggers and transactions of
    \<open>storage/db.py\<close>, and \<open>identity/nonce.py\<close>. The store implements the locale \<open>counter\<close>; the
    interleavings of any number of processes, with crashes, refine atomic calls.
  \<^item> \<open>Migrations\<close>: the schema script of \<open>storage/db.py\<close>, its division into statements, the
    migrations and \<open>connect\<close>. No line is lost, a migration runs once, also when several
    openings interleave (\<open>opening_step\<close>), and reopening a ledger changes nothing.
  \<^item> \<open>HashChain\<close>, \<open>Ledger\<close>, \<open>LedgerSafety\<close>: \<open>proof/\<close>. Appending keeps the chain, the verifier finds
    the first break, a changed record is located or exhibits a SHA-256 collision, and no row
    of a reachable ledger holds a string that a secret rule matches.
  \<^item> \<open>SecretScan\<close>, \<open>TreeScan\<close>: the rules, texts and names of \<open>tools/\<close>; the choice of files, the
    report and the exit code. What is reported, and what a scan that passes means.
  \<^item> \<open>RateLimit\<close>, \<open>Untrusted\<close>, \<open>Client\<close>: \<open>technocore/ratelimit.py\<close>, \<open>untrusted.py\<close>, \<open>client.py\<close>. Grants
    stay below an advertised limit of two or more and \<open>acquire\<close> ends; printing never shows content; a
    write leaves only when every guard allows it, and a gate admits one.
  \<^item> \<open>Outbound\<close>, \<open>Announcement\<close>, \<open>Publish\<close>: \<open>technocore/outbound.py\<close> and \<open>announcement.py\<close>. Every
    write leaves an intent and an outcome, or a dangling intent; the announcement leaves
    at most once, after its proof is in the ledger. All of them rely on the ledger through
    the locale \<open>record_log\<close>.
  \<^item> \<open>Session\<close>: the program at work. Any number of processes share a ledger, record writes, reserve
    nonces, send and crash between any two transactions; the two operations of \<open>Outbound\<close> and
    \<open>Publish\<close> are runs of these steps. Every request that leaves has a record of its own that names
    what it carries, and no announcement nonce leaves twice.
  \<^item> \<open>Cli\<close>: \<open>flopoffice/__main__.py\<close>. Exit codes, and what the publish command can send.

  \<^bold>\<open>State and effects.\<close> An operation on the database is a function \<open>db \<Rightarrow> (exn + 'a) \<times> db\<close>, one
  on the client \<open>TechnocoreClient \<Rightarrow> (exn + 'a) \<times> TechnocoreClient\<close>, where \<open>sent\<close> logs the
  requests that left. Each \<open>raise\<close> is a value of \<open>exn\<close>. The state machines are inductive:
  \<open>ledger_step\<close> with \<open>reachable\<close>, \<open>proc_step\<close> with \<open>conc_reachable\<close>, and \<open>session_step\<close>, whose
  steps are the transactions and requests of the operations. \<open>ledger_step\<close> and \<open>session_step\<close> take
  a flag: the runs of \<open>honest\<close> servers record no \<open>bool\<close> as sequence number and keep \<open>ledger_ok\<close>,
  all other runs keep \<open>ledger_kept\<close>, where only the hash of such a record may not fit.

  \<^bold>\<open>Parameters.\<close> Code outside \<open>src/\<close> is an argument: Ed25519 and PEM decryption (\<open>ed25519\<close>, with
  the law \<open>ed25519_ok\<close> that a signature verifies under its own key), the file system
  (\<open>filesystem\<close>, where every question about a path may raise), the HTTP server, the clock and \<open>repr\<close> of foreign values (\<open>io\<close>, \<open>runtime\<close>), the
  identifiers and times of records (\<open>stamp\<close>), \<open>git\<close> and \<open>getpass\<close> (\<open>system\<close>),
  the working tree of a scan (\<open>worktree\<close>) and what a schema statement does (\<open>executor\<close>). No property
  assumes that SHA-256 is collision free: a collision is a disjunct of the conclusion.

  \<^bold>\<open>Bounds.\<close> Loops are structural recursion except the matcher, which recurses on the length
  of the input, and \<open>acquire\<close>, which takes fuel: \<open>acquire_terminates\<close> shows that \<open>100 * max_wait\<close>
  rounds and two more are enough, hence 3002 for the default of thirty seconds.

  \<^bold>\<open>Not modelled.\<close> Floating point in the rate limiter (rational numbers stand for it); the
  thread lock of a bucket (an operation is one step); what \<open>getpass\<close> raises at the end of its
  input; the pragmas of a connection, which
  set its modes; the meaning of the \<open>CREATE\<close> statements, whose constraints and triggers \<open>Db\<close>
  states by hand; \<open>argparse\<close> definitions; \<open>__dir__\<close>; the tests under \<open>src/tests\<close>.
\<close>

end
